(* ===== verification/Prelude.thy ===== *)
theory Prelude
  imports Main "HOL-Library.Word"
begin

text \<open>
  What every theory of the development shares: the value of a Go call (a result, an error or
  a panic) with its sequencing operator, error values, the functions of \<open>strings\<close>,
  \<open>strconv\<close> and \<open>fmt\<close> that the code calls, and generic list lemmas.
  A Go string and a byte slice are both a \<open>string\<close>: HOL's \<open>char\<close> is an 8-bit
  byte.  A nil pointer or nil interface value is \<open>None\<close>.
\<close>

named_theorems go_simps \<open>unfolding rules of the model's operations\<close>
named_theorems go_inv \<open>preservation lemmas of the model's operations\<close>

section \<open>Errors, panics and sequencing\<close>

text \<open>
  An error value records how it was made: \<open>errors.New\<close>, \<open>errors.Wrap\<close> (cause and
  message), \<open>errors.Wrapf\<close> with the cause itself as the argument of the format, or by code
  outside the repository.  What its \<open>Error\<close> method prints is up to those packages, and so a
  parameter of the definitions that print it.  \<open>'a go\<close> is the outcome of a call that
  returns \<open>('a, error)\<close> and may panic.
\<close>

datatype go_error = ErrNew string | ErrWrap go_error string | ErrWrapf go_error string | ErrForeign string

datatype 'a go = Ok 'a | Err go_error | Panic string

fun go_bind :: "'a go \<Rightarrow> ('a \<Rightarrow> 'b go) \<Rightarrow> 'b go" where
  "go_bind (Ok x) f = f x"
| "go_bind (Err e) f = Err e"
| "go_bind (Panic m) f = Panic m"

fun go_wrap :: "string \<Rightarrow> 'a go \<Rightarrow> 'a go" where
  "go_wrap msg (Ok x) = Ok x"
| "go_wrap msg (Err e) = Err (ErrWrap e msg)"
| "go_wrap msg (Panic m) = Panic m"

fun is_ok :: "'a go \<Rightarrow> bool" where
  "is_ok (Ok x) = True"
| "is_ok (Err e) = False"
| "is_ok (Panic m) = False"

fun is_panic :: "'a go \<Rightarrow> bool" where
  "is_panic (Panic m) = True"
| "is_panic (Ok x) = False"
| "is_panic (Err e) = False"

text \<open>
  The same for a call that also changes a state: the next call starts in the state that the
  one before left, and an error or a panic ends the sequence in the state it was raised in.
\<close>

fun go_then :: "'a go \<times> 's \<Rightarrow> ('a \<Rightarrow> 's \<Rightarrow> 'b go \<times> 's) \<Rightarrow> 'b go \<times> 's" where
  "go_then (Ok x, s) f = f x s"
| "go_then (Err e, s) f = (Err e, s)"
| "go_then (Panic m, s) f = (Panic m, s)"

lemma go_then_Ok_iff: "go_then r f = (Ok y, t) \<longleftrightarrow> (\<exists>x s. r = (Ok x, s) \<and> f x s = (Ok y, t))"
  by (cases r; cases "fst r") auto

lemma go_then_cases:
  assumes "go_then r f = (q, t)"
  obtains (ok) x s where "r = (Ok x, s)" "f x s = (q, t)"
  | (err) e where "r = (Err e, t)" "q = Err e"
  | (panic) m where "r = (Panic m, t)" "q = Panic m"
  using assms by (cases r; cases "fst r") auto

lemma go_bind_Ok_iff: "go_bind r f = Ok y \<longleftrightarrow> (\<exists>x. r = Ok x \<and> f x = Ok y)"
  by (cases r) auto

lemma go_bind_Ok_right [simp]: "go_bind r Ok = r"
  by (cases r) auto

lemma go_bind_assoc: "go_bind (go_bind r f) g = go_bind r (\<lambda>x. go_bind (f x) g)"
  by (cases r) auto

lemma go_wrap_Ok_iff [simp]: "go_wrap msg r = Ok x \<longleftrightarrow> r = Ok x"
  by (cases r) auto

lemma is_ok_go_wrap [simp]: "is_ok (go_wrap msg r) = is_ok r"
  by (cases r) auto

lemma is_panic_go_wrap [simp]: "is_panic (go_wrap msg r) = is_panic r"
  by (cases r) auto

lemma is_panic_bind_Ok: "is_panic (go_bind r (\<lambda>x. Ok (f x))) = is_panic r"
  by (cases r) auto

lemma is_ok_iff: "is_ok r \<longleftrightarrow> (\<exists>x. r = Ok x)"
  by (cases r) auto

section \<open>Strings\<close>

text \<open>The line feed, written \<open>"\n"\<close> in Go.\<close>

abbreviation nl :: char where
  "nl \<equiv> CHR 0x0A"

text \<open>\<open>strings.Join(xs, sep)\<close> and \<open>strings.Split(s, sep)\<close> for a one-byte separator.\<close>

fun go_join :: "string list \<Rightarrow> string \<Rightarrow> string" where
  "go_join [] sep = []"
| "go_join [x] sep = x"
| "go_join (x # y # ys) sep = x @ sep @ go_join (y # ys) sep"

fun go_split :: "string \<Rightarrow> char \<Rightarrow> string list" where
  "go_split [] sep = [[]]"
| "go_split (c # cs) sep =
     (if c = sep then [] # go_split cs sep
      else (case go_split cs sep of
              [] \<Rightarrow> [[c]]
            | w # ws \<Rightarrow> (c # w) # ws))"

lemma go_split_nonempty [simp]: "go_split s sep \<noteq> []"
  by (induction s sep rule: go_split.induct) (auto split: list.splits)

lemma go_split_no_sep: "sep \<notin> set s \<Longrightarrow> go_split s sep = [s]"
  by (induction s sep rule: go_split.induct) auto

lemma go_split_append:
  "sep \<notin> set s \<Longrightarrow> go_split (s @ sep # t) sep = s # go_split t sep"
  by (induction s) auto

lemma go_split_join:
  "xs \<noteq> [] \<Longrightarrow> \<forall>x \<in> set xs. sep \<notin> set x \<Longrightarrow> go_split (go_join xs [sep]) sep = xs"
  by (induction xs "[sep]" rule: go_join.induct) (auto simp: go_split_no_sep go_split_append)

text \<open>\<open>strings.TrimRight(s, "\n")\<close>.\<close>

definition trim_right_nl :: "string \<Rightarrow> string" where
  "trim_right_nl s = rev (dropWhile (\<lambda>c. c = nl) (rev s))"

lemma trim_right_nl_snoc: "nl \<notin> set s \<Longrightarrow> trim_right_nl (s @ [nl]) = s"
  by (cases s rule: rev_cases) (auto simp: trim_right_nl_def)

section \<open>Decimal numbers: \<open>strconv\<close>\<close>

text \<open>\<open>strconv.FormatInt(n, 10)\<close>: the digits of a natural number, and the sign in front.\<close>

definition digit_char :: "nat \<Rightarrow> char" where
  "digit_char d = char_of (48 + d)"

fun format_nat :: "nat \<Rightarrow> string" where
  "format_nat n = (if n < 10 then [digit_char n] else format_nat (n div 10) @ [digit_char (n mod 10)])"

declare format_nat.simps [simp del]

definition format_int :: "int \<Rightarrow> string" where
  "format_int i = (if i < 0 then CHR ''-'' # format_nat (nat (- i)) else format_nat (nat i))"

text \<open>
  \<open>strconv.ParseUint(s, 10, bits)\<close>: the byte loop of the library, over the naturals.  With
  32 bits its 64-bit accumulator stays below \<open>2 ^ 32\<close> and its own overflow test never
  fires, so only the range test against \<open>maxVal\<close> is left.  Letters are digits above 9
  and so a syntax error in base 10, like any other byte.
\<close>

definition errSyntax :: "go_error" where
  "errSyntax = ErrNew ''invalid syntax''"

definition errRange :: "go_error" where
  "errRange = ErrNew ''value out of range''"

definition is_digit :: "char \<Rightarrow> bool" where
  "is_digit c \<longleftrightarrow> 48 \<le> (of_char c :: nat) \<and> (of_char c :: nat) \<le> 57"

fun parse_uint_loop :: "nat \<Rightarrow> nat \<Rightarrow> string \<Rightarrow> nat go" where
  "parse_uint_loop maxVal n [] = Ok n"
| "parse_uint_loop maxVal n (c # cs) =
     (if \<not> is_digit c then Err errSyntax
      else (let n1 = n * 10 + (of_char c - 48)
            in if maxVal < n1 then Err errRange else parse_uint_loop maxVal n1 cs))"

definition parse_uint :: "string \<Rightarrow> nat \<Rightarrow> nat go" where
  "parse_uint s bits = (if s = [] then Err errSyntax else parse_uint_loop (2 ^ bits - 1) 0 s)"

lemma of_char_digit_char: "d < 10 \<Longrightarrow> of_char (digit_char d) = (48 + d :: nat)"
  by (simp add: digit_char_def)

lemma is_digit_digit_char [simp]: "d < 10 \<Longrightarrow> is_digit (digit_char d)"
  by (simp add: is_digit_def of_char_digit_char)

lemma format_nat_nonempty [simp]: "format_nat n \<noteq> []"
  by (subst format_nat.simps) simp

lemma format_nat_digits: "c \<in> set (format_nat n) \<Longrightarrow> is_digit c"
proof (induction n rule: format_nat.induct)
  case (1 n)
  then show ?case
    by (subst (asm) (2) format_nat.simps) (auto split: if_splits)
qed

lemma parse_uint_loop_snoc:
  "parse_uint_loop m n (s @ [c]) = go_bind (parse_uint_loop m n s) (\<lambda>k. parse_uint_loop m k [c])"
  by (induction m n s rule: parse_uint_loop.induct) (auto simp: Let_def)

lemma parse_uint_loop_format: "n \<le> m \<Longrightarrow> parse_uint_loop m 0 (format_nat n) = Ok n"
proof (induction n rule: format_nat.induct)
  case (1 n)
  show ?case
  proof (cases "n < 10")
    case True
    with "1.prems" show ?thesis
      by (subst format_nat.simps) (auto simp: of_char_digit_char Let_def)
  next
    case False
    have "n div 10 \<le> m" using "1.prems" by (rule order.trans [OF div_le_dividend])
    with False "1.IH" have "parse_uint_loop m 0 (format_nat (n div 10)) = Ok (n div 10)" by simp
    then show ?thesis using False "1.prems"
      by (subst format_nat.simps) (auto simp: parse_uint_loop_snoc of_char_digit_char Let_def)
  qed
qed

lemma parse_uint_format: "n < 2 ^ bits \<Longrightarrow> parse_uint (format_nat n) bits = Ok n"
  by (simp add: parse_uint_def parse_uint_loop_format)

lemma parse_uint_loop_bound: "n \<le> m \<Longrightarrow> parse_uint_loop m n s = Ok k \<Longrightarrow> k \<le> m"
  by (induction m n s rule: parse_uint_loop.induct) (auto simp: Let_def split: if_splits)

lemma parse_uint_bound: "parse_uint s bits = Ok k \<Longrightarrow> k < 2 ^ bits"
  using parse_uint_loop_bound [of 0 "2 ^ bits - 1" s k]
  by (auto simp: parse_uint_def less_eq_Suc_le [symmetric] split: if_splits)
    (metis Suc_pred le_imp_less_Suc zero_less_numeral zero_less_power)

lemma not_digit_colon [simp]: "\<not> is_digit CHR '':''"
  and not_digit_lbr [simp]: "\<not> is_digit CHR ''[''"
  and not_digit_rbr [simp]: "\<not> is_digit CHR '']''"
  and not_digit_comma [simp]: "\<not> is_digit CHR '',''"
  by (simp_all add: is_digit_def)

section \<open>Lists\<close>

lemma count_list_filter: "count_list xs x = length (filter (\<lambda>y. y = x) xs)"
  by (induction xs) auto

lemma key_in_fst_image: "(k, v) \<in> set xs \<Longrightarrow> k \<in> fst ` set xs"
  by (metis fst_conv image_eqI)

lemma length_filter_key:
  "distinct (map fst xs) \<Longrightarrow> k \<in> fst ` set xs \<Longrightarrow>
     Suc (length (filter (\<lambda>(k', v). k' \<noteq> k) xs)) = length xs"
proof (induction xs)
  case Nil
  then show ?case by simp
next
  case (Cons p xs)
  show ?case
  proof (cases "fst p = k")
    case True
    with Cons.prems have "filter (\<lambda>(k', v). k' \<noteq> k) xs = xs"
      by (auto simp: filter_id_conv dest: key_in_fst_image)
    with True show ?thesis by (cases p) simp
  next
    case False
    with Cons show ?thesis by (auto simp: split_beta)
  qed
qed

lemma takeWhile_append_stop: "\<not> P x \<Longrightarrow> takeWhile P (xs @ x # ys) = takeWhile P xs"
  by (induction xs) auto

section \<open>Runs of a step relation\<close>

text \<open>
  A run is a sequence of labelled steps.  Every concurrent component is a step relation, and
  what holds in all its reachable states follows from one preservation lemma, by the locale
  below.
\<close>

inductive run_path :: "('s \<Rightarrow> 'l \<Rightarrow> 's \<Rightarrow> bool) \<Rightarrow> 's \<Rightarrow> 'l list \<Rightarrow> 's \<Rightarrow> bool"
  for step :: "'s \<Rightarrow> 'l \<Rightarrow> 's \<Rightarrow> bool" where
  run_nil: "run_path step s [] s"
| run_cons: "step s l s' \<Longrightarrow> run_path step s' ls s'' \<Longrightarrow> run_path step s (l # ls) s''"

inductive_simps run_path_Nil_iff [simp]: "run_path step s [] s'"
inductive_simps run_path_Cons_iff: "run_path step s (l # ls) s'"

lemma run_path_append:
  "run_path step s (ls @ ms) s'' \<longleftrightarrow> (\<exists>s'. run_path step s ls s' \<and> run_path step s' ms s'')"
  by (induction ls arbitrary: s) (auto simp: run_path_Cons_iff)

locale step_invariant =
  fixes step :: "'s \<Rightarrow> 'l \<Rightarrow> 's \<Rightarrow> bool"
    and inv :: "'s \<Rightarrow> bool"
  assumes inv_step: "step s l s' \<Longrightarrow> inv s \<Longrightarrow> inv s'"
begin

lemma run_inv: "run_path step s ls s' \<Longrightarrow> inv s \<Longrightarrow> inv s'"
  by (induction rule: run_path.induct) (auto intro: inv_step)

text \<open>A quantity that no step of a reachable state decreases.\<close>

lemma run_mono:
  fixes m :: "'s \<Rightarrow> 'a::order"
  assumes "\<And>s l s'. step s l s' \<Longrightarrow> inv s \<Longrightarrow> m s \<le> m s'"
  shows "run_path step s ls s' \<Longrightarrow> inv s \<Longrightarrow> m s \<le> m s'"
proof (induction rule: run_path.induct)
  case (run_cons s l s' ls s'')
  then show ?case using assms inv_step by (meson order.trans)
qed simp

end

end
