(* ===== verification/Lock.thy ===== *)
theory Lock
  imports Prelude
begin

text \<open>
  \<open>internal/lock\<close>: \<open>OneTime\<close> (an atomic flag that can be taken once) and
  \<open>WorkGroup\<close> (a read-write mutex in front of a wait group).

  \<open>OneTime\<close> is its one machine word and an atomic compare-and-swap, so an execution
  of any number of goroutines is the sequence of their \<open>Lock\<close> calls.  \<open>WorkGroup\<close> is a
  step relation: every atomic action of \<open>sync.RWMutex\<close> and \<open>sync.WaitGroup\<close> that its
  methods perform is one labelled step of the calling goroutine, and a call that blocks is a
  step that is not enabled.
\<close>

section \<open>OneTime\<close>

record onetime =
  locked :: "32 word"

definition zero_onetime :: onetime where
  "zero_onetime = \<lparr>locked = 0\<rparr>"

definition compare_and_swap :: "'a \<Rightarrow> 'a \<Rightarrow> 'a \<Rightarrow> bool \<times> 'a" where
  "compare_and_swap old new v = (if v = old then (True, new) else (False, v))"

definition onetime_lock :: "onetime \<Rightarrow> bool \<times> onetime" where
  "onetime_lock ol = (let (swapped, v) = compare_and_swap 0 1 (locked ol) in (swapped, ol\<lparr>locked := v\<rparr>))"

text \<open>\<open>Do\<close>: the argument is the action's effect on the state that it works on.\<close>

definition onetime_do :: "('s \<Rightarrow> 's) \<Rightarrow> onetime \<Rightarrow> 's \<Rightarrow> bool \<times> onetime \<times> 's" where
  "onetime_do f ol s =
     (case onetime_lock ol of
        (False, ol') \<Rightarrow> (False, ol', s)
      | (True, ol') \<Rightarrow> (True, ol', f s))"

text \<open>A sequence of \<open>n\<close> calls of a boolean operation, with their results in order.\<close>

fun repeat_calls :: "('o \<Rightarrow> bool \<times> 'o) \<Rightarrow> nat \<Rightarrow> 'o \<Rightarrow> bool list \<times> 'o" where
  "repeat_calls f 0 x = ([], x)"
| "repeat_calls f (Suc n) x =
     (let (b, x') = f x; (bs, x'') = repeat_calls f n x' in (b # bs, x''))"

fun repeat_do :: "('s \<Rightarrow> 's) list \<Rightarrow> onetime \<Rightarrow> 's \<Rightarrow> bool list \<times> onetime \<times> 's" where
  "repeat_do [] ol s = ([], ol, s)"
| "repeat_do (f # fs) ol s =
     (let (b, ol', s') = onetime_do f ol s; (bs, ol'', s'') = repeat_do fs ol' s'
      in (b # bs, ol'', s''))"

text \<open>
  The contract a client of a one-shot lock relies on: an attempt on a free lock succeeds and
  takes it, an attempt on a taken one fails and leaves it taken.
\<close>

locale one_shot =
  fixes attempt :: "'o \<Rightarrow> bool \<times> 'o"
    and free :: "'o \<Rightarrow> bool"
  assumes attempt_free: "free x \<Longrightarrow> fst (attempt x) \<and> \<not> free (snd (attempt x))"
    and attempt_taken: "\<not> free x \<Longrightarrow> \<not> fst (attempt x) \<and> \<not> free (snd (attempt x))"
begin

lemma attempt_result: "fst (attempt x) = free x"
  using attempt_free [of x] attempt_taken [of x] by blast

lemma attempt_takes: "\<not> free (snd (attempt x))"
  using attempt_free [of x] attempt_taken [of x] by blast

lemma calls_taken: "\<not> free x \<Longrightarrow> fst (repeat_calls attempt n x) = replicate n False"
proof (induction n arbitrary: x)
  case 0
  then show ?case by simp
next
  case (Suc n)
  from Suc.IH [of "snd (attempt x)"] attempt_taken [OF Suc.prems]
  show ?case by (simp add: split_beta Let_def)
qed

lemma calls_free: "free x \<Longrightarrow> fst (repeat_calls attempt (Suc n) x) = True # replicate n False"
  using attempt_free [of x] calls_taken [of "snd (attempt x)" n]
  by (simp add: split_beta Let_def)

end

lemma onetime_lock_simps [simp]:
  "fst (onetime_lock ol) \<longleftrightarrow> locked ol = 0"
  "locked (snd (onetime_lock ol)) = (if locked ol = 0 then 1 else locked ol)"
  by (auto simp: onetime_lock_def compare_and_swap_def)

interpretation ot: one_shot onetime_lock "\<lambda>ol. locked ol = 0"
  by unfold_locales auto

lemma onetime_do_cases:
  "onetime_do f ol s =
     (if locked ol = 0 then (True, ol\<lparr>locked := 1\<rparr>, f s) else (False, ol, s))"
  by (auto simp: onetime_do_def onetime_lock_def compare_and_swap_def)

lemma repeat_do_taken:
  "locked ol \<noteq> 0 \<Longrightarrow> repeat_do fs ol s = (replicate (length fs) False, ol, s)"
  by (induction fs) (auto simp: onetime_do_cases)

section \<open>WorkGroup\<close>

text \<open>
  \<open>sync.RWMutex\<close>: a \<open>Lock\<close> call first announces itself, which keeps other writers and
  new readers out, and holds the mutex once the readers that were inside have left.
  \<open>adders\<close> gives the point each goroutine has reached in \<open>WorkGroup.Add\<close>; the readers are the
  goroutines between its \<open>RLock\<close> and its deferred \<open>RUnlock\<close>.
\<close>

datatype writer = NoWriter | Announced | Held

datatype add_pc = AddIdle | AddLocked int | AddCounted

record workgroup =
  wg_writer :: writer
  wg_adders :: "nat \<Rightarrow> add_pc"
  wg_readers :: "nat set"
  wg_count :: int
  wg_panicked :: bool

definition zero_workgroup :: workgroup where
  "zero_workgroup =
     \<lparr>wg_writer = NoWriter, wg_adders = (\<lambda>_. AddIdle), wg_readers = {}, wg_count = 0, wg_panicked = False\<rparr>"

datatype wg_label =
    LockAnnounce | LockAcquire | Unlock
  | AddRLock nat int | AddCount nat | AddRUnlock nat
  | WgDone | WaitReturns

text \<open>
  \<open>sync.WaitGroup.Add(n)\<close>: the counter changes first, and a negative one panics;
  \<open>Done()\<close> is \<open>Add(-1)\<close>.
\<close>

definition waitgroup_add :: "int \<Rightarrow> workgroup \<Rightarrow> workgroup" where
  "waitgroup_add n g = g\<lparr>wg_count := wg_count g + n, wg_panicked := wg_panicked g \<or> wg_count g + n < 0\<rparr>"

inductive wg_step :: "workgroup \<Rightarrow> wg_label \<Rightarrow> workgroup \<Rightarrow> bool" where
  lock_announce: "wg_writer g = NoWriter \<Longrightarrow> wg_step g LockAnnounce (g\<lparr>wg_writer := Announced\<rparr>)"
| lock_acquire: "wg_writer g = Announced \<Longrightarrow> wg_readers g = {} \<Longrightarrow>
     wg_step g LockAcquire (g\<lparr>wg_writer := Held\<rparr>)"
| unlock: "wg_writer g = Held \<Longrightarrow> wg_step g Unlock (g\<lparr>wg_writer := NoWriter\<rparr>)"
| add_rlock: "wg_writer g = NoWriter \<Longrightarrow> wg_adders g t = AddIdle \<Longrightarrow>
     wg_step g (AddRLock t n)
       (g\<lparr>wg_adders := (wg_adders g)(t := AddLocked n), wg_readers := insert t (wg_readers g)\<rparr>)"
| add_count: "wg_adders g t = AddLocked n \<Longrightarrow>
     wg_step g (AddCount t) (waitgroup_add n (g\<lparr>wg_adders := (wg_adders g)(t := AddCounted)\<rparr>))"
| add_runlock: "wg_adders g t = AddCounted \<Longrightarrow>
     wg_step g (AddRUnlock t)
       (g\<lparr>wg_adders := (wg_adders g)(t := AddIdle), wg_readers := wg_readers g - {t}\<rparr>)"
| wg_done: "wg_step g WgDone (waitgroup_add (-1) g)"
| wait_returns: "wg_count g = 0 \<Longrightarrow> wg_step g WaitReturns g"

inductive_cases wg_step_addrlockE [elim!]: "wg_step g (AddRLock t n) g'"
inductive_cases wg_step_unlockE [elim!]: "wg_step g Unlock g'"
inductive_cases wg_step_waitE [elim!]: "wg_step g WaitReturns g'"
text \<open>What each step does to the group, and when it is enabled.\<close>

lemma wg_step_effect:
  assumes "wg_step g l g'"
  shows "wg_writer g' = (case l of LockAnnounce \<Rightarrow> Announced | LockAcquire \<Rightarrow> Held | Unlock \<Rightarrow> NoWriter
                         | _ \<Rightarrow> wg_writer g)"
    and "wg_adders g' = (case l of AddRLock t n \<Rightarrow> (wg_adders g)(t := AddLocked n)
                         | AddCount t \<Rightarrow> (wg_adders g)(t := AddCounted)
                         | AddRUnlock t \<Rightarrow> (wg_adders g)(t := AddIdle)
                         | _ \<Rightarrow> wg_adders g)"
    and "wg_count g' = (case l of AddCount t \<Rightarrow> wg_count g + (case wg_adders g t of AddLocked n \<Rightarrow> n | _ \<Rightarrow> 0)
                         | WgDone \<Rightarrow> wg_count g - 1
                         | _ \<Rightarrow> wg_count g)"
    and "case l of LockAnnounce \<Rightarrow> wg_writer g = NoWriter | AddRLock t n \<Rightarrow> wg_writer g = NoWriter
         | LockAcquire \<Rightarrow> wg_writer g = Announced | Unlock \<Rightarrow> wg_writer g = Held
         | WaitReturns \<Rightarrow> wg_count g = 0 | _ \<Rightarrow> True"
  using assms by (auto elim!: wg_step.cases simp: waitgroup_add_def)

definition wg_inv :: "workgroup \<Rightarrow> bool" where
  "wg_inv g \<longleftrightarrow> wg_readers g = {t. wg_adders g t \<noteq> AddIdle} \<and>
     (wg_writer g = Held \<longrightarrow> (\<forall>t. wg_adders g t = AddIdle)) \<and>
     (0 \<le> wg_count g \<or> wg_panicked g)"

lemma wg_inv_zero [simp]: "wg_inv zero_workgroup"
  by (simp add: wg_inv_def zero_workgroup_def)

lemma wg_step_inv [go_inv]: "wg_step g l g' \<Longrightarrow> wg_inv g \<Longrightarrow> wg_inv g'"
proof (induction rule: wg_step.induct)
  case (add_count g t n)
  then have "{x. ((wg_adders g)(t := AddCounted)) x \<noteq> AddIdle} = {x. wg_adders g x \<noteq> AddIdle}"
    by force
  with add_count show ?case by (simp add: wg_inv_def waitgroup_add_def) force
qed (auto simp: wg_inv_def waitgroup_add_def)

lemma wg_held_no_adder: "wg_inv g \<Longrightarrow> wg_writer g = Held \<Longrightarrow> wg_adders g t = AddIdle"
  by (auto simp: wg_inv_def)

text \<open>
  What a goroutine that holds a work group's lock relies on, whatever the group is made of:
  as long as nobody unlocks, the lock stays held and the number of ongoing jobs only falls.
\<close>

locale work_group = step_invariant step inv
  for step :: "'g \<Rightarrow> 'l \<Rightarrow> 'g \<Rightarrow> bool" and inv :: "'g \<Rightarrow> bool" +
  fixes held :: "'g \<Rightarrow> bool"
    and unlocks :: "'l \<Rightarrow> bool"
    and jobs :: "'g \<Rightarrow> int"
  assumes held_step: "inv g \<Longrightarrow> held g \<Longrightarrow> step g l g' \<Longrightarrow> \<not> unlocks l \<Longrightarrow> held g' \<and> jobs g' \<le> jobs g"
begin

lemma run_held:
  "run_path step g ls g' \<Longrightarrow> inv g \<Longrightarrow> held g \<Longrightarrow> \<forall>l \<in> set ls. \<not> unlocks l \<Longrightarrow> held g' \<and> jobs g' \<le> jobs g"
proof (induction rule: run_path.induct)
  case (run_cons g l g' ls g'')
  from run_cons.prems run_cons.hyps(1) have "held g' \<and> jobs g' \<le> jobs g"
    by (intro held_step) auto
  with run_cons.IH inv_step [OF run_cons.hyps(1)] run_cons.prems show ?case by auto
qed simp

end

lemma wg_held_step:
  "wg_inv g \<Longrightarrow> wg_writer g = Held \<Longrightarrow> wg_step g l g' \<Longrightarrow> l \<noteq> Unlock \<Longrightarrow>
     wg_writer g' = Held \<and> wg_count g' \<le> wg_count g"
  by (erule wg_step.cases) (auto simp: waitgroup_add_def wg_held_no_adder)

interpretation wg: work_group wg_step wg_inv "\<lambda>g. wg_writer g = Held" "\<lambda>l. l = Unlock" wg_count
  by unfold_locales (auto intro: wg_step_inv dest: wg_held_step)

section \<open>Properties\<close>

text \<open>
  However many goroutines call \<open>Lock\<close> on a fresh \<open>OneTime\<close>, in whatever order, the
  first call returns true and every other call returns false.
\<close>

theorem onetime_lock_exactly_once:
  "fst (repeat_calls onetime_lock (Suc n) zero_onetime) = True # replicate n False"
  by (rule ot.calls_free) (simp add: zero_onetime_def)

text \<open>
  Of the actions that are passed to \<open>Do\<close> on a fresh \<open>OneTime\<close>, only the
  first is ever performed.
\<close>

theorem onetime_do_runs_first_only:
  "repeat_do (f # fs) zero_onetime s =
     (True # replicate (length fs) False, \<lparr>locked = 1\<rparr>, f s)"
  by (simp add: onetime_do_cases repeat_do_taken zero_onetime_def)

text \<open>
  C27.  A goroutine that has called \<open>Lock\<close> and then \<open>Wait\<close> on a work group can work
  without new jobs appearing: from the moment \<open>Wait\<close> returns, until somebody calls
  \<open>Unlock\<close>, the lock stays held and the counter stays at zero, whatever the other
  goroutines do (short of panicking the wait group with one \<open>Done\<close> too many).
\<close>

theorem workgroup_no_jobs_while_locked:
  assumes "run_path wg_step zero_workgroup before g" and "wg_writer g = Held"
    and "wg_step g WaitReturns g1" and "run_path wg_step g1 during g2" and "Unlock \<notin> set during"
  shows "wg_writer g2 = Held \<and> (wg_count g2 = 0 \<or> wg_panicked g2)"
proof -
  have inv: "wg_inv g" by (rule wg.run_inv [OF assms(1)]) simp
  from assms(3) have g1: "g1 = g" "wg_count g = 0" by auto
  with assms(2,4,5) inv have "wg_writer g2 = Held \<and> wg_count g2 \<le> 0"
    using wg.run_held [of g during g2] by auto
  moreover have "wg_inv g2" using wg.run_inv [OF assms(4)] inv g1 by simp
  ultimately show ?thesis by (auto simp: wg_inv_def)
qed

text \<open>A job that was running when the lock was requested, and has finished since.\<close>

definition example_group :: workgroup where
  "example_group =
     \<lparr>wg_writer = Held, wg_adders = (\<lambda>_. AddIdle)(7 := AddIdle), wg_readers = {7} - {7}, wg_count = 0, wg_panicked = False\<rparr>"

lemma example_group_path:
  "run_path wg_step zero_workgroup
     [AddRLock 7 1, AddCount 7, LockAnnounce, AddRUnlock 7, LockAcquire, WgDone] example_group"
  unfolding zero_workgroup_def example_group_def
  apply (rule run_cons, rule add_rlock, simp, simp)
  apply (rule run_cons, rule add_count, simp)
  apply (rule run_cons, rule lock_announce, simp add: waitgroup_add_def)
  apply (rule run_cons, rule add_runlock, simp add: waitgroup_add_def)
  apply (rule run_cons, rule lock_acquire, simp, simp add: waitgroup_add_def)
  apply (rule run_cons, rule wg_done)
  apply (simp add: waitgroup_add_def fun_upd_idem_iff)
  done

theorem workgroup_no_jobs_while_locked_witness:
  "wg_writer example_group = Held \<and> (wg_count example_group = 0 \<or> wg_panicked example_group)"
proof (rule workgroup_no_jobs_while_locked [OF example_group_path])
  show "wg_writer example_group = Held" by (simp add: example_group_def)
  show "wg_step example_group WaitReturns example_group"
    by (rule wait_returns) (simp add: example_group_def)
  show "run_path wg_step example_group [WaitReturns] example_group"
    by (auto intro!: run_path.intros wait_returns simp: example_group_def)
qed simp

end
