(* ===== verification/Logging.thy ===== *)
theory Logging
  imports Lock
begin

text \<open>
  \<open>logging\<close>: \<open>FmtSSHLog\<close> with the part of \<open>fmt.Sprintf\<close> that the repository's
  format strings use, the memory leak detector in both its variants, and the global
  statistics that every \<open>Finish\<close> call reports to.

  A detector is its wait-group counter and its map from names to call sites, and the state a
  call leaves behind is part of its result even when the call panics.  \<open>Finish\<close> and
  the statistics functions run concurrently: they are the steps of \<open>leak_step\<close>, in which a
  \<open>select\<close> with two ready cases may take either.
\<close>

section \<open>Log lines\<close>

text \<open>
  A \<open>LogSessionOrContext\<close> is what the logging functions read of it; a \<open>Logger\<close> is
  the list of lines printed to it so far.
\<close>

record peer =
  peer_user :: string
  peer_addr :: string

type_synonym log = "string list"

datatype fmtarg = FStr string | FInt int

fun fmtarg_typed :: "fmtarg \<Rightarrow> string" where
  "fmtarg_typed (FStr s) = ''string='' @ s"
| "fmtarg_typed (FInt i) = ''int='' @ format_int i"

text \<open>\<open>strconv.Quote\<close>, for strings of printable ASCII characters.\<close>

definition go_quote :: "string \<Rightarrow> string" where
  "go_quote s =
     [CHR 0x22] @ concat (map (\<lambda>c. if c = CHR 0x22 \<or> c = CHR 0x5C then [CHR 0x5C, c] else [c]) s) @ [CHR 0x22]"

text \<open>
  The verbs \<open>%s\<close> and \<open>%q\<close> of strings and \<open>%d\<close> of integers; any other pair is
  a bad verb.
\<close>

definition fmt_verb :: "char \<Rightarrow> fmtarg \<Rightarrow> string" where
  "fmt_verb v a =
     (case a of
        FStr s \<Rightarrow> if v = CHR ''s'' then s else if v = CHR ''q'' then go_quote s else ''%!'' @ [v] @ ''('' @ fmtarg_typed a @ '')''
      | FInt i \<Rightarrow> if v = CHR ''d'' then format_int i else ''%!'' @ [v] @ ''('' @ fmtarg_typed a @ '')'')"

definition fmt_extra :: "fmtarg list \<Rightarrow> string" where
  "fmt_extra args =
     (if args = [] then [] else ''%!(EXTRA '' @ go_join (map fmtarg_typed args) '', '' @ '')'')"

fun sprintf :: "string \<Rightarrow> fmtarg list \<Rightarrow> string" where
  "sprintf [] args = fmt_extra args"
| "sprintf [c] args = (if c = CHR ''%'' then ''%!(NOVERB)'' @ fmt_extra args else c # fmt_extra args)"
| "sprintf (c # v # cs) args =
     (if c \<noteq> CHR ''%'' then c # sprintf (v # cs) args
      else if v = CHR ''%'' then CHR ''%'' # sprintf cs args
      else (case args of
              [] \<Rightarrow> ''%!'' @ [v] @ ''(MISSING)'' @ sprintf cs []
            | a # as \<Rightarrow> fmt_verb v a @ sprintf cs as))"

definition log_prefix :: "peer \<Rightarrow> string" where
  "log_prefix s = ''['' @ peer_user s @ ''@'' @ peer_addr s @ ''] ''"

definition fmt_ssh_log :: "peer \<Rightarrow> string \<Rightarrow> fmtarg list \<Rightarrow> log \<Rightarrow> log" where
  "fmt_ssh_log s message args lg =
     (let prefix = sprintf ''[%s@%s] '' [FStr (peer_user s), FStr (peer_addr s)];
          actual = sprintf message args
      in lg @ [prefix @ actual])"

lemma sprintf_Cons: "c \<noteq> CHR ''%'' \<Longrightarrow> sprintf (c # cs) args = c # sprintf cs args"
  by (cases cs) auto

lemma sprintf_prefix: "CHR ''%'' \<notin> set pre \<Longrightarrow> sprintf (pre @ cs) args = pre @ sprintf cs args"
  by (induction pre) (auto simp: sprintf_Cons)

lemma sprintf_no_verb: "CHR ''%'' \<notin> set s \<Longrightarrow> sprintf s [] = s"
  using sprintf_prefix [of s "[]" "[]"] by (simp add: fmt_extra_def)

lemma sprintf_string: "sprintf (CHR ''%'' # CHR ''s'' # cs) (FStr s # as) = s @ sprintf cs as"
  by (simp add: fmt_verb_def)

lemma sprintf_int: "sprintf (CHR ''%'' # CHR ''d'' # cs) (FInt i # as) = format_int i @ sprintf cs as"
  by (simp add: fmt_verb_def)

lemma fmt_ssh_log_eq: "fmt_ssh_log s message args lg = lg @ [log_prefix s @ sprintf message args]"
  by (simp add: fmt_ssh_log_def log_prefix_def fmt_verb_def fmt_extra_def)

section \<open>The enabled detector\<close>

text \<open>
  \<open>sync.WaitGroup.Add\<close> on the detector's own counter.  The map of call sites is kept in
  insertion order; \<open>sync.Map.Range\<close> fixes no order.
\<close>

record leakdet =
  ld_wg :: int
  ld_m :: "(string \<times> string) list"

definition new_detector :: leakdet where
  "new_detector = \<lparr>ld_wg = 0, ld_m = []\<rparr>"

definition detector_wg_add :: "int \<Rightarrow> leakdet \<Rightarrow> unit go \<times> leakdet" where
  "detector_wg_add n d =
     (let d' = d\<lparr>ld_wg := ld_wg d + n\<rparr>
      in (if ld_wg d' < 0 then Panic ''sync: negative WaitGroup counter'' else Ok (), d'))"

text \<open>\<open>loc\<close> is the description of the caller that \<open>runtime.Callers\<close> gives.\<close>

definition detector_add :: "string \<Rightarrow> string \<Rightarrow> leakdet \<Rightarrow> unit go \<times> leakdet" where
  "detector_add name loc d =
     (case detector_wg_add 1 d of
        (Ok u, d1) \<Rightarrow>
          (case map_of (ld_m d1) name of
             Some v \<Rightarrow> (Panic ''LeakDetectorOn: Add() reused key'', d1)
           | None \<Rightarrow> (Ok (), d1\<lparr>ld_m := ld_m d1 @ [(name, loc)]\<rparr>))
      | (r, d1) \<Rightarrow> (r, d1))"

definition detector_done :: "string \<Rightarrow> leakdet \<Rightarrow> unit go \<times> leakdet" where
  "detector_done name d =
     (case detector_wg_add (-1) d of
        (Ok u, d1) \<Rightarrow>
          (case map_of (ld_m d1) name of
             None \<Rightarrow> (Panic ''LeakDetectorOn: Done() removed unknown key'', d1)
           | Some v \<Rightarrow> (Ok (), d1\<lparr>ld_m := filter (\<lambda>(k, v). k \<noteq> name) (ld_m d1)\<rparr>))
      | (r, d1) \<Rightarrow> (r, d1))"

text \<open>The disabled detector has no state, and every call of it is a no-op.\<close>

datatype leakdet_off = MemoryLeakDetectorOff

definition off_add :: "string \<Rightarrow> leakdet_off \<Rightarrow> unit go \<times> leakdet_off" where
  "off_add name d = (Ok (), d)"

definition off_done :: "string \<Rightarrow> leakdet_off \<Rightarrow> unit go \<times> leakdet_off" where
  "off_done name d = (Ok (), d)"

definition off_finish :: "peer \<Rightarrow> leakdet_off \<Rightarrow> log \<Rightarrow> leakdet_off \<times> log" where
  "off_finish s d lg = (d, lg)"

text \<open>A sequence of \<open>Add\<close> and \<open>Done\<close> calls; a panic ends the program.\<close>

datatype det_op = DetAdd string string | DetDone string

fun det_apply :: "det_op \<Rightarrow> leakdet \<Rightarrow> unit go \<times> leakdet" where
  "det_apply (DetAdd name loc) d = detector_add name loc d"
| "det_apply (DetDone name) d = detector_done name d"

fun det_run :: "det_op list \<Rightarrow> leakdet \<Rightarrow> unit go \<times> leakdet" where
  "det_run [] d = (Ok (), d)"
| "det_run (x # xs) d =
     (case det_apply x d of
        (Ok u, d') \<Rightarrow> det_run xs d'
      | (r, d') \<Rightarrow> (r, d'))"

text \<open>
  The interface's contract: which actions are outstanding.  A call of \<open>Add\<close> is legal for a
  name that is not outstanding, a call of \<open>Done\<close> for one that is.
\<close>

definition outstanding :: "leakdet \<Rightarrow> string set" where
  "outstanding d = fst ` set (ld_m d)"

fun spec_op :: "det_op \<Rightarrow> string set \<Rightarrow> string set option" where
  "spec_op (DetAdd name loc) A = (if name \<in> A then None else Some (insert name A))"
| "spec_op (DetDone name) A = (if name \<in> A then Some (A - {name}) else None)"

fun spec_run :: "det_op list \<Rightarrow> string set \<Rightarrow> string set option" where
  "spec_run [] A = Some A"
| "spec_run (x # xs) A = (case spec_op x A of None \<Rightarrow> None | Some B \<Rightarrow> spec_run xs B)"

definition det_inv :: "leakdet \<Rightarrow> bool" where
  "det_inv d \<longleftrightarrow> distinct (map fst (ld_m d)) \<and> ld_wg d = int (length (ld_m d))"

lemma det_inv_new [simp]: "det_inv new_detector" "outstanding new_detector = {}"
  by (simp_all add: det_inv_def new_detector_def outstanding_def)

lemma det_inv_wg: "det_inv d \<Longrightarrow> ld_wg d = int (card (outstanding d))"
  using distinct_card [of "map fst (ld_m d)"] by (simp add: det_inv_def outstanding_def)

lemma map_of_outstanding: "map_of (ld_m d) name = None \<longleftrightarrow> name \<notin> outstanding d"
  by (simp add: map_of_eq_None_iff outstanding_def)

lemma det_apply_spec:
  assumes "det_inv d"
  shows "case spec_op x (outstanding d) of
           Some A \<Rightarrow> (\<exists>d'. det_apply x d = (Ok (), d') \<and> det_inv d' \<and> outstanding d' = A)
         | None \<Rightarrow> is_panic (fst (det_apply x d))"
proof (cases x)
  case (DetAdd name loc)
  with assms show ?thesis
    by (auto simp: detector_add_def detector_wg_add_def Let_def det_inv_def outstanding_def
        split: option.splits dest: map_of_SomeD key_in_fst_image simp: map_of_eq_None_iff)
next
  case (DetDone name)
  show ?thesis
  proof (cases "name \<in> outstanding d")
    case True
    then obtain v where v: "map_of (ld_m d) name = Some v"
      using map_of_outstanding [of d name] by auto
    from True have len: "Suc (length (filter (\<lambda>(k', v). k' \<noteq> name) (ld_m d))) = length (ld_m d)"
      using assms by (intro length_filter_key) (auto simp: det_inv_def outstanding_def)
    with assms v DetDone True show ?thesis
      by (auto simp: detector_done_def detector_wg_add_def Let_def det_inv_def outstanding_def
          distinct_map_filter split: option.splits)
  next
    case False
    with DetDone assms show ?thesis
      by (auto simp: detector_done_def detector_wg_add_def Let_def map_of_outstanding [symmetric])
  qed
qed

lemma det_run_spec:
  assumes "det_inv d"
  shows "case spec_run xs (outstanding d) of
           Some A \<Rightarrow> (\<exists>d'. det_run xs d = (Ok (), d') \<and> det_inv d' \<and> outstanding d' = A)
         | None \<Rightarrow> is_panic (fst (det_run xs d))"
  using assms
proof (induction xs arbitrary: d)
  case Nil
  then show ?case by simp
next
  case (Cons x xs)
  note step = det_apply_spec [OF Cons.prems, of x]
  show ?case
  proof (cases "spec_op x (outstanding d)")
    case None
    with step have "is_panic (fst (det_apply x d))" by simp
    with None show ?thesis by (cases "det_apply x d"; cases "fst (det_apply x d)") auto
  next
    case (Some A)
    with step obtain d' where "det_apply x d = (Ok (), d')" "det_inv d'" "outstanding d' = A"
      by auto
    with Some Cons.IH [of d'] show ?thesis by (simp split: option.splits)
  qed
qed

text \<open>
  C26.  The enabled leak detector implements its interface's contract: a sequence of
  \<open>Add\<close> and \<open>Done\<close> calls on a new detector panics exactly when a name is reused or
  removed without being outstanding, and otherwise the counter that \<open>Finish\<close> waits for is
  the number of outstanding actions.
\<close>

theorem leak_detector_refines_outstanding:
  "case spec_run xs {} of
     None \<Rightarrow> is_panic (fst (det_run xs new_detector))
   | Some A \<Rightarrow> fst (det_run xs new_detector) = Ok () \<and>
       outstanding (snd (det_run xs new_detector)) = A \<and>
       ld_wg (snd (det_run xs new_detector)) = int (card A)"
  using det_run_spec [of new_detector xs] by (auto simp: det_inv_wg split: option.splits)

end
