(* ===== verification/HostKey.thy ===== *)
theory HostKey
  imports Logging
begin

text \<open>
  \<open>feature/hostkey.go\<close>: the two kinds of host key, their PEM form, and loading a key from
  a file or generating it there.

  Parameters (\<open>crypto\<close>): the arithmetic of Ed25519 and RSA, the DER forms of an RSA key,
  the PEM text form, and the signer that \<open>golang.org/x/crypto/ssh\<close> makes of a private key.
  An Ed25519 private key is its 32-byte seed followed by the public key, as \<open>crypto/ed25519\<close>
  documents it; an RSA key and a signer are opaque strings.  The file system maps paths to
  contents and carries the errors that the operating system may raise at each path.
\<close>

section \<open>The environment\<close>

record pem_block =
  pem_type :: string
  pem_bytes :: string

datatype private_key = ED25519PrivateKey string | RSAPrivateKey string

datatype parsed_key = ParsedRSA string | ParsedOther

record crypto =
  ed25519_public :: "string \<Rightarrow> string"
  rsa_GenerateKey :: "string \<Rightarrow> int \<Rightarrow> string go"
  x509_MarshalPKCS1 :: "string \<Rightarrow> string"
  x509_ParsePKCS1 :: "string \<Rightarrow> string go"
  x509_ParsePKCS8 :: "string \<Rightarrow> parsed_key go"
  ssh_NewSigner :: "private_key \<Rightarrow> string go"
  pem_Encode :: "pem_block \<Rightarrow> string"
  pem_Decode :: "string \<Rightarrow> pem_block option"

record file_system =
  fs_files :: "string \<rightharpoonup> string"
  fs_stat_err :: "string \<Rightarrow> go_error option"
  fs_read_err :: "string \<Rightarrow> go_error option"
  fs_create_err :: "string \<Rightarrow> go_error option"
  fs_write_err :: "string \<Rightarrow> (go_error \<times> nat) option"

text \<open>
  \<open>w_rand\<close> holds what each further key generation will read from \<open>rand.Reader\<close>.
\<close>

record world =
  w_log :: log
  w_fs :: file_system
  w_rand :: "string list"

definition log_line :: "string \<Rightarrow> world \<Rightarrow> world" where
  "log_line s w = w\<lparr>w_log := w_log w @ [s]\<rparr>"

definition read_random :: "world \<Rightarrow> string \<times> world" where
  "read_random w =
     (case w_rand w of [] \<Rightarrow> ([], w) | r # rs \<Rightarrow> (r, w\<lparr>w_rand := rs\<rparr>))"

text \<open>
  \<open>os.Stat\<close> followed by \<open>os.IsNotExist\<close>; \<open>os.ReadFile\<close>; \<open>os.Create\<close>, which truncates;
  writing the new file, which may fail after some bytes.
\<close>

definition stat_not_exist :: "file_system \<Rightarrow> string \<Rightarrow> bool" where
  "stat_not_exist fs path \<longleftrightarrow> fs_stat_err fs path = None \<and> fs_files fs path = None"

definition os_read_file :: "file_system \<Rightarrow> string \<Rightarrow> string go" where
  "os_read_file fs path =
     (case fs_read_err fs path of
        Some e \<Rightarrow> Err e
      | None \<Rightarrow> (case fs_files fs path of
                   None \<Rightarrow> Err (ErrForeign ''no such file or directory'')
                 | Some c \<Rightarrow> Ok c))"

definition os_create :: "file_system \<Rightarrow> string \<Rightarrow> unit go \<times> file_system" where
  "os_create fs path =
     (case fs_create_err fs path of
        Some e \<Rightarrow> (Err e, fs)
      | None \<Rightarrow> (Ok (), fs\<lparr>fs_files := (fs_files fs)(path \<mapsto> [])\<rparr>))"

definition write_new_file :: "file_system \<Rightarrow> string \<Rightarrow> string \<Rightarrow> unit go \<times> file_system" where
  "write_new_file fs path content =
     (case fs_write_err fs path of
        Some (e, n) \<Rightarrow> (Err e, fs\<lparr>fs_files := (fs_files fs)(path \<mapsto> take n content)\<rparr>)
      | None \<Rightarrow> (Ok (), fs\<lparr>fs_files := (fs_files fs)(path \<mapsto> content)\<rparr>))"

section \<open>Keys\<close>

type_synonym host_key_algorithm = string

definition RSAAlgorithm :: host_key_algorithm where
  "RSAAlgorithm = ''rsa''"

definition ED25519Algorithm :: host_key_algorithm where
  "ED25519Algorithm = ''ed25519''"

record ed25519_host_key =
  ed_Signer :: "string option"
  ed_pk :: "string option"

record rsa_host_key =
  rsa_Signer :: "string option"
  rsa_pk :: "string option"
  defaultBitSize :: int

datatype host_key = ED25519HostKey ed25519_host_key | RSAHostKey rsa_host_key

definition new_host_key :: "host_key_algorithm \<Rightarrow> host_key go" where
  "new_host_key algorithm =
     (if algorithm = RSAAlgorithm
        then Ok (RSAHostKey \<lparr>rsa_Signer = None, rsa_pk = None, defaultBitSize = 4096\<rparr>)
      else if algorithm = ED25519Algorithm
        then Ok (ED25519HostKey \<lparr>ed_Signer = None, ed_pk = None\<rparr>)
      else Panic ''Unsupported HostKeyAlgorithm'')"

text \<open>Package \<open>crypto/ed25519\<close>: \<open>NewKeyFromSeed\<close>, \<open>GenerateKey\<close> and \<open>PrivateKey.Seed\<close>.\<close>

definition ed25519_from_seed :: "crypto \<Rightarrow> string \<Rightarrow> string go" where
  "ed25519_from_seed c seed =
     (if length seed \<noteq> 32 then Panic ''ed25519: bad seed length''
      else Ok (seed @ ed25519_public c seed))"

definition ed25519_generate :: "crypto \<Rightarrow> string \<Rightarrow> string go" where
  "ed25519_generate c random =
     (if length random < 32 then Err (ErrForeign ''unexpected EOF'')
      else ed25519_from_seed c (take 32 random))"

definition ed25519_seed :: "string \<Rightarrow> string" where
  "ed25519_seed pk = take 32 pk"

text \<open>
  An assignment \<open>x.Signer, err = NewSignerFromKey(pk)\<close> stores nil when there is an error.
\<close>

definition go_value :: "'a go \<Rightarrow> 'a option" where
  "go_value r = (case r of Ok x \<Rightarrow> Some x | _ \<Rightarrow> None)"

definition go_unit :: "'a go \<Rightarrow> unit go" where
  "go_unit r = go_bind r (\<lambda>_. Ok ())"

subsection \<open>Ed25519\<close>

definition ed_generate :: "crypto \<Rightarrow> int \<Rightarrow> string \<Rightarrow> ed25519_host_key \<Rightarrow> unit go \<times> ed25519_host_key" where
  "ed_generate c keySize random ek =
     (if keySize \<noteq> 0 \<and> keySize \<noteq> 32
        then (Err (ErrNew ''ed25519HostKey.Generate(): keySize not supported''), ek)
      else case ed25519_generate c random of
             Err e \<Rightarrow> (Err e, ek)
           | Panic m \<Rightarrow> (Panic m, ek)
           | Ok pr \<Rightarrow> (let signer = ssh_NewSigner c (ED25519PrivateKey pr)
                       in (go_unit signer, ek\<lparr>ed_pk := Some pr, ed_Signer := go_value signer\<rparr>)))"

definition ed_marshal_pem :: "ed25519_host_key \<Rightarrow> pem_block go" where
  "ed_marshal_pem ek =
     (case ed_pk ek of
        None \<Rightarrow> Panic ''nil pointer dereference''
      | Some pk \<Rightarrow> Ok \<lparr>pem_type = ''PRIVATE KEY'', pem_bytes = ed25519_seed pk\<rparr>)"

text \<open>The code returns a nil error even when the signer could not be made.\<close>

definition ed_unmarshal_pem :: "crypto \<Rightarrow> pem_block \<Rightarrow> ed25519_host_key \<Rightarrow> unit go \<times> ed25519_host_key" where
  "ed_unmarshal_pem c block ek =
     (if pem_type block \<noteq> ''PRIVATE KEY''
        then (Err (ErrNew ''Expected 'PRIVATE KEY' in PEM format''), ek)
      else case ed25519_from_seed c (pem_bytes block) of
             Panic m \<Rightarrow> (Panic m, ek)
           | Err e \<Rightarrow> (Err e, ek)
           | Ok pk \<Rightarrow> (case ssh_NewSigner c (ED25519PrivateKey pk) of
                         Panic m \<Rightarrow> (Panic m, ek\<lparr>ed_pk := Some pk\<rparr>)
                       | signer \<Rightarrow> (Ok (), ek\<lparr>ed_pk := Some pk, ed_Signer := go_value signer\<rparr>)))"

subsection \<open>RSA\<close>

definition rsa_generate :: "crypto \<Rightarrow> int \<Rightarrow> string \<Rightarrow> rsa_host_key \<Rightarrow> unit go \<times> rsa_host_key" where
  "rsa_generate c keySize random rk =
     (let size = (if keySize = 0 then defaultBitSize rk else keySize)
      in case rsa_GenerateKey c random size of
           Err e \<Rightarrow> (Err e, rk\<lparr>rsa_pk := None\<rparr>)
         | Panic m \<Rightarrow> (Panic m, rk)
         | Ok pk \<Rightarrow> (let signer = ssh_NewSigner c (RSAPrivateKey pk)
                     in (go_unit signer, rk\<lparr>rsa_pk := Some pk, rsa_Signer := go_value signer\<rparr>)))"

definition rsa_marshal_pem :: "crypto \<Rightarrow> rsa_host_key \<Rightarrow> pem_block go" where
  "rsa_marshal_pem c rk =
     (case rsa_pk rk of
        None \<Rightarrow> Panic ''nil pointer dereference''
      | Some pk \<Rightarrow> Ok \<lparr>pem_type = ''RSA PRIVATE KEY'', pem_bytes = x509_MarshalPKCS1 c pk\<rparr>)"

definition parse_rsa_der :: "crypto \<Rightarrow> string \<Rightarrow> parsed_key go" where
  "parse_rsa_der c der =
     (case x509_ParsePKCS1 c der of
        Ok pk \<Rightarrow> Ok (ParsedRSA pk)
      | Panic m \<Rightarrow> Panic m
      | Err e1 \<Rightarrow> go_wrap ''Expected PKCS1 or PKCS8 private key'' (x509_ParsePKCS8 c der))"

definition rsa_unmarshal_pem :: "crypto \<Rightarrow> pem_block \<Rightarrow> rsa_host_key \<Rightarrow> unit go \<times> rsa_host_key" where
  "rsa_unmarshal_pem c block rk =
     (if pem_type block \<noteq> ''RSA PRIVATE KEY''
        then (Err (ErrNew ''Expected 'RSA PRIVATE KEY' in PEM format''), rk)
      else case parse_rsa_der c (pem_bytes block) of
             Err e \<Rightarrow> (Err e, rk)
           | Panic m \<Rightarrow> (Panic m, rk)
           | Ok ParsedOther \<Rightarrow> (Err (ErrNew ''Expected an rsa.PrivateKey''), rk)
           | Ok (ParsedRSA pk) \<Rightarrow>
               (let signer = ssh_NewSigner c (RSAPrivateKey pk)
                in (go_unit signer, rk\<lparr>rsa_pk := Some pk, rsa_Signer := go_value signer\<rparr>)))"

subsection \<open>The \<open>HostKey\<close> interface\<close>

text \<open>A call on the interface goes to the method of the value's own type.\<close>

fun key_algorithm :: "host_key \<Rightarrow> host_key_algorithm" where
  "key_algorithm (ED25519HostKey ek) = ED25519Algorithm"
| "key_algorithm (RSAHostKey rk) = RSAAlgorithm"

fun key_generate :: "crypto \<Rightarrow> int \<Rightarrow> string \<Rightarrow> host_key \<Rightarrow> unit go \<times> host_key" where
  "key_generate c n random (ED25519HostKey ek) = map_prod id ED25519HostKey (ed_generate c n random ek)"
| "key_generate c n random (RSAHostKey rk) = map_prod id RSAHostKey (rsa_generate c n random rk)"

fun key_marshal :: "crypto \<Rightarrow> host_key \<Rightarrow> pem_block go" where
  "key_marshal c (ED25519HostKey ek) = ed_marshal_pem ek"
| "key_marshal c (RSAHostKey rk) = rsa_marshal_pem c rk"

fun key_unmarshal :: "crypto \<Rightarrow> pem_block \<Rightarrow> host_key \<Rightarrow> unit go \<times> host_key" where
  "key_unmarshal c b (ED25519HostKey ek) = map_prod id ED25519HostKey (ed_unmarshal_pem c b ek)"
| "key_unmarshal c b (RSAHostKey rk) = map_prod id RSAHostKey (rsa_unmarshal_pem c b rk)"

fun key_private :: "host_key \<Rightarrow> private_key option" where
  "key_private (ED25519HostKey ek) = map_option ED25519PrivateKey (ed_pk ek)"
| "key_private (RSAHostKey rk) = map_option RSAPrivateKey (rsa_pk rk)"

fun key_signer :: "host_key \<Rightarrow> string option" where
  "key_signer (ED25519HostKey ek) = ed_Signer ek"
| "key_signer (RSAHostKey rk) = rsa_Signer rk"

section \<open>Files\<close>

definition load_host_key :: "crypto \<Rightarrow> host_key \<Rightarrow> string \<Rightarrow> world \<Rightarrow> unit go \<times> host_key \<times> world" where
  "load_host_key c key path w =
     (let w1 = log_line (sprintf ''load_hostkey %s %s'' [FStr (key_algorithm key), FStr path]) w
      in case os_read_file (w_fs w1) path of
           Panic m \<Rightarrow> (Panic m, key, w1)
         | Err e \<Rightarrow> (Err (ErrWrap e ''Unable to read private key bytes''), key, w1)
         | Ok privateKeyBytes \<Rightarrow>
             (if privateKeyBytes = []
                then (Err (ErrNew ''No bytes were read from the private key''), key, w1)
              else case pem_Decode c privateKeyBytes of
                     None \<Rightarrow> (Err (ErrNew ''pem.Decode() returned nil''), key, w1)
                   | Some block \<Rightarrow> (let (r, key') = key_unmarshal c block key in (r, key', w1))))"

definition make_host_key :: "crypto \<Rightarrow> host_key \<Rightarrow> string \<Rightarrow> world \<Rightarrow> unit go \<times> host_key \<times> world" where
  "make_host_key c key path w =
     (let w1 = log_line (sprintf ''generate_hostkey %s %s'' [FStr (key_algorithm key), FStr path]) w;
          (random, w2) = read_random w1;
          (r, key1) = key_generate c 0 random key
      in case r of
           Panic m \<Rightarrow> (Panic m, key1, w2)
         | Err e \<Rightarrow> (Err (ErrWrap e ''Failed to generate key''), key1, w2)
         | Ok u \<Rightarrow>
             (case key_marshal c key1 of
                Panic m \<Rightarrow> (Panic m, key1, w2)
              | Err e \<Rightarrow> (Err (ErrWrap e ''Failed to marshal key''), key1, w2)
              | Ok block \<Rightarrow>
                  (case os_create (w_fs w2) path of
                     (Ok u, fs1) \<Rightarrow>
                       (let (r2, fs2) = write_new_file fs1 path (pem_Encode c block)
                        in (r2, key1, w2\<lparr>w_fs := fs2\<rparr>))
                   | (r2, fs1) \<Rightarrow> (r2, key1, w2\<lparr>w_fs := fs1\<rparr>))))"

definition read_or_make_host_key ::
  "crypto \<Rightarrow> string \<Rightarrow> host_key_algorithm \<Rightarrow> world \<Rightarrow> host_key go \<times> world" where
  "read_or_make_host_key c path algorithm w =
     (case new_host_key algorithm of
        Panic m \<Rightarrow> (Panic m, w)
      | Err e \<Rightarrow> (Err e, w)
      | Ok hostKey \<Rightarrow>
          (let (made, key1, w1) =
             (if stat_not_exist (w_fs w) path then make_host_key c hostKey path w else (Ok (), hostKey, w))
           in case made of
                Panic m \<Rightarrow> (Panic m, w1)
              | Err e \<Rightarrow> (Err (ErrWrap e ''Unable to generate new host key''), w1)
              | Ok u \<Rightarrow>
                  (let (loaded, key2, w2) = load_host_key c key1 path w1
                   in (go_bind loaded (\<lambda>u. Ok key2), w2))))"

section \<open>The contract of a host key\<close>

text \<open>
  What loading and storing rely on: marshalling depends on the private key only, and
  unmarshalling its result into a key of the same kind gives the private key back, provided
  that the packages below keep their promises (\<open>ok\<close>).
\<close>

locale host_key_codec =
  fixes ok :: bool
    and kind :: "'k \<Rightarrow> host_key_algorithm"
    and holds :: "'k \<Rightarrow> private_key \<Rightarrow> bool"
    and marshal :: "'k \<Rightarrow> pem_block go"
    and unmarshal :: "pem_block \<Rightarrow> 'k \<Rightarrow> unit go \<times> 'k"
  assumes marshal_Ok: "holds k pk \<Longrightarrow> \<exists>b. marshal k = Ok b"
    and marshal_private: "holds k pk \<Longrightarrow> holds k' pk \<Longrightarrow> kind k = kind k' \<Longrightarrow> marshal k = marshal k'"
    and unmarshal_marshal: "ok \<Longrightarrow> holds k pk \<Longrightarrow> marshal k = Ok b \<Longrightarrow> kind k0 = kind k \<Longrightarrow>
          fst (unmarshal b k0) = Ok () \<and> holds (snd (unmarshal b k0)) pk \<and>
          kind (snd (unmarshal b k0)) = kind k0"
begin

lemma reload:
  assumes "ok" and "holds k pk" and "kind k0 = kind k"
  obtains b k' where "marshal k = Ok b" and "unmarshal b k0 = (Ok (), k')" and "holds k' pk"
    and "marshal k' = Ok b"
proof -
  from assms(2) obtain b where b: "marshal k = Ok b" using marshal_Ok by blast
  note r = unmarshal_marshal [OF assms(1,2) b assms(3)]
  moreover from r assms have "marshal (snd (unmarshal b k0)) = marshal k"
    by (intro marshal_private [of _ pk]) auto
  ultimately show ?thesis using that [of b "snd (unmarshal b k0)"] b by (simp add: prod_eq_iff)
qed

end

text \<open>
  The documented promises: DER and PEM decoding undo encoding, PEM text is never empty, and a
  signer can be made of every Ed25519 and RSA key.
\<close>

definition crypto_ok :: "crypto \<Rightarrow> bool" where
  "crypto_ok c \<longleftrightarrow>
     (\<forall>k. x509_ParsePKCS1 c (x509_MarshalPKCS1 c k) = Ok k) \<and>
     (\<forall>b. pem_Decode c (pem_Encode c b) = Some b \<and> pem_Encode c b \<noteq> []) \<and>
     (\<forall>k. is_ok (ssh_NewSigner c k))"

lemma crypto_okD:
  assumes "crypto_ok c"
  shows "x509_ParsePKCS1 c (x509_MarshalPKCS1 c k) = Ok k" "pem_Decode c (pem_Encode c b) = Some b"
    "pem_Encode c b \<noteq> []" "\<exists>s. ssh_NewSigner c pk = Ok s"
  using assms by (auto simp: crypto_ok_def is_ok_iff)

text \<open>An Ed25519 private key is a seed of 32 bytes and its public key.\<close>

fun valid_private :: "crypto \<Rightarrow> private_key \<Rightarrow> bool" where
  "valid_private c (ED25519PrivateKey pk) \<longleftrightarrow>
     32 \<le> length pk \<and> pk = take 32 pk @ ed25519_public c (take 32 pk)"
| "valid_private c (RSAPrivateKey pk) \<longleftrightarrow> True"

definition ed_holds :: "crypto \<Rightarrow> ed25519_host_key \<Rightarrow> private_key \<Rightarrow> bool" where
  "ed_holds c ek pk \<longleftrightarrow> map_option ED25519PrivateKey (ed_pk ek) = Some pk \<and> valid_private c pk"

definition rsa_holds :: "rsa_host_key \<Rightarrow> private_key \<Rightarrow> bool" where
  "rsa_holds rk pk \<longleftrightarrow> map_option RSAPrivateKey (rsa_pk rk) = Some pk"

definition key_holds :: "crypto \<Rightarrow> host_key \<Rightarrow> private_key \<Rightarrow> bool" where
  "key_holds c k pk \<longleftrightarrow> key_private k = Some pk \<and> valid_private c pk"

interpretation ed: host_key_codec "crypto_ok c" "\<lambda>_. ED25519Algorithm" "ed_holds c"
    ed_marshal_pem "ed_unmarshal_pem c" for c
proof unfold_locales
  fix k k0 pk b
  assume ok: "crypto_ok c" and k: "ed_holds c k pk" and b: "ed_marshal_pem k = Ok b"
  then obtain p where p: "ed_pk k = Some p" "pk = ED25519PrivateKey p" "32 \<le> length p"
      "p = take 32 p @ ed25519_public c (take 32 p)"
    by (auto simp: ed_holds_def)
  moreover obtain s where "ssh_NewSigner c (ED25519PrivateKey p) = Ok s"
    using crypto_okD(4) [OF ok] by blast
  moreover have "ed25519_from_seed c (take 32 p) = Ok p"
    using p(3,4) by (simp add: ed25519_from_seed_def min_def)
  ultimately show "fst (ed_unmarshal_pem c b k0) = Ok () \<and> ed_holds c (snd (ed_unmarshal_pem c b k0)) pk \<and>
      ED25519Algorithm = ED25519Algorithm"
    using b by (auto simp: ed_unmarshal_pem_def ed_marshal_pem_def ed25519_seed_def ed_holds_def)
qed (auto simp: ed_holds_def ed_marshal_pem_def)

interpretation rsa: host_key_codec "crypto_ok c" "\<lambda>_. RSAAlgorithm" rsa_holds
    "rsa_marshal_pem c" "rsa_unmarshal_pem c" for c
proof unfold_locales
  fix k k0 pk b
  assume ok: "crypto_ok c" and k: "rsa_holds k pk" and b: "rsa_marshal_pem c k = Ok b"
  then obtain p where "rsa_pk k = Some p" "pk = RSAPrivateKey p"
    by (auto simp: rsa_holds_def)
  moreover obtain s where "ssh_NewSigner c (RSAPrivateKey p) = Ok s"
    using crypto_okD(4) [OF ok] by blast
  moreover note crypto_okD(1) [OF ok, of p]
  ultimately show "fst (rsa_unmarshal_pem c b k0) = Ok () \<and> rsa_holds (snd (rsa_unmarshal_pem c b k0)) pk \<and>
      RSAAlgorithm = RSAAlgorithm"
    using b by (auto simp: rsa_unmarshal_pem_def rsa_marshal_pem_def parse_rsa_der_def rsa_holds_def
        go_unit_def Let_def)
qed (auto simp: rsa_holds_def rsa_marshal_pem_def)

lemma algorithms_differ [simp]: "ED25519Algorithm \<noteq> RSAAlgorithm" "RSAAlgorithm \<noteq> ED25519Algorithm"
  by (simp_all add: ED25519Algorithm_def RSAAlgorithm_def)

interpretation hk: host_key_codec "crypto_ok c" key_algorithm "key_holds c" "key_marshal c" "key_unmarshal c" for c
proof unfold_locales
  fix k pk assume "key_holds c k pk"
  then show "\<exists>b. key_marshal c k = Ok b"
    by (cases k) (auto simp: key_holds_def ed_marshal_pem_def rsa_marshal_pem_def)
next
  fix k pk k' assume "key_holds c k pk" "key_holds c k' pk" "key_algorithm k = key_algorithm k'"
  then show "key_marshal c k = key_marshal c k'"
    by (cases k; cases k') (auto simp: key_holds_def ed_marshal_pem_def rsa_marshal_pem_def)
next
  fix k pk b k0
  assume ok: "crypto_ok c" and k: "key_holds c k pk" and b: "key_marshal c k = Ok b"
    and same: "key_algorithm k0 = key_algorithm k"
  show "fst (key_unmarshal c b k0) = Ok () \<and> key_holds c (snd (key_unmarshal c b k0)) pk \<and>
      key_algorithm (snd (key_unmarshal c b k0)) = key_algorithm k0"
  proof (cases k)
    case (ED25519HostKey ek)
    with same obtain ek0 where k0: "k0 = ED25519HostKey ek0" by (cases k0) auto
    from ED25519HostKey k b ed.unmarshal_marshal [OF ok, of ek pk b ek0]
    show ?thesis by (auto simp: k0 key_holds_def ed_holds_def)
  next
    case (RSAHostKey rk)
    with same obtain rk0 where k0: "k0 = RSAHostKey rk0" by (cases k0) auto
    from RSAHostKey k b rsa.unmarshal_marshal [OF ok, of rk pk b rk0]
    show ?thesis by (auto simp: k0 key_holds_def rsa_holds_def)
  qed
qed

section \<open>Properties\<close>

lemma log_line_fields [simp]:
  "w_fs (log_line s w) = w_fs w" "w_rand (log_line s w) = w_rand w"
  "w_log (log_line s w) = w_log w @ [s]"
  by (simp_all add: log_line_def)

lemma read_random_fs [simp]: "read_random w = (r, w') \<Longrightarrow> w_fs w' = w_fs w"
  by (auto simp: read_random_def split: list.splits)

lemma key_algorithm_generate [simp]: "key_algorithm (snd (key_generate c n r k)) = key_algorithm k"
  by (cases k) auto

lemma key_algorithm_unmarshal [simp]: "key_algorithm (snd (key_unmarshal c b k)) = key_algorithm k"
  by (cases k) auto

lemma key_generate_holds:
  assumes "key_generate c n r k = (Ok (), k')"
  shows "\<exists>pk. key_holds c k' pk"
proof (cases k)
  case (ED25519HostKey ek)
  then obtain pr where pr: "ed25519_generate c r = Ok pr" and k': "key_private k' = Some (ED25519PrivateKey pr)"
    using assms by (auto simp: ed_generate_def Let_def split: if_splits go.splits)
  then have "valid_private c (ED25519PrivateKey pr)"
    by (auto simp: ed25519_generate_def ed25519_from_seed_def split: if_splits)
  with k' show ?thesis by (auto simp: key_holds_def)
next
  case (RSAHostKey rk)
  then show ?thesis using assms
    by (auto simp: rsa_generate_def key_holds_def Let_def split: if_splits go.splits)
qed

lemma new_host_key_Ok: "new_host_key a = Ok k \<Longrightarrow> key_algorithm k = a"
  by (auto simp: new_host_key_def split: if_splits)

lemma load_encoded:
  assumes "crypto_ok c" and "key_holds c k pk" and "key_marshal c k = Ok b"
    and "key_algorithm k0 = key_algorithm k"
    and "fs_files (w_fs w) path = Some (pem_Encode c b)" and "fs_read_err (w_fs w) path = None"
  obtains k' w' where "load_host_key c k0 path w = (Ok (), k', w')" and "key_holds c k' pk"
    and "w_fs w' = w_fs w"
proof -
  obtain k' where "key_unmarshal c b k0 = (Ok (), k')" "key_holds c k' pk"
    using hk.reload [OF assms(1,2,4)] assms(3) by (metis go.inject(1))
  then show ?thesis
    using that assms(5,6) crypto_okD(2,3) [OF assms(1), of b]
    by (simp add: load_host_key_def os_read_file_def Let_def)
qed

text \<open>A run that had to generate the key leaves its encoding in the file.\<close>

lemma make_host_key_Ok:
  assumes "make_host_key c k path w = (Ok u, k1, w1)"
  obtains pk b where "key_holds c k1 pk" and "key_marshal c k1 = Ok b"
    and "key_algorithm k1 = key_algorithm k"
    and "w_fs w1 = (w_fs w)\<lparr>fs_files := (fs_files (w_fs w))(path \<mapsto> pem_Encode c b)\<rparr>"
proof -
  obtain r w2 where r: "read_random (log_line (sprintf ''generate_hostkey %s %s''
      [FStr (key_algorithm k), FStr path]) w) = (r, w2)" by fastforce
  then have fs: "w_fs w2 = w_fs w" by simp
  from assms r have gen: "key_generate c 0 r k = (Ok (), k1)"
    by (auto simp: make_host_key_def Let_def split: go.splits prod.splits)
  obtain pk where pk: "key_holds c k1 pk" using key_generate_holds [OF gen] by blast
  obtain b where b: "key_marshal c k1 = Ok b" using hk.marshal_Ok [OF pk] by blast
  have alg: "key_algorithm k1 = key_algorithm k"
    using key_algorithm_generate [of c 0 r k] gen by simp
  have "w_fs w1 = (w_fs w)\<lparr>fs_files := (fs_files (w_fs w))(path \<mapsto> pem_Encode c b)\<rparr>"
    using assms r gen b fs
    by (auto simp: make_host_key_def Let_def os_create_def write_new_file_def split: option.splits)
  with pk b alg that show ?thesis by blast
qed

text \<open>No file but a missing one at the given path is ever written.\<close>

lemma load_host_key_fs: "load_host_key c k path w = (r, k', w') \<Longrightarrow> w_fs w' = w_fs w"
  by (auto simp: load_host_key_def Let_def split: go.splits option.splits if_splits prod.splits)

lemma make_host_key_other:
  assumes "make_host_key c k path w = (r, k', w')" and "p \<noteq> path"
  shows "fs_files (w_fs w') p = fs_files (w_fs w) p"
proof -
  obtain rnd w2 where rnd: "read_random (log_line (sprintf ''generate_hostkey %s %s''
      [FStr (key_algorithm k), FStr path]) w) = (rnd, w2)" by fastforce
  then have "w_fs w2 = w_fs w" by simp
  with assms rnd show ?thesis
    by (auto simp: make_host_key_def Let_def os_create_def write_new_file_def
        split: go.splits option.splits prod.splits)
qed

text \<open>
  An instance of the parameters that keeps the promises, for the examples: PEM text is the
  type's length in unary, the type and the bytes.
\<close>

definition toy_encode :: "pem_block \<Rightarrow> string" where
  "toy_encode b = replicate (length (pem_type b)) CHR ''-'' @ nl # pem_type b @ pem_bytes b"

definition toy_decode :: "string \<Rightarrow> pem_block option" where
  "toy_decode s =
     (let n = length (takeWhile (\<lambda>c. c = CHR ''-'') s); r = drop (Suc n) s
      in if s = [] then None else Some \<lparr>pem_type = take n r, pem_bytes = drop n r\<rparr>)"

definition toy_crypto :: crypto where
  "toy_crypto =
     \<lparr>ed25519_public = (\<lambda>seed. rev seed), rsa_GenerateKey = (\<lambda>r n. Ok r),
      x509_MarshalPKCS1 = (\<lambda>k. k), x509_ParsePKCS1 = Ok, x509_ParsePKCS8 = (\<lambda>d. Ok ParsedOther),
      ssh_NewSigner = (\<lambda>k. Ok ''signer''), pem_Encode = toy_encode, pem_Decode = toy_decode\<rparr>"

definition toy_world :: "(string \<rightharpoonup> string) \<Rightarrow> world" where
  "toy_world files =
     \<lparr>w_log = [],
      w_fs = \<lparr>fs_files = files, fs_stat_err = (\<lambda>_. None), fs_read_err = (\<lambda>_. None),
              fs_create_err = (\<lambda>_. None), fs_write_err = (\<lambda>_. None)\<rparr>,
      w_rand = [replicate 32 CHR ''r'', replicate 32 CHR ''q'']\<rparr>"

lemma takeWhile_replicate_stop: "\<not> P y \<Longrightarrow> P x \<Longrightarrow> takeWhile P (replicate n x @ y # ys) = replicate n x"
  by (induction n) auto

lemma toy_crypto_ok: "crypto_ok toy_crypto"
  by (simp add: crypto_ok_def toy_crypto_def toy_encode_def toy_decode_def Let_def
      takeWhile_replicate_stop)

text \<open>
  Loading or making a host key never changes a file that exists: whatever the outcome
  (success, error or panic), every path that had a content keeps it, and every path but the
  given one keeps its state.
\<close>

theorem host_key_files_kept:
  assumes "read_or_make_host_key c path algorithm w = (r, w')"
    and "fs_files (w_fs w) p \<noteq> None \<or> p \<noteq> path"
  shows "fs_files (w_fs w') p = fs_files (w_fs w) p"
proof (cases "p = path")
  case True
  with assms(2) have "\<not> stat_not_exist (w_fs w) path" by (simp add: stat_not_exist_def)
  then show ?thesis using assms(1)
    by (auto simp: read_or_make_host_key_def split: go.splits prod.splits dest: load_host_key_fs)
next
  case False
  with assms(1) show ?thesis
    by (auto simp: read_or_make_host_key_def make_host_key_other load_host_key_fs
        split: go.splits prod.splits if_splits)
qed

theorem host_key_files_kept_witness:
  "fs_files (w_fs (snd (read_or_make_host_key toy_crypto ''k'' RSAAlgorithm (toy_world [''k'' \<mapsto> ''junk''])))) ''k''
     = Some ''junk''"
proof -
  let ?w = "toy_world [''k'' \<mapsto> ''junk'']"
  let ?r = "read_or_make_host_key toy_crypto ''k'' RSAAlgorithm ?w"
  have "fs_files (w_fs (snd ?r)) ''k'' = fs_files (w_fs ?w) ''k''"
    by (rule host_key_files_kept [of _ _ _ _ "fst ?r"]) (simp_all add: toy_world_def)
  then show ?thesis by (simp add: toy_world_def)
qed

text \<open>
  C18.  A generated host key persists: when a first run finds no file, generates a key and
  succeeds, every later run that finds the file's content unchanged and can read it returns a
  key with the same private key, whatever the random source then holds, and writes no file.
\<close>

theorem host_key_persists:
  assumes "crypto_ok c" and "stat_not_exist (w_fs w) path"
    and "read_or_make_host_key c path algorithm w = (Ok k, w1)"
    and "fs_files (w_fs w') path = fs_files (w_fs w1) path" and "fs_read_err (w_fs w') path = None"
  shows "\<exists>k' w2. read_or_make_host_key c path algorithm w' = (Ok k', w2) \<and>
    key_private k' = key_private k \<and> key_private k \<noteq> None \<and> w_fs w2 = w_fs w'"
proof -
  from assms(3) obtain k0 where k0: "new_host_key algorithm = Ok k0"
    by (auto simp: read_or_make_host_key_def split: go.splits)
  from assms(2,3) k0 obtain k1 wm u where made: "make_host_key c k0 path w = (Ok u, k1, wm)"
    and loaded: "load_host_key c k1 path wm = (Ok (), k, w1)"
    by (auto simp: read_or_make_host_key_def go_bind_Ok_iff split: go.splits prod.splits)
  obtain pk b where pk: "key_holds c k1 pk" and b: "key_marshal c k1 = Ok b"
    and alg: "key_algorithm k1 = key_algorithm k0"
    and fs: "w_fs wm = (w_fs w)\<lparr>fs_files := (fs_files (w_fs w))(path \<mapsto> pem_Encode c b)\<rparr>"
    using make_host_key_Ok [OF made] by blast
  from fs load_host_key_fs [OF loaded] have content: "fs_files (w_fs w1) path = Some (pem_Encode c b)"
    by simp
  have "fs_read_err (w_fs wm) path = None"
    using loaded by (auto simp: load_host_key_def os_read_file_def Let_def split: option.splits)
  then have k: "key_holds c k pk"
    using load_encoded [OF assms(1) pk b, of k1 wm path] loaded fs by auto
  obtain k' w2 where "load_host_key c k0 path w' = (Ok (), k', w2)" "key_holds c k' pk" "w_fs w2 = w_fs w'"
    using load_encoded [OF assms(1) pk b, of k0 w' path] alg content assms(4,5) by metis
  moreover have "\<not> stat_not_exist (w_fs w') path"
    using assms(4) content by (simp add: stat_not_exist_def)
  ultimately show ?thesis using k0 k
    by (auto simp: read_or_make_host_key_def key_holds_def)
qed

lemma toy_generate:
  "\<exists>k w1. read_or_make_host_key toy_crypto path RSAAlgorithm (toy_world Map.empty) = (Ok k, w1) \<and>
     fs_read_err (w_fs w1) path = None"
  by (simp add: read_or_make_host_key_def new_host_key_def stat_not_exist_def toy_world_def
      make_host_key_def read_random_def rsa_generate_def rsa_marshal_pem_def os_create_def
      write_new_file_def load_host_key_def os_read_file_def toy_crypto_def toy_encode_def
      toy_decode_def takeWhile_replicate_stop rsa_unmarshal_pem_def parse_rsa_der_def go_unit_def
      log_line_def Let_def)

theorem host_key_persists_witness:
  "\<exists>k w1 k' w2.
     read_or_make_host_key toy_crypto ''k'' RSAAlgorithm (toy_world Map.empty) = (Ok k, w1) \<and>
     read_or_make_host_key toy_crypto ''k'' RSAAlgorithm (w1\<lparr>w_rand := []\<rparr>) = (Ok k', w2) \<and>
     key_private k' = key_private k \<and> key_private k \<noteq> None"
proof -
  obtain k w1 where run: "read_or_make_host_key toy_crypto ''k'' RSAAlgorithm (toy_world Map.empty) = (Ok k, w1)"
    and read: "fs_read_err (w_fs w1) ''k'' = None"
    using toy_generate by blast
  have "stat_not_exist (w_fs (toy_world Map.empty)) ''k''"
    by (simp add: stat_not_exist_def toy_world_def)
  from host_key_persists [OF toy_crypto_ok this run, of "w1\<lparr>w_rand := []\<rparr>"] run read
  show ?thesis by auto
qed

text \<open>
  An Ed25519 key file whose PEM body is not 32 bytes long does not give an error: reading
  it panics.  (The PKCS8 form that other tools write under the same PEM type is such a file.)
\<close>

theorem ed25519_file_bad_length_panics:
  assumes "fs_files (w_fs w) path = Some content" and "fs_read_err (w_fs w) path = None"
    and "content \<noteq> []" and "pem_Decode c content = Some block"
    and "pem_type block = ''PRIVATE KEY''" and "length (pem_bytes block) \<noteq> 32"
  shows "is_panic (fst (read_or_make_host_key c path ED25519Algorithm w))"
  using assms
  by (simp add: read_or_make_host_key_def new_host_key_def stat_not_exist_def load_host_key_def
      os_read_file_def ed_unmarshal_pem_def ed25519_from_seed_def Let_def)

theorem ed25519_file_bad_length_panics_witness:
  "is_panic (fst (read_or_make_host_key toy_crypto ''k'' ED25519Algorithm
     (toy_world [''k'' \<mapsto> toy_encode \<lparr>pem_type = ''PRIVATE KEY'', pem_bytes = ''DER''\<rparr>])))"
  by (rule ed25519_file_bad_length_panics
        [where content = "toy_encode \<lparr>pem_type = ''PRIVATE KEY'', pem_bytes = ''DER''\<rparr>"
           and block = "\<lparr>pem_type = ''PRIVATE KEY'', pem_bytes = ''DER''\<rparr>"])
    (simp_all add: toy_world_def toy_crypto_def toy_encode_def toy_decode_def Let_def)

end
