(* ===== verification/Address.thy ===== *)
theory Address
  imports Prelude
begin

text \<open>
  \<open>feature/forward_address.go\<close>: network addresses, their parser and printer, and the
  command-line list of them.  The two functions of package \<open>net\<close> that they call,
  \<open>SplitHostPort\<close> and \<open>JoinHostPort\<close>, are modelled from the standard library: indices
  become the parts of the string before and after them.
\<close>

section \<open>\<open>net.SplitHostPort\<close> and \<open>net.JoinHostPort\<close>\<close>

text \<open>The string before and after the last occurrence of a byte, if there is one.\<close>

fun split_last :: "char \<Rightarrow> string \<Rightarrow> (string \<times> string) option" where
  "split_last c [] = None"
| "split_last c (x # xs) =
     (case split_last c xs of
        Some (a, b) \<Rightarrow> Some (x # a, b)
      | None \<Rightarrow> if x = c then Some ([], xs) else None)"

text \<open>The string before and after the first occurrence of a byte.\<close>

fun split_first :: "char \<Rightarrow> string \<Rightarrow> (string \<times> string) option" where
  "split_first c [] = None"
| "split_first c (x # xs) =
     (if x = c then Some ([], xs)
      else (case split_first c xs of Some (a, b) \<Rightarrow> Some (x # a, b) | None \<Rightarrow> None))"

definition addr_err :: "string \<Rightarrow> 'a go" where
  "addr_err why = Err (ErrNew why)"

text \<open>
  With a leading bracket, the first closing bracket must stand directly before the last
  colon.  \<open>rest\<close> is what follows that bracket: nothing (then no colon follows), the last colon
  and the port (\<open>rest = ':' # port\<close> with no colon in \<open>port\<close>), or something else.
  Finally no opening bracket may come after position \<open>j\<close>, and no closing one after \<open>k\<close>.
\<close>

definition split_host_port :: "string \<Rightarrow> (string \<times> string) go" where
  "split_host_port hostport =
     (case split_last CHR '':'' hostport of
        None \<Rightarrow> addr_err ''missing port in address''
      | Some (before, port) \<Rightarrow>
          if hd hostport = CHR ''['' then
            (case split_first CHR '']'' hostport of
               None \<Rightarrow> addr_err ''missing ']' in address''
             | Some (bhost, rest) \<Rightarrow>
                 if rest = [] then addr_err ''missing port in address''
                 else if rest \<noteq> CHR '':'' # port then
                   (if hd rest = CHR '':'' then addr_err ''too many colons in address''
                    else addr_err ''missing port in address'')
                 else if CHR ''['' \<in> set (tl hostport) then addr_err ''unexpected '[' in address''
                 else if CHR '']'' \<in> set rest then addr_err ''unexpected ']' in address''
                 else Ok (tl bhost, port))
          else if CHR '':'' \<in> set before then addr_err ''too many colons in address''
          else if CHR ''['' \<in> set hostport then addr_err ''unexpected '[' in address''
          else if CHR '']'' \<in> set hostport then addr_err ''unexpected ']' in address''
          else Ok (before, port))"

definition join_host_port :: "string \<Rightarrow> string \<Rightarrow> string" where
  "join_host_port host port =
     (if CHR '':'' \<in> set host then ''['' @ host @ '']:'' @ port else host @ '':'' @ port)"

lemma split_last_append:
  "c \<notin> set b \<Longrightarrow> split_last c (a @ c # b) = Some (a, b)"
proof (induction a)
  case Nil
  then have "split_last c b = None" by (induction b) auto
  then show ?case by simp
next
  case (Cons x a)
  then show ?case by simp
qed

lemma split_first_append:
  "c \<notin> set a \<Longrightarrow> split_first c (a @ c # b) = Some (a, b)"
  by (induction a) auto

lemma split_last_None: "split_last c s = None \<longleftrightarrow> c \<notin> set s"
  by (induction s) (auto split: option.splits if_splits)

lemma split_last_Some: "split_last c s = Some (a, b) \<Longrightarrow> s = a @ c # b \<and> c \<notin> set b"
  by (induction s arbitrary: a) (auto simp: split_last_None split: option.splits if_splits)

lemma split_first_Some: "split_first c s = Some (a, b) \<Longrightarrow> s = a @ c # b \<and> c \<notin> set a"
  by (induction s arbitrary: a) (auto split: option.splits if_splits)

abbreviation bracket_free :: "string \<Rightarrow> bool" where
  "bracket_free s \<equiv> CHR ''['' \<notin> set s \<and> CHR '']'' \<notin> set s"

lemma split_join:
  assumes "bracket_free host" and "CHR '':'' \<notin> set port" and "bracket_free port"
  shows "split_host_port (join_host_port host port) = Ok (host, port)"
proof (cases "CHR '':'' \<in> set host")
  case True
  let ?s = "''['' @ host @ '']:'' @ port"
  have "split_last CHR '':'' ?s = Some (''['' @ host @ '']'', port)"
    using split_last_append [of "CHR '':''" port "''['' @ host @ '']''"] assms by simp
  moreover have "split_first CHR '']'' ?s = Some (''['' @ host, CHR '':'' # port)"
    using split_first_append [of "CHR '']''" "''['' @ host" "CHR '':'' # port"] assms by simp
  ultimately show ?thesis using True assms
    by (simp add: split_host_port_def join_host_port_def)
next
  case False
  let ?s = "host @ '':'' @ port"
  have "split_last CHR '':'' ?s = Some (host, port)"
    using split_last_append [of "CHR '':''" port host] assms by simp
  moreover have "hd ?s \<noteq> CHR ''[''" using assms by (cases host) auto
  ultimately show ?thesis using False assms
    by (simp add: split_host_port_def join_host_port_def)
qed

lemma set_tl_subset: "c \<in> set (tl xs) \<Longrightarrow> c \<in> set xs"
  by (cases xs) auto

lemma split_host_port_Ok:
  assumes "split_host_port s = Ok (host, port)"
  shows "bracket_free host" "CHR '':'' \<notin> set port" "bracket_free port"
proof -
  from assms obtain before where last: "split_last CHR '':'' s = Some (before, port)"
    by (auto simp: split_host_port_def addr_err_def split: option.splits if_splits)
  then have s: "s = before @ CHR '':'' # port" and "CHR '':'' \<notin> set port"
    by (auto dest: split_last_Some)
  then show "CHR '':'' \<notin> set port" by blast
  have "bracket_free host \<and> bracket_free port"
  proof (cases "hd s = CHR ''[''")
    case True
    with assms last obtain bhost rest where first: "split_first CHR '']'' s = Some (bhost, rest)"
      and ok: "rest = CHR '':'' # port" "CHR ''['' \<notin> set (tl s)" "CHR '']'' \<notin> set rest"
        "host = tl bhost"
      by (auto simp: split_host_port_def addr_err_def split: option.splits if_splits)
    from first have "s = bhost @ CHR '']'' # rest" "CHR '']'' \<notin> set bhost"
      by (auto dest: split_first_Some)
    moreover from this True have "bhost \<noteq> []" by auto
    ultimately show ?thesis using ok by (cases bhost) auto
  next
    case False
    with assms last s show ?thesis
      by (auto simp: split_host_port_def addr_err_def split: option.splits if_splits)
  qed
  then show "bracket_free host" "bracket_free port" by auto
qed

section \<open>Network addresses\<close>

type_synonym network_port = "16 word"

record network_address =
  Hostname :: string
  Port :: network_port

text \<open>\<open>NetworkPort(x)\<close> of an unsigned integer keeps its 16 low bits.\<close>

definition to_network_port :: "nat \<Rightarrow> network_port" where
  "to_network_port x = of_nat x"

text \<open>
  An error loses the partly filled address that Go returns beside it; the callers do not
  use it.
\<close>

definition parse_network_address :: "string \<Rightarrow> network_address go" where
  "parse_network_address s =
     go_bind (split_host_port s) (\<lambda>(hostname, pp).
       case parse_uint pp 32 of
         Err e \<Rightarrow> Err (ErrWrapf e ''Unable to parse port: %s'')
       | Panic m \<Rightarrow> Panic m
       | Ok port \<Rightarrow> Ok \<lparr>Hostname = hostname, Port = to_network_port port\<rparr>)"

definition must_parse_network_address :: "string \<Rightarrow> network_address go" where
  "must_parse_network_address s =
     (case parse_network_address s of
        Ok p \<Rightarrow> Ok p
      | Err e \<Rightarrow> Panic ''ParseNetworkAddress''
      | Panic m \<Rightarrow> Panic m)"

definition address_string :: "network_address \<Rightarrow> string" where
  "address_string p = join_host_port (Hostname p) (format_int (uint (Port p)))"

text \<open>
  \<open>NetworkAddressListVar\<close> holds a pointer to a list of addresses, which may be nil; a call
  of \<open>Set\<close> returns the error and leaves the list that the pointer then points to.
\<close>

record address_list_var =
  Addresses :: "network_address list option"

definition list_var_string :: "address_list_var \<Rightarrow> string" where
  "list_var_string p =
     (case Addresses p of
        None \<Rightarrow> []
      | Some as \<Rightarrow> go_join (map address_string as) '','')"

definition list_var_set :: "string \<Rightarrow> address_list_var \<Rightarrow> address_list_var go" where
  "list_var_set value p =
     go_bind (parse_network_address value) (\<lambda>newPort.
       case Addresses p of
         None \<Rightarrow> Panic ''nil pointer dereference''
       | Some as \<Rightarrow> Ok (p\<lparr>Addresses := Some (as @ [newPort])\<rparr>))"

text \<open>Package \<open>flag\<close> calls \<open>Set\<close> once for each time the flag is given.\<close>

fun list_var_set_all :: "string list \<Rightarrow> address_list_var \<Rightarrow> address_list_var go" where
  "list_var_set_all [] p = Ok p"
| "list_var_set_all (v # vs) p = go_bind (list_var_set v p) (list_var_set_all vs)"

section \<open>Lemmas\<close>

lemma format_int_word: "format_int (uint (w :: 16 word)) = format_nat (unat w)"
  by (simp add: format_int_def)

lemma format_nat_plain: "CHR '':'' \<notin> set (format_nat n)" "bracket_free (format_nat n)"
  "CHR '','' \<notin> set (format_nat n)"
  by (auto dest: format_nat_digits)

lemma unat_port_bound: "unat (w :: 16 word) < 2 ^ 32"
proof -
  have "unat w < 2 ^ LENGTH(16)" by (rule unsigned_less)
  then show ?thesis by simp
qed

lemma parse_address_string:
  assumes "bracket_free (Hostname p)"
  shows "parse_network_address (address_string p) = Ok p"
  using split_join [OF assms format_nat_plain(1,2) [of "unat (Port p)"]]
    parse_uint_format [OF unat_port_bound [of "Port p"]]
  by (simp add: parse_network_address_def address_string_def format_int_word to_network_port_def)

lemma parse_network_address_Ok:
  "parse_network_address s = Ok p \<longleftrightarrow>
     (\<exists>pp n. split_host_port s = Ok (Hostname p, pp) \<and> parse_uint pp 32 = Ok n \<and>
        Port p = to_network_port n)"
proof (cases "split_host_port s")
  case (Ok hp)
  obtain h pp where hp: "hp = (h, pp)" by (cases hp)
  with Ok show ?thesis
    by (cases p; cases "parse_uint pp 32") (auto simp: parse_network_address_def)
qed (auto simp: parse_network_address_def)

lemma parse_bracket_free: "parse_network_address s = Ok p \<Longrightarrow> bracket_free (Hostname p)"
  by (auto simp: parse_network_address_Ok dest: split_host_port_Ok)

lemma to_network_port_eq: "to_network_port n = w \<longleftrightarrow> unat w = n mod 65536"
  by (auto simp: to_network_port_def word_unat_eq_iff unat_of_nat)

lemma list_var_set_all_Ok:
  "list_var_set_all vs \<lparr>Addresses = Some as\<rparr> = Ok p \<longleftrightarrow>
     (\<exists>bs. map parse_network_address vs = map Ok bs \<and> p = \<lparr>Addresses = Some (as @ bs)\<rparr>)"
proof (induction vs arbitrary: as)
  case Nil
  then show ?case by auto
next
  case (Cons v vs)
  show ?case
  proof (cases "parse_network_address v")
    case (Ok a)
    then show ?thesis using Cons [of "as @ [a]"]
      by (auto simp: list_var_set_def Cons_eq_map_conv)
  qed (auto simp: list_var_set_def Cons_eq_map_conv)
qed

section \<open>Properties\<close>

text \<open>
  C31.  Printing and parsing a network address round trip exactly when the host name has no
  square bracket: then \<open>ParseNetworkAddress(p.String())\<close> gives \<open>p\<close> back, whatever the host
  name and port are, IPv6 literals with their colons included; otherwise it never does.
\<close>

theorem network_address_roundtrip:
  "parse_network_address (address_string p) = Ok p \<longleftrightarrow> bracket_free (Hostname p)"
  using parse_address_string parse_bracket_free by blast


text \<open>
  The flag value collects every address it is given, in order, and stops at the first
  string that does not parse: from a list of addresses, setting the printed forms of others
  (with bracket-free host names) appends exactly those.
\<close>

theorem list_var_collects:
  "list_var_set_all (map address_string bs) \<lparr>Addresses = Some as\<rparr> =
     Ok \<lparr>Addresses = Some (as @ bs)\<rparr> \<longleftrightarrow> list_all (\<lambda>b. bracket_free (Hostname b)) bs"
proof -
  have "map parse_network_address (map address_string bs) = map Ok bs \<longleftrightarrow>
      list_all (\<lambda>b. bracket_free (Hostname b)) bs"
    by (auto simp: list_all_iff parse_address_string dest: parse_bracket_free)
  then show ?thesis by (auto simp: list_var_set_all_Ok map_eq_conv)
qed

end
