(* ===== verification/Server.thy ===== *)
theory Server
  imports HostKey Address
begin

text \<open>
  The part of \<open>ssh.Server\<close> and \<open>ssh.Context\<close> (github.com/gliderlabs/ssh) that the
  repository reads and writes, and the features that work on it: \<open>feature/forward.go\<close>,
  \<open>feature/authorize.go\<close> and the two functions of \<open>feature/hostkey.go\<close> that add keys to a
  server.

  A callback is a function from the context and its arguments to its result; the context and
  the log, which it may change, are threaded through.  Parameters: the default handler tables
  of the ssh package, its \<open>KeysEqual\<close> and \<open>AddHostKey\<close>, and the text of an error.
\<close>

section \<open>State\<close>

text \<open>A context: who is connected, and the values stored in it under integer keys.\<close>

record 'v ssh_ctx =
  ctx_peer :: peer
  ctx_values :: "int \<rightharpoonup> 'v"

type_synonym public_key = string

type_synonym 'v public_key_handler =
  "'v ssh_ctx \<Rightarrow> public_key \<Rightarrow> log \<Rightarrow> bool go \<times> 'v ssh_ctx \<times> log"

type_synonym 'v forward_callback = "'v ssh_ctx \<Rightarrow> string \<Rightarrow> 32 word \<Rightarrow> log \<Rightarrow> bool \<times> log"

datatype handler_ref = ForwardedTCPHandler | DirectTCPIPHandler | DefaultHandler string

text \<open>The session handler is of type \<open>'h\<close>; nil maps and functions are \<open>None\<close>.\<close>

record ('v, 'h) ssh_server =
  Addr :: string
  IdleTimeout :: int
  PublicKeyHandler :: "'v public_key_handler option"
  LocalPortForwardingCallback :: "'v forward_callback option"
  ReversePortForwardingCallback :: "'v forward_callback option"
  RequestHandlers :: "(string \<rightharpoonup> handler_ref) option"
  ChannelHandlers :: "(string \<rightharpoonup> handler_ref) option"
  HostSigners :: "host_key list"
  SessionHandler :: "'h option"

definition empty_server :: "('v, 'h) ssh_server" where
  "empty_server =
     \<lparr>Addr = [], IdleTimeout = 0, PublicKeyHandler = None, LocalPortForwardingCallback = None,
      ReversePortForwardingCallback = None, RequestHandlers = None, ChannelHandlers = None,
      HostSigners = [], SessionHandler = None\<rparr>"

section \<open>Port forwarding\<close>

fun filter_internal ::
  "string \<Rightarrow> 'v ssh_ctx \<Rightarrow> network_address list \<Rightarrow> network_address \<Rightarrow> log \<Rightarrow> bool \<times> log" where
  "filter_internal logExtra ctx [] actual lg =
     (False, fmt_ssh_log (ctx_peer ctx) ''deny%s_portforward %s'' [FStr logExtra, FStr (address_string actual)] lg)"
| "filter_internal logExtra ctx (p # ps) actual lg =
     (if Hostname p = Hostname actual \<and> Port p = Port actual
      then (True, fmt_ssh_log (ctx_peer ctx) ''grant%s_portforward %s''
                    [FStr logExtra, FStr (address_string actual)] lg)
      else filter_internal logExtra ctx ps actual lg)"

text \<open>\<open>%v\<close> of a slice of addresses prints them with \<open>String\<close>, in square brackets.\<close>

definition fmt_addresses :: "network_address list \<Rightarrow> string" where
  "fmt_addresses as = ''['' @ go_join (map address_string as) '' '' @ '']''"

definition allow_forward_to :: "network_address list \<Rightarrow> log \<Rightarrow> 'v forward_callback \<times> log" where
  "allow_forward_to addresses lg =
     (\<lambda>ctx dhost dport. filter_internal [] ctx addresses \<lparr>Hostname = dhost, Port = ucast dport\<rparr>,
      if length addresses > 0 then lg @ [''allow_forward_to '' @ fmt_addresses addresses] else lg)"

definition allow_forward_from :: "network_address list \<Rightarrow> log \<Rightarrow> 'v forward_callback \<times> log" where
  "allow_forward_from addresses lg =
     (\<lambda>ctx bindHost bindPort.
        filter_internal ''_reverse'' ctx addresses \<lparr>Hostname = bindHost, Port = ucast bindPort\<rparr>,
      if length addresses > 0 then lg @ [''allow_forward_from '' @ fmt_addresses addresses] else lg)"

text \<open>The default handler tables of package ssh.\<close>

record ssh_defaults =
  DefaultRequestHandlers :: "string \<rightharpoonup> handler_ref"
  DefaultChannelHandlers :: "string \<rightharpoonup> handler_ref"

definition enable_port_forwarding ::
  "ssh_defaults \<Rightarrow> 'v forward_callback \<Rightarrow> 'v forward_callback \<Rightarrow> ('v, 'h) ssh_server \<Rightarrow> ('v, 'h) ssh_server" where
  "enable_port_forwarding defaults localCallback reverseCallback server =
     (let server1 = server\<lparr>LocalPortForwardingCallback := Some localCallback,
                           ReversePortForwardingCallback := Some reverseCallback\<rparr>;
          requests = (case RequestHandlers server1 of
                        None \<Rightarrow> DefaultRequestHandlers defaults | Some m \<Rightarrow> m);
          channels = (case ChannelHandlers server1 of
                        None \<Rightarrow> DefaultChannelHandlers defaults | Some m \<Rightarrow> m)
      in server1\<lparr>RequestHandlers := Some (requests(''tcpip-forward'' \<mapsto> ForwardedTCPHandler,
                                                   ''cancel-tcpip-forward'' \<mapsto> ForwardedTCPHandler)),
                 ChannelHandlers := Some (channels(''direct-tcpip'' \<mapsto> DirectTCPIPHandler))\<rparr>)"

definition allow_port_forwarding ::
  "ssh_defaults \<Rightarrow> network_address list \<Rightarrow> network_address list \<Rightarrow> ('v, 'h) ssh_server \<Rightarrow> log
     \<Rightarrow> ('v, 'h) ssh_server \<times> log" where
  "allow_port_forwarding defaults toAddresses fromAddresses server lg =
     (let (localCallback, lg1) = allow_forward_to toAddresses lg;
          (reverseCallback, lg2) = allow_forward_from fromAddresses lg1
      in (enable_port_forwarding defaults localCallback reverseCallback server, lg2))"

section \<open>Public key authorization\<close>

text \<open>
  The loop over the keys, with the list of the \<open>KeysEqual\<close> calls it has made: it never
  leaves early.
\<close>

fun authorize_loop ::
  "(public_key \<Rightarrow> public_key \<Rightarrow> bool) \<Rightarrow> public_key list \<Rightarrow> public_key
     \<Rightarrow> bool \<times> (public_key \<times> public_key) list \<Rightarrow> bool \<times> (public_key \<times> public_key) list" where
  "authorize_loop keys_equal [] key (res, calls) = (res, calls)"
| "authorize_loop keys_equal (ak # aks) key (res, calls) =
     authorize_loop keys_equal aks key
       ((if keys_equal ak key then True else res), calls @ [(ak, key)])"

type_synonym 'v keyfinder = "'v ssh_ctx \<Rightarrow> public_key list go \<times> 'v ssh_ctx"

definition authorize_keys ::
  "(go_error \<Rightarrow> string) \<Rightarrow> (public_key \<Rightarrow> public_key \<Rightarrow> bool) \<Rightarrow> 'v keyfinder \<Rightarrow> 'v public_key_handler" where
  "authorize_keys err_text keys_equal keyfinder ctx key lg =
     (case keyfinder ctx of
        (Panic m, ctx') \<Rightarrow> (Panic m, ctx', lg)
      | (Err e, ctx') \<Rightarrow>
          (Ok False, ctx', fmt_ssh_log (ctx_peer ctx') ''error_keyfinder %s'' [FStr (err_text e)] lg)
      | (Ok keys, ctx') \<Rightarrow> (Ok (fst (authorize_loop keys_equal keys key (False, []))), ctx', lg))"

section \<open>Host keys of a server\<close>

text \<open>\<open>add\<close> stands for the ssh package's \<open>AddHostKey\<close> on the list of signers.\<close>

definition use_or_make_host_key ::
  "crypto \<Rightarrow> (host_key \<Rightarrow> host_key list \<Rightarrow> host_key list) \<Rightarrow> string \<Rightarrow> host_key_algorithm
     \<Rightarrow> ('v, 'h) ssh_server \<Rightarrow> world \<Rightarrow> unit go \<times> ('v, 'h) ssh_server \<times> world" where
  "use_or_make_host_key c add path algorithm server w =
     (case read_or_make_host_key c path algorithm w of
        (Ok key, w') \<Rightarrow> (Ok (), server\<lparr>HostSigners := add key (HostSigners server)\<rparr>, w')
      | (Err e, w') \<Rightarrow> (Err e, server, w')
      | (Panic m, w') \<Rightarrow> (Panic m, server, w'))"

fun use_or_make_loop ::
  "crypto \<Rightarrow> (host_key \<Rightarrow> host_key list \<Rightarrow> host_key list) \<Rightarrow> string \<Rightarrow> host_key_algorithm list
     \<Rightarrow> ('v, 'h) ssh_server \<Rightarrow> world \<Rightarrow> unit go \<times> ('v, 'h) ssh_server \<times> world" where
  "use_or_make_loop c add prefix [] server w = (Ok (), server, w)"
| "use_or_make_loop c add prefix (a # as) server w =
     go_then (use_or_make_host_key c add (prefix @ ''_'' @ a) a server w)
       (\<lambda>u (server', w'). use_or_make_loop c add prefix as server' w')"

definition use_or_make_host_keys ::
  "crypto \<Rightarrow> (host_key \<Rightarrow> host_key list \<Rightarrow> host_key list) \<Rightarrow> string \<Rightarrow> host_key_algorithm list option
     \<Rightarrow> ('v, 'h) ssh_server \<Rightarrow> world \<Rightarrow> unit go \<times> ('v, 'h) ssh_server \<times> world" where
  "use_or_make_host_keys c add prefix algorithms server w =
     use_or_make_loop c add prefix
       (case algorithms of None \<Rightarrow> [RSAAlgorithm, ED25519Algorithm] | Some as \<Rightarrow> as) server w"

section \<open>Lemmas\<close>

lemma filter_internal_fst:
  "fst (filter_internal x ctx as a lg) \<longleftrightarrow> (\<exists>p \<in> set as. Hostname p = Hostname a \<and> Port p = Port a)"
  by (induction as) auto

lemma address_eqI: "Hostname p = Hostname q \<Longrightarrow> Port p = Port q \<Longrightarrow> p = (q::network_address)"
  by (cases p; cases q) simp

lemma filter_internal_result:
  "filter_internal x ctx as a lg =
     (a \<in> set as, fmt_ssh_log (ctx_peer ctx) ((if a \<in> set as then ''grant'' else ''deny'') @ ''%s_portforward %s'')
        [FStr x, FStr (address_string a)] lg)"
  by (induction as) (auto intro: address_eqI)

lemma ucast_port_eq: "(ucast (d::32 word) :: 16 word) = w \<longleftrightarrow> unat w = unat d mod 65536"
  by (auto simp: word_unat_eq_iff unsigned_ucast_eq take_bit_eq_mod)

lemma authorize_loop_eq:
  "authorize_loop eq keys key (res, calls) =
     (res \<or> (\<exists>ak \<in> set keys. eq ak key), calls @ map (\<lambda>ak. (ak, key)) keys)"
  by (induction keys arbitrary: res calls) auto

section \<open>Properties\<close>

text \<open>
  Local forwarding to a destination is granted exactly when the configured list holds
  the requested host with the 16 low bits of the requested port, and every decision appends
  one line to the log, with the decision and the address in it.
\<close>

theorem forward_to_decision:
  "fst (allow_forward_to addresses lg) ctx dhost dport lg' =
     (let a = \<lparr>Hostname = dhost, Port = ucast dport\<rparr>; granted = a \<in> set addresses
      in (granted,
          lg' @ [log_prefix (ctx_peer ctx) @ (if granted then ''grant'' else ''deny'') @ ''_portforward ''
                 @ address_string a]))"
  by (simp add: allow_forward_to_def filter_internal_result fmt_ssh_log_eq Let_def
      fmt_verb_def fmt_extra_def)

text \<open>
  The filter decides on the truncated port: a request for a port above 65535 is granted
  when the list holds the port that is left after dropping the high bits.
\<close>

theorem forward_to_ignores_high_bits:
  "fst (fst (allow_forward_to addresses lg) ctx dhost dport lg') \<longleftrightarrow>
     (\<exists>p \<in> set addresses. Hostname p = dhost \<and> unat (Port p) = unat dport mod 65536)"
  by (auto simp: allow_forward_to_def filter_internal_fst ucast_port_eq [symmetric])

text \<open>
  Enabling port forwarding installs the two callbacks and the three handlers that serve
  them, keeps every other handler that the server had (or, where it had no table, every other
  default handler), and changes no other part of the server.
\<close>

theorem enable_port_forwarding_effect:
  "let server' = enable_port_forwarding defaults l r server in
    LocalPortForwardingCallback server' = Some l \<and> ReversePortForwardingCallback server' = Some r \<and>
    (\<exists>m. RequestHandlers server' = Some m \<and>
       (\<forall>n. m n = (if n \<in> {''tcpip-forward'', ''cancel-tcpip-forward''} then Some ForwardedTCPHandler
                   else (case RequestHandlers server of None \<Rightarrow> DefaultRequestHandlers defaults n | Some m0 \<Rightarrow> m0 n)))) \<and>
    (\<exists>m. ChannelHandlers server' = Some m \<and>
       (\<forall>n. m n = (if n = ''direct-tcpip'' then Some DirectTCPIPHandler
                   else (case ChannelHandlers server of None \<Rightarrow> DefaultChannelHandlers defaults n | Some m0 \<Rightarrow> m0 n)))) \<and>
    PublicKeyHandler server' = PublicKeyHandler server \<and> SessionHandler server' = SessionHandler server \<and>
    HostSigners server' = HostSigners server \<and> Addr server' = Addr server \<and>
    IdleTimeout server' = IdleTimeout server"
  by (auto simp: enable_port_forwarding_def Let_def split: option.splits)

text \<open>
  A key is accepted exactly when the key finder returned a key that is equal to it; the
  loop compares the offered key with every returned key, once and in order, whichever of
  them match, so its work does not depend on the offered key.
\<close>

theorem authorize_compares_all_keys:
  "authorize_loop keys_equal keys key (False, []) =
     ((\<exists>ak \<in> set keys. keys_equal ak key), map (\<lambda>ak. (ak, key)) keys)"
  by (simp add: authorize_loop_eq)

text \<open>
  The public key handler answers with the key finder's verdict alone: true exactly when a
  returned key equals the offered one; false, and the error in the log, when the key finder
  fails; and it keeps the context that the key finder leaves.
\<close>

theorem authorize_keys_decision:
  "authorize_keys err_text keys_equal keyfinder ctx key lg =
     (let (found, ctx') = keyfinder ctx
      in case found of
           Ok keys \<Rightarrow> (Ok (\<exists>ak \<in> set keys. keys_equal ak key), ctx', lg)
         | Err e \<Rightarrow> (Ok False, ctx', lg @ [log_prefix (ctx_peer ctx') @ ''error_keyfinder '' @ err_text e])
         | Panic m \<Rightarrow> (Panic m, ctx', lg))"
  by (cases "keyfinder ctx"; cases "fst (keyfinder ctx)")
    (auto simp: authorize_keys_def authorize_loop_eq fmt_ssh_log_eq fmt_verb_def fmt_extra_def)

end
