(* ===== verification/Configuration.thy ===== *)
theory Configuration
  imports Server
begin

text \<open>
  \<open>options.go\<close>, \<open>configuration.go\<close> and the first half of \<open>handle.go\<close>: the options that all
  servers share, configurations, and how \<open>NewServer\<close> puts them together.

  A \<open>Configuration\<close> is its \<open>Apply\<close> method and, when it implements \<open>Handler\<close> too, the
  handler; a nil configuration is \<open>None\<close>.  A server's session handler is the handler that
  \<open>makeProcessHandler\<close> wraps; what the wrapped function does is in theory \<open>Handle\<close>.
\<close>

section \<open>Options\<close>

text \<open>Nil slices are \<open>None\<close>.\<close>

record options =
  ListenAddress :: string
  HostKeyPath :: string
  HostKeyAlgorithms :: "host_key_algorithm list option"
  DisableAuthentication :: bool
  ForwardAddresses :: "network_address list option"
  ReverseAddresses :: "network_address list option"
  opt_IdleTimeout :: int

definition slice :: "'a list option \<Rightarrow> 'a list" where
  "slice xs = (case xs of None \<Rightarrow> [] | Some l \<Rightarrow> l)"

text \<open>What the ssh package and the crypto packages provide.\<close>

record platform =
  pf_crypto :: crypto
  pf_defaults :: ssh_defaults
  pf_AddHostKey :: "host_key \<Rightarrow> host_key list \<Rightarrow> host_key list"

definition options_apply ::
  "platform \<Rightarrow> options \<Rightarrow> ('v, 'h) ssh_server \<Rightarrow> world \<Rightarrow> unit go \<times> ('v, 'h) ssh_server \<times> world" where
  "options_apply pf opts server w =
     (let server1 = server\<lparr>Addr := ListenAddress opts, IdleTimeout := opt_IdleTimeout opts\<rparr>;
          (server2, w2) =
            (if DisableAuthentication opts
             then (server1\<lparr>PublicKeyHandler := None\<rparr>,
                   log_line ''WARNING: Disabling authentication. Anyone will be able to connect. '' w)
             else (server1, w));
          (server3, lg3) =
            allow_port_forwarding (pf_defaults pf) (slice (ForwardAddresses opts))
              (slice (ReverseAddresses opts)) server2 (w_log w2);
          w3 = w2\<lparr>w_log := lg3\<rparr>
      in if HostKeyPath opts \<noteq> []
         then use_or_make_host_keys (pf_crypto pf) (pf_AddHostKey pf) (HostKeyPath opts)
                (HostKeyAlgorithms opts) server3 w3
         else (Ok (), server3, w3))"

section \<open>Configurations\<close>

record ('v, 'h) configuration =
  cfg_apply :: "('v, 'h) ssh_server \<Rightarrow> world \<Rightarrow> unit go \<times> ('v, 'h) ssh_server \<times> world"
  cfg_handler :: "'h option"

definition ErrHandlerAlreadySet :: go_error where
  "ErrHandlerAlreadySet = ErrNew ''ApplyHandler: Handler already set''"

definition apply_handler :: "'h \<Rightarrow> ('v, 'h) ssh_server \<Rightarrow> unit go \<times> ('v, 'h) ssh_server" where
  "apply_handler handler server =
     (if SessionHandler server \<noteq> None then (Err ErrHandlerAlreadySet, server)
      else (Ok (), server\<lparr>SessionHandler := Some handler\<rparr>))"

definition apply_configuration ::
  "('v, 'h) configuration option \<Rightarrow> ('v, 'h) ssh_server \<Rightarrow> world \<Rightarrow> unit go \<times> ('v, 'h) ssh_server \<times> world" where
  "apply_configuration configuration server w =
     (case configuration of
        None \<Rightarrow> (Ok (), server, w)
      | Some cfg \<Rightarrow>
          go_then (cfg_apply cfg server w)
            (\<lambda>u (server1, w1).
               case cfg_handler cfg of
                 None \<Rightarrow> (Ok (), server1, w1)
               | Some handler \<Rightarrow>
                   (let (r, server2) = apply_handler handler server1 in (r, server2, w1))))"

fun apply_configurations ::
  "('v, 'h) configuration option list \<Rightarrow> ('v, 'h) ssh_server \<Rightarrow> world \<Rightarrow> unit go \<times> ('v, 'h) ssh_server \<times> world" where
  "apply_configurations [] server w = (Ok (), server, w)"
| "apply_configurations (c # cs) server w =
     go_then (apply_configuration c server w) (\<lambda>u (server1, w1). apply_configurations cs server1 w1)"

text \<open>\<open>Options\<close> is itself a configuration, without a handler.\<close>

definition options_configuration :: "platform \<Rightarrow> options \<Rightarrow> ('v, 'h) configuration" where
  "options_configuration pf opts = \<lparr>cfg_apply = options_apply pf opts, cfg_handler = None\<rparr>"

definition new_server ::
  "platform \<Rightarrow> options \<Rightarrow> ('v, 'h) configuration option list \<Rightarrow> world \<Rightarrow> ('v, 'h) ssh_server go \<times> world" where
  "new_server pf opts configurations w =
     (let (r, server, w') =
        go_then (apply_configurations configurations empty_server w)
          (\<lambda>u (server1, w1). apply_configuration (Some (options_configuration pf opts)) server1 w1)
      in (go_bind r (\<lambda>u. Ok server), w'))"

section \<open>The contract of a configuration\<close>

text \<open>
  \<open>NewServer\<close> relies on one thing: an \<open>Apply\<close> method that succeeds leaves the session
  handler alone, so that only \<open>ApplyHandler\<close> sets it.
\<close>

locale handler_neutral =
  fixes apply_cfg :: "('v, 'h) ssh_server \<Rightarrow> world \<Rightarrow> unit go \<times> ('v, 'h) ssh_server \<times> world"
  assumes keeps_handler: "apply_cfg server w = (Ok (), server', w') \<Longrightarrow> SessionHandler server' = SessionHandler server"
begin

lemma with_handler:
  assumes "apply_configuration (Some \<lparr>cfg_apply = apply_cfg, cfg_handler = Some h\<rparr>) server w = (Ok (), server', w')"
  shows "SessionHandler server = None \<and> SessionHandler server' = Some h"
  using assms keeps_handler
  by (auto simp: apply_configuration_def apply_handler_def go_then_Ok_iff split: if_splits)

lemma without_handler:
  assumes "apply_configuration (Some \<lparr>cfg_apply = apply_cfg, cfg_handler = None\<rparr>) server w = (Ok (), server', w')"
  shows "SessionHandler server' = SessionHandler server"
  using assms keeps_handler
  by (auto simp: apply_configuration_def go_then_Ok_iff)

end

lemma use_or_make_loop_frame:
  "use_or_make_loop c add prefix as server w = (r, server', w') \<Longrightarrow> \<exists>s. server' = server\<lparr>HostSigners := s\<rparr>"
proof (induction as arbitrary: server w)
  case Nil
  then show ?case by (intro exI [of _ "HostSigners server"]) simp
next
  case (Cons a as)
  obtain q server1 w1 where one: "use_or_make_host_key c add (prefix @ ''_'' @ a) a server w = (q, server1, w1)"
    by (cases "use_or_make_host_key c add (prefix @ ''_'' @ a) a server w")
  then have "\<exists>s. server1 = server\<lparr>HostSigners := s\<rparr>"
    by (auto simp: use_or_make_host_key_def split: prod.splits go.splits
        intro: exI [of _ "HostSigners server"])
  with one Cons show ?case by (cases q) fastforce+
qed

lemma options_apply_frame:
  assumes "options_apply pf opts server w = (r, server', w')"
  shows "SessionHandler server' = SessionHandler server"
    and "PublicKeyHandler server' = (if DisableAuthentication opts then None else PublicKeyHandler server)"
    and "Addr server' = ListenAddress opts" and "IdleTimeout server' = opt_IdleTimeout opts"
    and "LocalPortForwardingCallback server' = Some (fst (allow_forward_to (slice (ForwardAddresses opts)) []))"
    and "ReversePortForwardingCallback server' = Some (fst (allow_forward_from (slice (ReverseAddresses opts)) []))"
  using assms
  by (auto simp: options_apply_def Let_def allow_port_forwarding_def enable_port_forwarding_def
      use_or_make_host_keys_def allow_forward_to_def allow_forward_from_def
      split: prod.splits if_splits dest!: use_or_make_loop_frame)

interpretation opts: handler_neutral "options_apply pf opts" for pf opts
  by unfold_locales (rule options_apply_frame(1))

section \<open>Lemmas\<close>

lemma key_unmarshal_Ok:
  assumes "key_unmarshal c b k = (Ok (), k')" and "crypto_ok c"
  shows "key_private k' \<noteq> None \<and> key_signer k' \<noteq> None \<and> key_algorithm k' = key_algorithm k"
proof (cases k)
  case (ED25519HostKey ek)
  then obtain ek' pk where "ed25519_from_seed c (pem_bytes b) = Ok pk"
    and k': "k' = ED25519HostKey ek'" "ed_unmarshal_pem c b ek = (Ok (), ek')"
    using assms(1) by (auto simp: ed_unmarshal_pem_def split: if_splits go.splits)
  moreover obtain s where "ssh_NewSigner c (ED25519PrivateKey pk) = Ok s"
    using crypto_okD(4) [OF assms(2)] by blast
  ultimately show ?thesis using ED25519HostKey
    by (auto simp: ed_unmarshal_pem_def go_value_def split: if_splits)
next
  case (RSAHostKey rk)
  then show ?thesis using assms(1)
    by (auto simp: rsa_unmarshal_pem_def go_value_def go_unit_def Let_def
        split: if_splits go.splits parsed_key.splits)
qed

lemma read_or_make_host_key_Ok:
  assumes "read_or_make_host_key c path a w = (Ok k, w')" and "crypto_ok c"
  shows "key_private k \<noteq> None \<and> key_signer k \<noteq> None \<and> key_algorithm k = a"
proof -
  from assms(1) obtain k0 where k0: "new_host_key a = Ok k0"
    by (auto simp: read_or_make_host_key_def split: go.splits)
  with assms(1) obtain k1 w1 u where made:
      "(if stat_not_exist (w_fs w) path then make_host_key c k0 path w else (Ok (), k0, w)) = (Ok u, k1, w1)"
    and loaded: "load_host_key c k1 path w1 = (Ok (), k, w')"
    by (auto simp: read_or_make_host_key_def go_bind_Ok_iff split: go.splits prod.splits)
  from made have "key_algorithm k1 = a"
    using new_host_key_Ok [OF k0] by (auto split: if_splits elim: make_host_key_Ok)
  moreover from loaded obtain b where "key_unmarshal c b k1 = (Ok (), k)"
    by (auto simp: load_host_key_def Let_def split: go.splits option.splits if_splits prod.splits)
  ultimately show ?thesis using key_unmarshal_Ok [OF _ assms(2)] by auto
qed

lemma use_or_make_loop_Ok:
  assumes "use_or_make_loop c add prefix as server w = (Ok (), server', w')" and "crypto_ok c"
  shows "\<exists>keys. map key_algorithm keys = as \<and> (\<forall>k \<in> set keys. key_signer k \<noteq> None) \<and>
     HostSigners server' = fold add keys (HostSigners server)"
  using assms
proof (induction as arbitrary: server w)
  case Nil
  then show ?case by auto
next
  case (Cons a as)
  then obtain k w1 where k: "read_or_make_host_key c (prefix @ ''_'' @ a) a w = (Ok k, w1)"
    and rest: "use_or_make_loop c add prefix as (server\<lparr>HostSigners := add k (HostSigners server)\<rparr>) w1
       = (Ok (), server', w')"
    by (auto simp: use_or_make_host_key_def go_then_Ok_iff split: prod.splits go.splits)
  from Cons.IH [OF rest] Cons.prems(2) obtain keys where "map key_algorithm keys = as"
      "\<forall>k \<in> set keys. key_signer k \<noteq> None"
      "HostSigners server' = fold add keys (add k (HostSigners server))"
    by auto
  with read_or_make_host_key_Ok [OF k Cons.prems(2)] show ?case
    by (intro exI [of _ "k # keys"]) auto
qed

text \<open>The handlers of a list of configurations, in order.\<close>

definition handlers_of :: "('v, 'h) configuration option list \<Rightarrow> 'h list" where
  "handlers_of cs = concat (map (\<lambda>c. case c of None \<Rightarrow> [] | Some cfg \<Rightarrow>
      (case cfg_handler cfg of None \<Rightarrow> [] | Some h \<Rightarrow> [h])) cs)"

definition option_list :: "'a option \<Rightarrow> 'a list" where
  "option_list x = (case x of None \<Rightarrow> [] | Some y \<Rightarrow> [y])"

lemma apply_configuration_handlers:
  assumes "apply_configuration c server w = (Ok (), server', w')"
    and "\<And>cfg. c = Some cfg \<Longrightarrow> handler_neutral (cfg_apply cfg)"
  shows "option_list (SessionHandler server') = option_list (SessionHandler server) @ handlers_of [c]"
proof (cases c)
  case None
  with assms(1) show ?thesis by (simp add: apply_configuration_def handlers_of_def)
next
  case (Some cfg)
  then have n: "handler_neutral (cfg_apply cfg)" by (rule assms(2))
  obtain f h where cfg: "cfg = \<lparr>cfg_apply = f, cfg_handler = h\<rparr>" by (cases cfg)
  with n have f: "handler_neutral f" by simp
  show ?thesis
  proof (cases h)
    case None
    with handler_neutral.without_handler [OF f, of server w server' w'] assms(1) Some cfg
    show ?thesis by (simp add: handlers_of_def)
  next
    case (Some h')
    with handler_neutral.with_handler [OF f, of h' server w server' w'] assms(1) \<open>c = Some cfg\<close> cfg
    show ?thesis by (simp add: handlers_of_def option_list_def)
  qed
qed

lemma apply_configurations_handlers:
  assumes "apply_configurations cs server w = (Ok (), server', w')"
    and "\<And>cfg. Some cfg \<in> set cs \<Longrightarrow> handler_neutral (cfg_apply cfg)"
  shows "option_list (SessionHandler server') = option_list (SessionHandler server) @ handlers_of cs"
  using assms
proof (induction cs arbitrary: server w)
  case Nil
  then show ?case by (simp add: handlers_of_def)
next
  case (Cons c cs)
  then obtain server1 w1 where one: "apply_configuration c server w = (Ok (), server1, w1)"
    and rest: "apply_configurations cs server1 w1 = (Ok (), server', w')"
    by (auto simp: go_then_Ok_iff)
  from apply_configuration_handlers [OF one] Cons.prems(2)
  have "option_list (SessionHandler server1) = option_list (SessionHandler server) @ handlers_of [c]"
    by simp
  with Cons.IH [OF rest] Cons.prems(2) show ?case by (simp add: handlers_of_def)
qed

lemma new_server_Ok:
  assumes "new_server pf opts cs w = (Ok server, w')"
  obtains server1 w1 where "apply_configurations cs empty_server w = (Ok (), server1, w1)"
    and "options_apply pf opts server1 w1 = (Ok (), server, w')"
proof -
  have "\<exists>server1 w1. apply_configurations cs empty_server w = (Ok (), server1, w1) \<and>
      options_apply pf opts server1 w1 = (Ok (), server, w')"
    using assms
    by (auto simp: new_server_def apply_configuration_def options_configuration_def go_then_Ok_iff
        go_bind_Ok_iff split: prod.splits)
  with that show ?thesis by blast
qed

section \<open>Properties\<close>

text \<open>An instance of the parameters, for the examples.\<close>

definition toy_platform :: platform where
  "toy_platform =
     \<lparr>pf_crypto = toy_crypto,
      pf_defaults = \<lparr>DefaultRequestHandlers = Map.empty, DefaultChannelHandlers = Map.empty\<rparr>,
      pf_AddHostKey = (\<lambda>k ks. ks @ [k])\<rparr>"

definition toy_options :: options where
  "toy_options =
     \<lparr>ListenAddress = '':2222'', HostKeyPath = [], HostKeyAlgorithms = None,
      DisableAuthentication = True, ForwardAddresses = None,
      ReverseAddresses = Some [\<lparr>Hostname = ''0.0.0.0'', Port = 8080\<rparr>], opt_IdleTimeout = 3600\<rparr>"

definition toy_configuration :: "nat option \<Rightarrow> (nat, nat) configuration" where
  "toy_configuration h = \<lparr>cfg_apply = (\<lambda>server w. (Ok (), server, w)), cfg_handler = h\<rparr>"

lemma toy_configuration_neutral: "handler_neutral (cfg_apply (toy_configuration h))"
  by unfold_locales (simp add: toy_configuration_def)

lemma toy_new_server:
  "\<exists>server w'. new_server toy_platform toy_options [Some (toy_configuration None), Some (toy_configuration (Some 5)), None]
     (toy_world Map.empty) = (Ok server, w')"
  by (simp add: new_server_def apply_configuration_def toy_configuration_def options_configuration_def
      options_apply_def toy_options_def apply_handler_def empty_server_def Let_def split_beta)

text \<open>
  C20.  The options are applied last and win over every configuration: a server that
  \<open>NewServer\<close> returns listens on the options' address with their idle timeout and forwards
  exactly their addresses, whatever the configurations did; with authentication disabled it
  has no public key handler, and otherwise the one that the configurations left.
\<close>

theorem new_server_options_win:
  assumes "new_server pf opts cs w = (Ok server, w')"
  shows "Addr server = ListenAddress opts \<and> IdleTimeout server = opt_IdleTimeout opts \<and>
    LocalPortForwardingCallback server = Some (fst (allow_forward_to (slice (ForwardAddresses opts)) [])) \<and>
    ReversePortForwardingCallback server = Some (fst (allow_forward_from (slice (ReverseAddresses opts)) [])) \<and>
    PublicKeyHandler server =
      (if DisableAuthentication opts then None
       else PublicKeyHandler (fst (snd (apply_configurations cs empty_server w))))"
  using assms by (rule new_server_Ok) (simp add: options_apply_frame)

theorem new_server_options_win_witness:
  "\<exists>(server :: (nat, nat) ssh_server) w'. Addr server = '':2222'' \<and> PublicKeyHandler server = None \<and>
     (Ok server, w') = new_server toy_platform toy_options
       [Some (toy_configuration None), Some (toy_configuration (Some 5)), None] (toy_world Map.empty)"
proof -
  obtain server :: "(nat, nat) ssh_server" and w' where
    run: "new_server toy_platform toy_options
       [Some (toy_configuration None), Some (toy_configuration (Some 5)), None] (toy_world Map.empty) = (Ok server, w')"
    using toy_new_server by blast
  from new_server_options_win [OF run] have "Addr server = '':2222'' \<and> PublicKeyHandler server = None"
    by (simp add: toy_options_def)
  with run [symmetric] show ?thesis by blast
qed

text \<open>
  Handlers are never silently replaced: when \<open>NewServer\<close> succeeds on configurations
  whose \<open>Apply\<close> methods leave the session handler alone, at most one of them is a handler,
  and the server's session handler is that one (or none).
\<close>

theorem new_server_single_handler:
  assumes "new_server pf opts cs w = (Ok server, w')"
    and "\<And>cfg. Some cfg \<in> set cs \<Longrightarrow> handler_neutral (cfg_apply cfg)"
  shows "handlers_of cs = option_list (SessionHandler server)"
  using assms(1)
proof (rule new_server_Ok)
  fix server1 w1
  assume run: "apply_configurations cs empty_server w = (Ok (), server1, w1)"
    and opts: "options_apply pf opts server1 w1 = (Ok (), server, w')"
  have "SessionHandler (empty_server :: ('a, 'b) ssh_server) = None" by (simp add: empty_server_def)
  with apply_configurations_handlers [OF run] assms(2)
  have "option_list (SessionHandler server1) = handlers_of cs" by (simp add: option_list_def)
  with options_apply_frame(1) [OF opts] show ?thesis by simp
qed

theorem new_server_single_handler_witness:
  "\<exists>(server :: (nat, nat) ssh_server) w'. option_list (SessionHandler server) = [5] \<and>
     (Ok server, w') = new_server toy_platform toy_options
       [Some (toy_configuration None), Some (toy_configuration (Some 5)), None] (toy_world Map.empty)"
proof -
  obtain server :: "(nat, nat) ssh_server" and w' where
    run: "new_server toy_platform toy_options
       [Some (toy_configuration None), Some (toy_configuration (Some 5)), None] (toy_world Map.empty) = (Ok server, w')"
    using toy_new_server by blast
  have "handlers_of [Some (toy_configuration None), Some (toy_configuration (Some 5)), None] = [5]"
    by (simp add: handlers_of_def toy_configuration_def)
  moreover have "handlers_of [Some (toy_configuration None), Some (toy_configuration (Some 5)), None]
      = option_list (SessionHandler server)"
    by (rule new_server_single_handler [OF run]) (auto intro: toy_configuration_neutral)
  ultimately show ?thesis using run [symmetric] by (intro exI conjI) auto
qed

text \<open>
  When \<open>UseOrMakeHostKeys\<close> succeeds, the server has been given one host key for every
  requested algorithm (RSA and Ed25519 by default), in order, each of the algorithm it was
  requested for and with a signer.
\<close>

theorem host_keys_all_added:
  assumes "crypto_ok c" and "use_or_make_host_keys c add prefix algorithms server w = (Ok (), server', w')"
  shows "\<exists>keys. map key_algorithm keys =
      (case algorithms of None \<Rightarrow> [RSAAlgorithm, ED25519Algorithm] | Some as \<Rightarrow> as) \<and>
    (\<forall>k \<in> set keys. key_signer k \<noteq> None) \<and>
    HostSigners server' = fold add keys (HostSigners server)"
  using use_or_make_loop_Ok [OF _ assms(1)] assms(2) by (simp add: use_or_make_host_keys_def)

theorem host_keys_all_added_witness:
  "\<exists>(server :: (nat, nat) ssh_server) w' k.
     use_or_make_host_keys toy_crypto (\<lambda>k ks. ks @ [k]) ''k'' (Some [RSAAlgorithm]) empty_server
       (toy_world Map.empty) = (Ok (), server, w') \<and>
     HostSigners server = [k] \<and> key_algorithm k = RSAAlgorithm \<and> key_signer k \<noteq> None"
proof -
  obtain k w1 where k: "read_or_make_host_key toy_crypto (''k'' @ ''_'' @ RSAAlgorithm) RSAAlgorithm
      (toy_world Map.empty) = (Ok k, w1)"
    using toy_generate by blast
  obtain server :: "(nat, nat) ssh_server" and w' where
    run: "use_or_make_host_keys toy_crypto (\<lambda>k ks. ks @ [k]) ''k'' (Some [RSAAlgorithm]) empty_server
       (toy_world Map.empty) = (Ok (), server, w')"
    using k by (simp add: use_or_make_host_keys_def use_or_make_host_key_def)
  from host_keys_all_added [OF toy_crypto_ok run] obtain key where
      "key_algorithm key = RSAAlgorithm" "key_signer key \<noteq> None" "HostSigners server = [key]"
    by (auto simp: map_eq_Cons_conv empty_server_def)
  with run show ?thesis by blast
qed

end
