(* ===== verification/Flags.thy ===== *)
theory Flags
  imports Configuration
begin

text \<open>
  Command line flags: the part of package \<open>flag\<close> that the servers use, the flags of
  \<open>Options\<close> (\<open>options.go\<close>), and the flag for legal notices (\<open>internal/legal/flag.go\<close>).

  A flag set maps names to flags; a flag is what its \<open>Set\<close> method does to the program's
  configuration, and whether it is boolean.  Pointers to flag sets are numbers, of which one is
  \<open>flag.CommandLine\<close>; that set exits the program when an argument is wrong.  What is printed
  about a wrong argument is left out.  Parameters: \<open>time.ParseDuration\<close> and the text of the
  notices.
\<close>

section \<open>Flag sets\<close>

text \<open>\<open>SetExit\<close> ends the program with a status, after printing.\<close>

datatype set_result = SetOk | SetErr go_error | SetPanic string | SetExit int string

record 's flag =
  fl_name :: string
  fl_bool :: bool
  fl_set :: "string \<Rightarrow> 's \<Rightarrow> set_result \<times> 's"

type_synonym 's flagsets = "nat \<Rightarrow> 's flag list"

definition CommandLine :: nat where
  "CommandLine = 0"

definition flagset_or_default :: "nat option \<Rightarrow> nat" where
  "flagset_or_default flagset = (case flagset of None \<Rightarrow> CommandLine | Some r \<Rightarrow> r)"

definition lookup_flag :: "'s flag list \<Rightarrow> string \<Rightarrow> 's flag option" where
  "lookup_flag fs n = find (\<lambda>f. fl_name f = n) fs"

text \<open>\<open>FlagSet.Var\<close>.\<close>

definition flag_var :: "nat \<Rightarrow> 's flag \<Rightarrow> 's flagsets \<Rightarrow> unit go \<times> 's flagsets" where
  "flag_var r f sets =
     (if take 1 (fl_name f) = ''-'' then (Panic ''flag begins with -'', sets)
      else if CHR ''='' \<in> set (fl_name f) then (Panic ''flag contains ='', sets)
      else if lookup_flag (sets r) (fl_name f) \<noteq> None then (Panic ''flag redefined'', sets)
      else (Ok (), sets(r := sets r @ [f])))"

text \<open>\<open>strconv.ParseBool\<close>.\<close>

definition parse_bool :: "string \<Rightarrow> bool go" where
  "parse_bool s =
     (if s \<in> {''1'', ''t'', ''T'', ''TRUE'', ''true'', ''True''} then Ok True
      else if s \<in> {''0'', ''f'', ''F'', ''FALSE'', ''false'', ''False''} then Ok False
      else Err errSyntax)"

text \<open>
  The values behind \<open>StringVar\<close>, \<open>BoolVar\<close> and \<open>DurationVar\<close>; the last two store the
  zero value when the argument does not parse.
\<close>

definition string_flag :: "string \<Rightarrow> (string \<Rightarrow> 's \<Rightarrow> 's) \<Rightarrow> 's flag" where
  "string_flag name put = \<lparr>fl_name = name, fl_bool = False, fl_set = (\<lambda>v s. (SetOk, put v s))\<rparr>"

definition bool_flag :: "string \<Rightarrow> (bool \<Rightarrow> 's \<Rightarrow> 's) \<Rightarrow> 's flag" where
  "bool_flag name put =
     \<lparr>fl_name = name, fl_bool = True,
      fl_set = (\<lambda>v s. case parse_bool v of
                  Ok b \<Rightarrow> (SetOk, put b s)
                | Err e \<Rightarrow> (SetErr e, put False s)
                | Panic m \<Rightarrow> (SetPanic m, s))\<rparr>"

definition duration_flag :: "(string \<Rightarrow> int go) \<Rightarrow> string \<Rightarrow> (int \<Rightarrow> 's \<Rightarrow> 's) \<Rightarrow> 's flag" where
  "duration_flag parseDuration name put =
     \<lparr>fl_name = name, fl_bool = False,
      fl_set = (\<lambda>v s. case parseDuration v of
                  Ok d \<Rightarrow> (SetOk, put d s)
                | Err e \<Rightarrow> (SetErr e, put 0 s)
                | Panic m \<Rightarrow> (SetPanic m, s))\<rparr>"

section \<open>Parsing arguments\<close>

text \<open>
  One round of \<open>FlagSet.Parse\<close>: it goes on with the remaining arguments, or stops before the
  first that is no flag.
\<close>

datatype parse_step =
    ParseOn "string list" | ParseStop "string list" | ParseFail | ParseHelp
  | ParsePanic string | ParseExit int string

fun after_set :: "set_result \<times> 's \<Rightarrow> string list \<Rightarrow> parse_step \<times> 's" where
  "after_set (SetOk, s) args = (ParseOn args, s)"
| "after_set (SetErr e, s) args = (ParseFail, s)"
| "after_set (SetPanic m, s) args = (ParsePanic m, s)"
| "after_set (SetExit c out, s) args = (ParseExit c out, s)"

text \<open>Whether an argument is a flag, and the name and the value that it gives.\<close>

definition is_flag_arg :: "string \<Rightarrow> bool" where
  "is_flag_arg a \<longleftrightarrow> 2 \<le> length a \<and> hd a = CHR ''-''"

definition arg_body :: "string \<Rightarrow> string" where
  "arg_body a = (if take 1 (drop 1 a) = ''-'' then drop 2 a else drop 1 a)"

definition arg_name :: "string \<Rightarrow> string" where
  "arg_name a = takeWhile (\<lambda>c. c \<noteq> CHR ''='') (arg_body a)"

definition arg_value :: "string \<Rightarrow> string option" where
  "arg_value a =
     (case dropWhile (\<lambda>c. c \<noteq> CHR ''='') (arg_body a) of [] \<Rightarrow> None | c # value \<Rightarrow> Some value)"

definition set_flag :: "'s flag \<Rightarrow> string option \<Rightarrow> string list \<Rightarrow> 's \<Rightarrow> parse_step \<times> 's" where
  "set_flag f value rest s =
     (if fl_bool f then
        after_set (fl_set f (case value of Some v \<Rightarrow> v | None \<Rightarrow> ''true'') s) rest
      else
        (case value of
           Some v \<Rightarrow> after_set (fl_set f v s) rest
         | None \<Rightarrow> (case rest of
               [] \<Rightarrow> (ParseFail, s)
             | v # rest' \<Rightarrow> after_set (fl_set f v s) rest')))"

definition parse_one :: "'s flag list \<Rightarrow> string list \<Rightarrow> 's \<Rightarrow> parse_step \<times> 's" where
  "parse_one fs args s =
     (case args of
        [] \<Rightarrow> (ParseStop [], s)
      | a # rest \<Rightarrow>
          if \<not> is_flag_arg a then (ParseStop args, s)
          else if a = ''--'' then (ParseStop rest, s)
          else if take 1 (arg_body a) = ''-'' \<or> take 1 (arg_body a) = ''='' then (ParseFail, s)
          else (case lookup_flag fs (arg_name a) of
                  None \<Rightarrow> (if arg_name a = ''help'' \<or> arg_name a = ''h'' then ParseHelp else ParseFail, s)
                | Some f \<Rightarrow> set_flag f (arg_value a) rest s))"

datatype parsed = Parsed "string list" | ParsePanicked string | ParseExited int string

lemma set_flag_shorter: "set_flag f v rest s = (ParseOn rest', s') \<Longrightarrow> length rest' \<le> length rest"
  by (auto simp: set_flag_def elim!: after_set.elims split: if_splits option.splits list.splits)

lemma parse_one_shorter: "parse_one fs args s = (ParseOn rest, s') \<Longrightarrow> length rest < length args"
  by (auto simp: parse_one_def less_Suc_eq_le dest: set_flag_shorter
      split: list.splits if_splits option.splits)

function parse_flags :: "'s flag list \<Rightarrow> string list \<Rightarrow> 's \<Rightarrow> parsed \<times> 's" where
  "parse_flags fs args s =
     (case parse_one fs args s of
        (ParseOn rest, s') \<Rightarrow> parse_flags fs rest s'
      | (ParseStop rest, s') \<Rightarrow> (Parsed rest, s')
      | (ParseFail, s') \<Rightarrow> (ParseExited 2 [], s')
      | (ParseHelp, s') \<Rightarrow> (ParseExited 0 [], s')
      | (ParsePanic m, s') \<Rightarrow> (ParsePanicked m, s')
      | (ParseExit c out, s') \<Rightarrow> (ParseExited c out, s'))"
  by pat_completeness auto

termination
  by (relation "measure (\<lambda>(fs, args, s). length args)") (auto dest!: parse_one_shorter [OF sym] parse_one_shorter)

declare parse_flags.simps [simp del]

section \<open>The contract of a flag set\<close>

text \<open>
  What the flags of a set keep when they are set, parsing keeps; only the flags that the
  arguments name matter.
\<close>

locale flags_keep =
  fixes flags :: "'s flag list" and used :: "string \<Rightarrow> bool" and keep :: "'s \<Rightarrow> bool"
  assumes set_keeps: "f \<in> set flags \<Longrightarrow> used (fl_name f) \<Longrightarrow> fl_set f v s = (r, s') \<Longrightarrow> keep s \<Longrightarrow> keep s'"
begin

lemma after_set_keeps:
  assumes "after_set (fl_set f v s) args = (q, s')" and "f \<in> set flags" and "used (fl_name f)" and "keep s"
  shows "keep s'"
proof -
  obtain r s1 where "fl_set f v s = (r, s1)" by (cases "fl_set f v s")
  with assms set_keeps [OF assms(2,3) this] show ?thesis by (cases r) auto
qed

lemma set_flag_keeps:
  "set_flag f v rest s = (q, s') \<Longrightarrow> f \<in> set flags \<Longrightarrow> used (fl_name f) \<Longrightarrow> keep s \<Longrightarrow> keep s'"
  by (auto simp: set_flag_def elim: after_set_keeps split: if_splits option.splits list.splits)

lemma parse_one_keeps:
  assumes "parse_one flags args s = (q, s')" and "\<forall>a \<in> set args. used (arg_name a)" and "keep s"
  shows "keep s'"
  using assms
  by (auto simp: parse_one_def lookup_flag_def find_Some_iff
      split: list.splits if_splits option.splits elim!: set_flag_keeps)

lemma parse_one_rest: "parse_one flags args s = (ParseOn rest, s') \<Longrightarrow> set rest \<subseteq> set args"
  by (auto simp: parse_one_def set_flag_def elim!: after_set.elims
      split: list.splits if_splits option.splits)

lemma parse_flags_keeps:
  "parse_flags flags args s = (q, s') \<Longrightarrow> \<forall>a \<in> set args. used (arg_name a) \<Longrightarrow> keep s \<Longrightarrow> keep s'"
proof (induction "length args" arbitrary: args s rule: less_induct)
  case less
  obtain p s1 where one: "parse_one flags args s = (p, s1)" by (cases "parse_one flags args s")
  then have s1: "keep s1" by (rule parse_one_keeps [OF _ less.prems(2,3)])
  show ?case
  proof (cases p)
    case (ParseOn rest)
    with one less.prems(1) have "parse_flags flags rest s1 = (q, s')" by (simp add: parse_flags.simps [of flags args])
    then show ?thesis
    proof (rule less.hyps [rotated])
      show "length rest < length args" using one ParseOn by (auto dest: parse_one_shorter)
      show "\<forall>a \<in> set rest. used (arg_name a)" using one ParseOn less.prems(2) by (auto dest!: parse_one_rest)
    qed (rule s1)
  qed (use one s1 less.prems(1) in \<open>auto simp: parse_flags.simps [of flags args]\<close>)
qed

end

section \<open>Registering\<close>

text \<open>
  The configuration of a program: the options and the configuration of its kind.  The second part
  of the state are all flag sets.
\<close>

record 'c program =
  pg_options :: options
  pg_config :: 'c

definition put_options :: "(options \<Rightarrow> options) \<Rightarrow> 'c program \<Rightarrow> 'c program" where
  "put_options g p = p\<lparr>pg_options := g (pg_options p)\<rparr>"

lemma put_options_sel [simp]:
  "pg_options (put_options g p) = g (pg_options p)" "pg_config (put_options g p) = pg_config p"
  by (simp_all add: put_options_def)

definition put_config :: "('c \<Rightarrow> 'c) \<Rightarrow> 'c program \<Rightarrow> 'c program" where
  "put_config g p = p\<lparr>pg_config := g (pg_config p)\<rparr>"

definition register :: "nat \<Rightarrow> 's flag \<Rightarrow> 'p \<times> 's flagsets \<Rightarrow> unit go \<times> 'p \<times> 's flagsets" where
  "register r f st = (let (q, sets) = flag_var r f (snd st) in (q, (fst st, sets)))"

text \<open>A \<open>NetworkAddressListVar\<close> that points to a list of the options.\<close>

definition address_flag ::
  "string \<Rightarrow> (options \<Rightarrow> network_address list option) \<Rightarrow> (network_address list option \<Rightarrow> options \<Rightarrow> options)
     \<Rightarrow> 'c program flag" where
  "address_flag name get put =
     \<lparr>fl_name = name, fl_bool = False,
      fl_set = (\<lambda>v p.
        case list_var_set v \<lparr>Addresses = Some (slice (get (pg_options p)))\<rparr> of
          Ok var \<Rightarrow> (SetOk, put_options (put (Addresses var)) p)
        | Err e \<Rightarrow> (SetErr e, p)
        | Panic m \<Rightarrow> (SetPanic m, p))\<rparr>"

definition put_ForwardAddresses :: "network_address list option \<Rightarrow> options \<Rightarrow> options" where
  "put_ForwardAddresses as os = os\<lparr>ForwardAddresses := as\<rparr>"

definition put_ReverseAddresses :: "network_address list option \<Rightarrow> options \<Rightarrow> options" where
  "put_ReverseAddresses as os = os\<lparr>ReverseAddresses := as\<rparr>"

definition port_flag :: "'c program flag" where
  "port_flag = string_flag ''port'' (\<lambda>v. put_options (\<lambda>os. os\<lparr>ListenAddress := v\<rparr>))"

definition timeout_flag :: "(string \<Rightarrow> int go) \<Rightarrow> 'c program flag" where
  "timeout_flag parseDuration = duration_flag parseDuration ''timeout'' (\<lambda>d. put_options (\<lambda>os. os\<lparr>opt_IdleTimeout := d\<rparr>))"

definition L_flag :: "'c program flag" where
  "L_flag = address_flag ''L'' ForwardAddresses put_ForwardAddresses"

definition R_flag :: "'c program flag" where
  "R_flag = address_flag ''R'' ReverseAddresses put_ReverseAddresses"

definition hostkey_flag :: "'c program flag" where
  "hostkey_flag = string_flag ''hostkey'' (\<lambda>v. put_options (\<lambda>os. os\<lparr>HostKeyPath := v\<rparr>))"

definition unsafe_flag :: "'c program flag" where
  "unsafe_flag = bool_flag ''unsafe'' (\<lambda>b. put_options (\<lambda>os. os\<lparr>DisableAuthentication := b\<rparr>))"

definition options_register_flags ::
  "(string \<Rightarrow> int go) \<Rightarrow> nat option \<Rightarrow> bool \<Rightarrow> 'c program \<times> 'c program flagsets
     \<Rightarrow> unit go \<times> 'c program \<times> 'c program flagsets" where
  "options_register_flags parseDuration flagset addUnsafeFlags st =
     (let r = flagset_or_default flagset
      in go_then (register r port_flag st) (\<lambda>u st1.
         go_then (register r (timeout_flag parseDuration) st1) (\<lambda>u (p2, sets2).
         let p3 = put_options (\<lambda>os. os\<lparr>ForwardAddresses := Some (slice (ForwardAddresses os))\<rparr>) p2
         in go_then (register r L_flag (p3, sets2)) (\<lambda>u (p4, sets4).
         let p5 = put_options (\<lambda>os. os\<lparr>ReverseAddresses := Some (slice (ReverseAddresses os))\<rparr>) p4
         in go_then (register r R_flag (p5, sets4)) (\<lambda>u st6.
         go_then (register r hostkey_flag st6) (\<lambda>u st7.
         if addUnsafeFlags then register r unsafe_flag st7 else (Ok (), st7)))))))"

section \<open>Legal notices\<close>

definition print_and_exit :: "string \<Rightarrow> set_result" where
  "print_and_exit notices =
     SetExit 0
       (''This executable contains code from several different go packages. '' @ [nl] @
        ''Some of these packages require licensing information to be made available to the end user. '' @ [nl] @
        notices @ [nl])"

definition legal_set :: "string \<Rightarrow> string \<Rightarrow> 's \<Rightarrow> set_result \<times> 's" where
  "legal_set notices s st =
     (case parse_bool s of
        Ok v \<Rightarrow> (if v then print_and_exit notices else SetOk, st)
      | Err e \<Rightarrow> (SetErr e, st)
      | Panic m \<Rightarrow> (SetPanic m, st))"

definition legal_flag :: "string \<Rightarrow> 's flag" where
  "legal_flag notices = \<lparr>fl_name = ''legal'', fl_bool = True, fl_set = legal_set notices\<rparr>"

definition legal_register_flag :: "string \<Rightarrow> nat option \<Rightarrow> 'p \<times> 's flagsets \<Rightarrow> unit go \<times> 'p \<times> 's flagsets" where
  "legal_register_flag notices flagset st = register (flagset_or_default flagset) (legal_flag notices) st"

section \<open>Lemmas\<close>

definition set_names :: "'s flag list \<Rightarrow> string set" where
  "set_names fs = fl_name ` set fs"

lemma set_names_simps [simp]:
  "set_names [] = {}" "set_names (f # fs) = insert (fl_name f) (set_names fs)"
  "set_names (fs @ gs) = set_names fs \<union> set_names gs"
  by (auto simp: set_names_def)

lemma lookup_flag_None [simp]: "lookup_flag fs n = None \<longleftrightarrow> n \<notin> set_names fs"
  by (auto simp: lookup_flag_def set_names_def find_None_iff)

lemma lookup_flag_none [simp]: "n \<notin> set_names fs \<Longrightarrow> lookup_flag fs n = None"
  by simp

lemma lookup_flag_Cons [simp]: "lookup_flag (f # fs) n = (if fl_name f = n then Some f else lookup_flag fs n)"
  by (simp add: lookup_flag_def)

lemma flag_names [simp]:
  "fl_name port_flag = ''port''" "fl_name (timeout_flag pd) = ''timeout''" "fl_name L_flag = ''L''"
  "fl_name R_flag = ''R''" "fl_name hostkey_flag = ''hostkey''" "fl_name unsafe_flag = ''unsafe''"
  "fl_name (legal_flag notices) = ''legal''"
  by (simp_all add: port_flag_def timeout_flag_def L_flag_def R_flag_def hostkey_flag_def unsafe_flag_def
      legal_flag_def string_flag_def bool_flag_def duration_flag_def address_flag_def)

lemma register_Ok:
  assumes "take 1 (fl_name f) \<noteq> ''-''" "CHR ''='' \<notin> set (fl_name f)" "fl_name f \<notin> set_names (sets r)"
  shows "register r f (p, sets) = (Ok (), (p, sets(r := sets r @ [f])))"
  using assms by (simp add: register_def flag_var_def)

text \<open>The flags of \<open>Options\<close>, as one list.\<close>

definition options_flags :: "(string \<Rightarrow> int go) \<Rightarrow> bool \<Rightarrow> 'c program flag list" where
  "options_flags pd addUnsafeFlags =
     [port_flag, timeout_flag pd, L_flag, R_flag, hostkey_flag] @ (if addUnsafeFlags then [unsafe_flag] else [])"

definition with_lists :: "options \<Rightarrow> options" where
  "with_lists os = os\<lparr>ForwardAddresses := Some (slice (ForwardAddresses os)),
                    ReverseAddresses := Some (slice (ReverseAddresses os))\<rparr>"

lemma options_register_Ok:
  assumes "set_names (sets (flagset_or_default fs)) \<inter> set_names (options_flags pd True :: 'c program flag list) = {}"
  shows "options_register_flags pd fs addUnsafeFlags (p :: 'c program, sets) =
    (Ok (), (put_options with_lists p,
             sets(flagset_or_default fs := sets (flagset_or_default fs) @ options_flags pd addUnsafeFlags)))"
  using assms
  by (simp add: options_register_flags_def options_flags_def register_Ok Let_def put_options_def with_lists_def)

lemma lookup_flag_append:
  "lookup_flag (fs @ gs) n = (case lookup_flag fs n of None \<Rightarrow> lookup_flag gs n | Some f \<Rightarrow> Some f)"
  by (induction fs) (auto simp: lookup_flag_def)

text \<open>A flag and its value as two arguments.\<close>

definition plain_name :: "string \<Rightarrow> bool" where
  "plain_name n \<longleftrightarrow> n \<noteq> [] \<and> hd n \<noteq> CHR ''-'' \<and> CHR ''='' \<notin> set n"

lemma arg_parts:
  assumes "plain_name n"
  shows "is_flag_arg (CHR ''-'' # n)" "arg_body (CHR ''-'' # n) = n" "arg_name (CHR ''-'' # n) = n"
    "arg_value (CHR ''-'' # n) = None" "take 1 n \<noteq> ''-''" "take 1 n \<noteq> ''=''" "n \<noteq> ''-''"
proof -
  from assms obtain c cs where n: "n = c # cs" "c \<noteq> CHR ''-''" "CHR ''='' \<notin> set n"
    by (cases n) (auto simp: plain_name_def)
  then show body: "arg_body (CHR ''-'' # n) = n" by (simp add: arg_body_def)
  from n(3) have whole: "takeWhile (\<lambda>c. c \<noteq> CHR ''='') n = n" "dropWhile (\<lambda>c. c \<noteq> CHR ''='') n = []"
    by (auto simp: takeWhile_eq_all_conv dropWhile_eq_Nil_conv)
  show "arg_name (CHR ''-'' # n) = n" by (simp only: arg_name_def body whole)
  show "arg_value (CHR ''-'' # n) = None" by (simp only: arg_value_def body whole list.case)
  from n show "is_flag_arg (CHR ''-'' # n)" "take 1 n \<noteq> ''-''" "take 1 n \<noteq> ''=''" "n \<noteq> ''-''"
    by (auto simp: is_flag_arg_def)
qed

lemma parse_flag_value:
  assumes "plain_name n" and "lookup_flag fs n = Some f" and "\<not> fl_bool f" and "fl_set f v s = (SetOk, s')"
  shows "parse_flags fs ((CHR ''-'' # n) # v # rest) s = parse_flags fs rest s'"
  using assms(2-4) arg_parts [OF assms(1)]
  by (subst parse_flags.simps) (simp add: parse_one_def set_flag_def)

lemma parse_address_flags:
  assumes "plain_name n" and "lookup_flag fs n = Some (address_flag n get put)"
    and lens: "\<And>x os. get (put x os) = x" "\<And>x y os. put x (put y os) = put x os" "\<And>os. put (get os) os = os"
    and "get (pg_options p) = Some old" and "\<forall>a \<in> set as. bracket_free (Hostname a)"
  shows "parse_flags fs (concat (map (\<lambda>a. [CHR ''-'' # n, address_string a]) as) @ rest) p =
    parse_flags fs rest (put_options (put (Some (old @ as))) p)"
  using assms(6-)
proof (induction as arbitrary: p old)
  case Nil
  then show ?case using lens(3) [of "pg_options p"] by (simp add: put_options_def)
next
  case (Cons a as)
  let ?p = "put_options (put (Some (old @ [a]))) p"
  have "fl_set (address_flag n get put) (address_string a) p = (SetOk, ?p)"
    using Cons.prems by (simp add: address_flag_def list_var_set_def parse_address_string slice_def)
  then have "parse_flags fs (concat (map (\<lambda>a. [CHR ''-'' # n, address_string a]) (a # as)) @ rest) p =
      parse_flags fs (concat (map (\<lambda>a. [CHR ''-'' # n, address_string a]) as) @ rest) ?p"
    using parse_flag_value [OF assms(1,2)] by (simp add: address_flag_def)
  also have "\<dots> = parse_flags fs rest (put_options (put (Some ((old @ [a]) @ as))) ?p)"
    by (rule Cons.IH) (use Cons.prems lens in \<open>simp_all add: put_options_def\<close>)
  finally show ?case using lens by (simp add: put_options_def)
qed

lemma plain_names [simp]:
  "plain_name ''port''" "plain_name ''L''" "plain_name ''R''" "plain_name ''hostkey''"
  by (simp_all add: plain_name_def)

lemma options_lookup:
  assumes "set_names fs \<inter> set_names (options_flags pd True :: 'c program flag list) = {}"
  shows "lookup_flag (fs @ options_flags pd u @ gs) ''port'' = Some (port_flag :: 'c program flag)"
    and "lookup_flag (fs @ options_flags pd u @ gs) ''L'' = Some (L_flag :: 'c program flag)"
    and "lookup_flag (fs @ options_flags pd u @ gs) ''R'' = Some (R_flag :: 'c program flag)"
    and "lookup_flag (fs @ options_flags pd u @ gs) ''hostkey'' = Some (hostkey_flag :: 'c program flag)"
proof -
  from assms have "''port'' \<notin> set_names fs" "''L'' \<notin> set_names fs" "''R'' \<notin> set_names fs" "''hostkey'' \<notin> set_names fs"
    by (simp_all add: options_flags_def)
  then show "lookup_flag (fs @ options_flags pd u @ gs) ''port'' = Some port_flag"
    "lookup_flag (fs @ options_flags pd u @ gs) ''L'' = Some L_flag"
    "lookup_flag (fs @ options_flags pd u @ gs) ''R'' = Some R_flag"
    "lookup_flag (fs @ options_flags pd u @ gs) ''hostkey'' = Some hostkey_flag"
    by (simp_all add: lookup_flag_append options_flags_def)
qed

text \<open>The arguments that ask for an address, lists of forwarded addresses, and a host key path.\<close>

definition options_args :: "string \<Rightarrow> network_address list \<Rightarrow> network_address list \<Rightarrow> string \<Rightarrow> string list" where
  "options_args port ls rs key =
     [''-port'', port] @ concat (map (\<lambda>a. [''-L'', address_string a]) ls) @
     concat (map (\<lambda>a. [''-R'', address_string a]) rs) @ [''-hostkey'', key]"

definition with_args :: "string \<Rightarrow> network_address list \<Rightarrow> network_address list \<Rightarrow> string \<Rightarrow> options \<Rightarrow> options" where
  "with_args port ls rs key os = os\<lparr>ListenAddress := port, HostKeyPath := key,
     ForwardAddresses := Some (slice (ForwardAddresses os) @ ls),
     ReverseAddresses := Some (slice (ReverseAddresses os) @ rs)\<rparr>"

lemma parse_options_args:
  assumes "set_names fs \<inter> set_names (options_flags pd True :: 'c program flag list) = {}"
    and "list_all (\<lambda>a. bracket_free (Hostname a)) (ls @ rs)"
  shows "parse_flags (fs @ options_flags pd addUnsafeFlags @ others) (options_args port ls rs key)
      (put_options with_lists (p :: 'c program)) = (Parsed [], put_options (with_args port ls rs key) p)"
proof -
  let ?fs = "fs @ options_flags pd addUnsafeFlags @ others" and ?p1 = "put_options with_lists p"
  let ?F = "slice (ForwardAddresses (pg_options p))" and ?R = "slice (ReverseAddresses (pg_options p))"
  note look = options_lookup [OF assms(1), of addUnsafeFlags others]
  have brackets: "\<forall>a \<in> set ls. bracket_free (Hostname a)" "\<forall>a \<in> set rs. bracket_free (Hostname a)"
    using assms(2) by (auto simp: list_all_iff)
  let ?p2 = "put_options (\<lambda>os. os\<lparr>ListenAddress := port\<rparr>) ?p1"
  let ?p3 = "put_options (put_ForwardAddresses (Some (?F @ ls))) ?p2"
  let ?p4 = "put_options (put_ReverseAddresses (Some (?R @ rs))) ?p3"
  let ?key = "[''-hostkey'', key]"
  let ?Rs = "concat (map (\<lambda>a. [''-R'', address_string a]) rs) @ ?key"
  have "parse_flags ?fs (options_args port ls rs key) ?p1 =
      parse_flags ?fs (concat (map (\<lambda>a. [''-L'', address_string a]) ls) @ ?Rs) ?p2"
    using parse_flag_value [OF plain_names(1) look(1)]
    by (simp add: options_args_def port_flag_def string_flag_def)
  also have "\<dots> = parse_flags ?fs ?Rs ?p3"
    by (rule parse_address_flags [OF plain_names(2) look(2) [unfolded L_flag_def]])
      (use brackets in \<open>simp_all add: put_ForwardAddresses_def put_options_def with_lists_def\<close>)
  also have "\<dots> = parse_flags ?fs ?key ?p4"
    by (rule parse_address_flags [OF plain_names(3) look(3) [unfolded R_flag_def]])
      (use brackets in \<open>simp_all add: put_ReverseAddresses_def put_ForwardAddresses_def put_options_def with_lists_def\<close>)
  also have "\<dots> = parse_flags ?fs [] (put_options (\<lambda>os. os\<lparr>HostKeyPath := key\<rparr>) ?p4)"
    using parse_flag_value [OF plain_names(4) look(4)]
    by (simp add: hostkey_flag_def string_flag_def)
  finally show ?thesis
    by (simp add: parse_flags.simps [of ?fs "[]"] parse_one_def put_options_def with_lists_def with_args_def
        put_ReverseAddresses_def put_ForwardAddresses_def)
qed

section \<open>Properties\<close>

text \<open>
  C37.  Options survive the command line: after \<open>RegisterFlags\<close> on a flag set without flags
  of the same names, parsing the arguments that print an address, any number of \<open>-L\<close> and
  \<open>-R\<close> addresses (with bracket-free host names) and a host key path stores exactly these,
  the addresses in order after those that were configured, and changes no other option.
\<close>

theorem options_command_line:
  assumes "set_names (sets CommandLine) \<inter> set_names (options_flags pd True :: 'c program flag list) = {}"
    and "options_register_flags pd None addUnsafeFlags (p :: 'c program, sets) = (Ok (), (p1, sets1))"
    and "list_all (\<lambda>a. bracket_free (Hostname a)) (ls @ rs)"
  shows "parse_flags (sets1 CommandLine @ others) (options_args port ls rs key) p1 =
    (Parsed [], put_options (\<lambda>os. os\<lparr>ListenAddress := port, HostKeyPath := key,
       ForwardAddresses := Some (slice (ForwardAddresses os) @ ls),
       ReverseAddresses := Some (slice (ReverseAddresses os) @ rs)\<rparr>) p)"
proof -
  have "p1 = put_options with_lists p"
    and "sets1 CommandLine @ others = sets CommandLine @ options_flags pd addUnsafeFlags @ others"
    using assms(1,2) by (auto simp: options_register_Ok flagset_or_default_def)
  with parse_options_args [OF assms(1,3)] show ?thesis by (simp add: with_args_def [abs_def])
qed

definition example_address :: network_address where
  "example_address = \<lparr>Hostname = ''::1'', Port = 80\<rparr>"

theorem options_command_line_witness:
  "\<exists>(p1 :: unit program) sets1 p2.
     options_register_flags (\<lambda>v. Err errSyntax) None False (\<lparr>pg_options = toy_options, pg_config = ()\<rparr>, \<lambda>r. [])
       = (Ok (), (p1, sets1)) \<and>
     parse_flags (sets1 CommandLine @ [legal_flag []]) (options_args '':22'' [example_address] [] ''k'') p1 = (Parsed [], p2) \<and>
     ListenAddress (pg_options p2) = '':22'' \<and> ForwardAddresses (pg_options p2) = Some [example_address] \<and>
     ReverseAddresses (pg_options p2) = Some [\<lparr>Hostname = ''0.0.0.0'', Port = 8080\<rparr>]"
proof -
  let ?p = "\<lparr>pg_options = toy_options, pg_config = ()\<rparr>"
  obtain p1 :: "unit program" and sets1 where
    reg: "options_register_flags (\<lambda>v. Err errSyntax) None False (?p, \<lambda>r. []) = (Ok (), (p1, sets1))"
    by (simp add: options_register_Ok)
  show ?thesis
    using options_command_line [OF _ reg, of "[example_address]" "[]" "[legal_flag []]" "'':22''" "''k''"] reg
    by (simp add: example_address_def put_options_def toy_options_def slice_def)
qed

end
