(* ===== verification/Term.thy ===== *)
theory Term
  imports Logging
begin

text \<open>
  \<open>internal/term\<close>: \<open>Pipes\<close> and \<open>Pair\<close> with its two \<open>terminal\<close>s.

  The operating system keeps the files that are open, what was written to each, and a
  terminal mode of type \<open>'m\<close> and a window size for each descriptor; \<open>os.Pipe\<close> and the
  methods of \<open>os.File\<close> are written out.  The operations of the packages
  \<open>github.com/moby/term\<close> and \<open>github.com/creack/pty\<close> are the parameters \<open>tty_lib\<close>.
  A method runs with the terminal's mutex held, so it is one atomic function; nil pointers are
  \<open>None\<close>.
\<close>

section \<open>Files\<close>

record win_size =
  Width :: "16 word"
  Height :: "16 word"

record 'm os =
  os_next :: nat
  os_limit :: nat
  os_open :: "nat list"
  os_mode :: "nat \<Rightarrow> 'm"
  os_size :: "nat \<Rightarrow> win_size option"
  os_written :: "(nat \<times> string) list"

definition EMFILE :: go_error where
  "EMFILE = ErrForeign ''too many open files''"

definition ErrClosed :: go_error where
  "ErrClosed = ErrForeign ''file already closed''"

definition ErrInvalid :: go_error where
  "ErrInvalid = ErrForeign ''invalid argument''"

text \<open>Methods of a nil \<open>*os.File\<close> return \<open>ErrInvalid\<close>.\<close>

definition os_Pipe :: "'m os \<Rightarrow> (nat \<times> nat) go \<times> 'm os" where
  "os_Pipe k =
     (if length (os_open k) + 2 \<le> os_limit k
      then (Ok (os_next k, Suc (os_next k)),
            k\<lparr>os_next := Suc (Suc (os_next k)), os_open := os_open k @ [os_next k, Suc (os_next k)]\<rparr>)
      else (Err EMFILE, k))"

definition file_close :: "nat option \<Rightarrow> 'm os \<Rightarrow> unit go \<times> 'm os" where
  "file_close f k =
     (case f of
        None \<Rightarrow> (Err ErrInvalid, k)
      | Some n \<Rightarrow> if n \<in> set (os_open k) then (Ok (), k\<lparr>os_open := filter (\<lambda>x. x \<noteq> n) (os_open k)\<rparr>)
                  else (Err ErrClosed, k))"

definition file_write :: "nat option \<Rightarrow> string \<Rightarrow> 'm os \<Rightarrow> unit go \<times> 'm os" where
  "file_write f p k =
     (case f of
        None \<Rightarrow> (Err ErrInvalid, k)
      | Some n \<Rightarrow> if n \<in> set (os_open k) then (Ok (), k\<lparr>os_written := os_written k @ [(n, p)]\<rparr>)
                  else (Err ErrClosed, k))"

definition os_ok :: "'m os \<Rightarrow> bool" where
  "os_ok k \<longleftrightarrow> distinct (os_open k) \<and> list_all (\<lambda>f. f < os_next k) (os_open k)"

section \<open>Pipes\<close>

record pipes =
  StdoutPipe :: "nat option"
  StderrPipe :: "nat option"
  StdinPipe :: "nat option"
  descriptors :: "nat list"

definition no_pipes :: pipes where
  "no_pipes = \<lparr>StdoutPipe = None, StderrPipe = None, StdinPipe = None, descriptors = []\<rparr>"

definition os_pipe :: "pipes \<Rightarrow> 'm os \<Rightarrow> (nat \<times> nat) go \<times> pipes \<times> 'm os" where
  "os_pipe p k =
     (case os_Pipe k of
        (Ok (pr, pw), k1) \<Rightarrow> (Ok (pr, pw), p\<lparr>descriptors := descriptors p @ [pw, pr]\<rparr>, k1)
      | (Err e, k1) \<Rightarrow> (Err e, p, k1)
      | (Panic m, k1) \<Rightarrow> (Panic m, p, k1))"

text \<open>When the pipe cannot be made, the assignment clears the field.\<close>

definition pipes_stdout :: "pipes \<Rightarrow> 'm os \<Rightarrow> nat go \<times> pipes \<times> 'm os" where
  "pipes_stdout p k =
     (case os_pipe p k of
        (Ok (stdout, w), p1, k1) \<Rightarrow> (Ok stdout, p1\<lparr>StdoutPipe := Some w\<rparr>, k1)
      | (Err e, p1, k1) \<Rightarrow> (Err e, p1\<lparr>StdoutPipe := None\<rparr>, k1)
      | (Panic m, p1, k1) \<Rightarrow> (Panic m, p1, k1))"

definition pipes_stderr :: "pipes \<Rightarrow> 'm os \<Rightarrow> nat go \<times> pipes \<times> 'm os" where
  "pipes_stderr p k =
     (case os_pipe p k of
        (Ok (stderr, w), p1, k1) \<Rightarrow> (Ok stderr, p1\<lparr>StderrPipe := Some w\<rparr>, k1)
      | (Err e, p1, k1) \<Rightarrow> (Err e, p1\<lparr>StderrPipe := None\<rparr>, k1)
      | (Panic m, p1, k1) \<Rightarrow> (Panic m, p1, k1))"

definition pipes_stdin :: "pipes \<Rightarrow> 'm os \<Rightarrow> nat go \<times> pipes \<times> 'm os" where
  "pipes_stdin p k =
     (case os_pipe p k of
        (Ok (r, stdin), p1, k1) \<Rightarrow> (Ok stdin, p1\<lparr>StdinPipe := Some r\<rparr>, k1)
      | (Err e, p1, k1) \<Rightarrow> (Err e, p1\<lparr>StdinPipe := None\<rparr>, k1)
      | (Panic m, p1, k1) \<Rightarrow> (Panic m, p1, k1))"

fun close_all :: "nat list \<Rightarrow> 'm os \<Rightarrow> 'm os" where
  "close_all [] k = k"
| "close_all (d # ds) k = close_all ds (snd (file_close (Some d) k))"

definition close_pipes :: "pipes \<Rightarrow> 'm os \<Rightarrow> pipes \<times> 'm os" where
  "close_pipes p k = (p\<lparr>descriptors := []\<rparr>, close_all (descriptors p) k)"

text \<open>Any sequence of the three operations, errors ignored.\<close>

datatype pipe_op = OpStdout | OpStderr | OpStdin

fun pipe_apply :: "pipe_op \<Rightarrow> pipes \<Rightarrow> 'm os \<Rightarrow> nat go \<times> pipes \<times> 'm os" where
  "pipe_apply OpStdout p k = pipes_stdout p k"
| "pipe_apply OpStderr p k = pipes_stderr p k"
| "pipe_apply OpStdin p k = pipes_stdin p k"

fun pipe_run :: "pipe_op list \<Rightarrow> pipes \<Rightarrow> 'm os \<Rightarrow> pipes \<times> 'm os" where
  "pipe_run [] p k = (p, k)"
| "pipe_run (a # as) p k = (let (r, p1, k1) = pipe_apply a p k in pipe_run as p1 k1)"

section \<open>Terminals\<close>

record 'm terminal =
  t_file :: "nat option"
  t_fd :: nat
  isTerminal :: bool
  t_state :: "'m option"

record 'm pair =
  p_pty :: "'m terminal option"
  p_tty :: "'m terminal option"

definition zero_pair :: "'m pair" where
  "zero_pair = \<lparr>p_pty = None, p_tty = None\<rparr>"

text \<open>
  \<open>SetRawTerminal\<close> gives the state to restore later, and nil with an error.  A window size
  is set without looking at the error.
\<close>

record 'm tty_lib =
  GetFdInfo :: "nat option \<Rightarrow> 'm os \<Rightarrow> nat \<times> bool"
  SetRawTerminal :: "nat \<Rightarrow> 'm os \<Rightarrow> 'm go \<times> 'm os"
  RestoreTerminal :: "nat \<Rightarrow> 'm \<Rightarrow> 'm os \<Rightarrow> unit go \<times> 'm os"
  SetWinsize :: "nat \<Rightarrow> win_size \<Rightarrow> 'm os \<Rightarrow> 'm os"
  pty_Open :: "'m os \<Rightarrow> (nat \<times> nat) go \<times> 'm os"

definition new_terminal :: "'m tty_lib \<Rightarrow> nat option \<Rightarrow> 'm os \<Rightarrow> 'm terminal" where
  "new_terminal lib file k =
     (let (fd, ist) = GetFdInfo lib file k
      in \<lparr>t_file = file, t_fd = fd, isTerminal = ist, t_state = None\<rparr>)"

definition terminal_file :: "'m terminal option \<Rightarrow> nat option" where
  "terminal_file t = (case t of None \<Rightarrow> None | Some t \<Rightarrow> t_file t)"

definition terminal_close :: "'m terminal option \<Rightarrow> 'm os \<Rightarrow> unit go \<times> 'm os" where
  "terminal_close t k =
     (case t of
        None \<Rightarrow> (Ok (), k)
      | Some t \<Rightarrow> if t_file t = None then (Ok (), k) else file_close (t_file t) k)"

definition terminal_raw_mode ::
  "'m tty_lib \<Rightarrow> 'm terminal option \<Rightarrow> 'm os \<Rightarrow> unit go \<times> 'm terminal option \<times> 'm os" where
  "terminal_raw_mode lib t k =
     (case t of
        None \<Rightarrow> (Ok (), None, k)
      | Some t \<Rightarrow>
          if \<not> isTerminal t \<or> t_state t \<noteq> None then (Ok (), Some t, k)
          else (case SetRawTerminal lib (t_fd t) k of
                  (Ok st, k1) \<Rightarrow> (Ok (), Some (t\<lparr>t_state := Some st\<rparr>), k1)
                | (Err e, k1) \<Rightarrow> (Err e, Some (t\<lparr>t_state := None\<rparr>), k1)
                | (Panic m, k1) \<Rightarrow> (Panic m, Some t, k1)))"

text \<open>The deferred function wipes the saved state whatever \<open>RestoreTerminal\<close> returns.\<close>

definition terminal_restore_mode ::
  "'m tty_lib \<Rightarrow> 'm terminal option \<Rightarrow> 'm os \<Rightarrow> unit go \<times> 'm terminal option \<times> 'm os" where
  "terminal_restore_mode lib t k =
     (case t of
        None \<Rightarrow> (Ok (), None, k)
      | Some t \<Rightarrow>
          (case t_state t of
             None \<Rightarrow> (Ok (), Some t, k)
           | Some st \<Rightarrow> (let (r, k1) = RestoreTerminal lib (t_fd t) st k in (r, Some (t\<lparr>t_state := None\<rparr>), k1))))"

definition terminal_resize :: "'m tty_lib \<Rightarrow> 'm terminal option \<Rightarrow> win_size \<Rightarrow> 'm os \<Rightarrow> unit go \<times> 'm os" where
  "terminal_resize lib t sz k =
     (case t of
        None \<Rightarrow> (Panic ''nil pointer dereference'', k)
      | Some t \<Rightarrow> if \<not> isTerminal t then (Ok (), k) else (Ok (), SetWinsize lib (t_fd t) sz k))"

section \<open>Pairs\<close>

definition pair_use :: "'m tty_lib \<Rightarrow> nat option \<Rightarrow> 'm pair \<Rightarrow> 'm os \<Rightarrow> 'm pair" where
  "pair_use lib pty p k = p\<lparr>p_pty := Some (new_terminal lib pty k), p_tty := None\<rparr>"

text \<open>\<open>RawMode\<close> ignores both errors.\<close>

definition pair_raw_mode :: "'m tty_lib \<Rightarrow> 'm pair \<Rightarrow> 'm os \<Rightarrow> 'm pair \<times> 'm os" where
  "pair_raw_mode lib p k =
     (let (r1, pty, k1) = terminal_raw_mode lib (p_pty p) k;
          (r2, tty, k2) = terminal_raw_mode lib (p_tty p) k1
      in (\<lparr>p_pty = pty, p_tty = tty\<rparr>, k2))"

definition pair_open :: "'m tty_lib \<Rightarrow> bool \<Rightarrow> 'm pair \<Rightarrow> 'm os \<Rightarrow> unit go \<times> 'm pair \<times> 'm os" where
  "pair_open lib rawMode p k =
     (case pty_Open lib k of
        (Ok (pty, tty), k1) \<Rightarrow>
          (let p1 = \<lparr>p_pty = Some (new_terminal lib (Some pty) k1), p_tty = Some (new_terminal lib (Some tty) k1)\<rparr>;
               (p2, k2) = (if rawMode then pair_raw_mode lib p1 k1 else (p1, k1))
           in (Ok (), p2, k2))
      | (Err e, k1) \<Rightarrow> (Err e, p, k1)
      | (Panic m, k1) \<Rightarrow> (Panic m, p, k1))"

text \<open>
  The goroutine of \<open>HandleWith\<close>: the events come from the channel in order, and the effect
  works on a state of its own.
\<close>

fun handle_events ::
  "'m tty_lib \<Rightarrow> 'm pair \<Rightarrow> (win_size \<Rightarrow> 'e \<Rightarrow> 'e) option \<Rightarrow> win_size list \<Rightarrow> 'm os \<times> 'e \<Rightarrow> unit go \<times> 'm os \<times> 'e" where
  "handle_events lib p effect [] (k, x) = (Ok (), k, x)"
| "handle_events lib p effect (ev # evs) (k, x) =
     (case terminal_resize lib (p_pty p) ev k of
        (Ok u, k1) \<Rightarrow> handle_events lib p effect evs (k1, case effect of None \<Rightarrow> x | Some f \<Rightarrow> f ev x)
      | (r, k1) \<Rightarrow> (r, k1, x))"

definition handle_with ::
  "'m tty_lib \<Rightarrow> 'm pair \<Rightarrow> win_size list option \<Rightarrow> (win_size \<Rightarrow> 'e \<Rightarrow> 'e) option \<Rightarrow> 'm os \<times> 'e \<Rightarrow> unit go \<times> 'm os \<times> 'e" where
  "handle_with lib p events effect s =
     (case events of None \<Rightarrow> (Ok (), s) | Some evs \<Rightarrow> handle_events lib p effect evs s)"

definition pair_handle :: "'m tty_lib \<Rightarrow> 'm pair \<Rightarrow> win_size list option \<Rightarrow> 'm os \<times> 'e \<Rightarrow> unit go \<times> 'm os \<times> 'e" where
  "pair_handle lib p events s = handle_with lib p events None s"

definition external :: "'m pair option \<Rightarrow> nat option" where
  "external p = (case p of None \<Rightarrow> None | Some p \<Rightarrow> terminal_file (p_pty p))"

definition internal :: "'m pair option \<Rightarrow> nat option" where
  "internal p = (case p of None \<Rightarrow> None | Some p \<Rightarrow> terminal_file (p_tty p))"

text \<open>Errors are ignored, and a panic would be recovered.\<close>

definition unhang_hack :: "'m pair option \<Rightarrow> 'm os \<Rightarrow> 'm os" where
  "unhang_hack p k = snd (file_write (external p) [CHR 0x03, CHR 0x04, nl] k)"

definition pair_restore_mode :: "'m tty_lib \<Rightarrow> 'm pair option \<Rightarrow> 'm os \<Rightarrow> 'm pair option \<times> 'm os" where
  "pair_restore_mode lib p k =
     (case p of
        None \<Rightarrow> (None, k)
      | Some p \<Rightarrow>
          (let (r1, tty, k1) = terminal_restore_mode lib (p_tty p) k;
               (r2, pty, k2) = terminal_restore_mode lib (p_pty p) k1
           in (Some \<lparr>p_pty = pty, p_tty = tty\<rparr>, k2)))"

definition pair_close :: "'m tty_lib \<Rightarrow> 'm pair option \<Rightarrow> 'm os \<Rightarrow> 'm pair option \<times> 'm os" where
  "pair_close lib p k =
     (case p of
        None \<Rightarrow> (None, k)
      | Some p0 \<Rightarrow>
          (case pair_restore_mode lib (Some p0) k of
             (Some p1, k1) \<Rightarrow>
               (let k2 = snd (terminal_close (p_tty p1) k1);
                    k3 = snd (terminal_close (p_pty p1) k2)
                in (Some p1, k3))
           | (None, k1) \<Rightarrow> (None, k1)))"

section \<open>Lemmas\<close>

text \<open>Every pipe end that is open belongs to the table of descriptors of the pipes that made it.\<close>

lemma os_Pipe_cases:
  obtains (made) pr pw where "os_Pipe k = (Ok (pr, pw),
       k\<lparr>os_next := Suc (Suc (os_next k)), os_open := os_open k @ [pr, pw]\<rparr>)"
      "pr = os_next k" "pw = Suc (os_next k)"
  | (full) "os_Pipe k = (Err EMFILE, k)"
  by (cases "length (os_open k) + 2 \<le> os_limit k") (auto simp: os_Pipe_def)

lemma close_all_open: "os_open (close_all ds k) = filter (\<lambda>f. f \<notin> set ds) (os_open k)"
proof (induction ds arbitrary: k)
  case (Cons d ds)
  have "os_open (snd (file_close (Some d) k)) = filter (\<lambda>f. f \<noteq> d) (os_open k)"
    by (cases "d \<in> set (os_open k)") (auto simp: file_close_def filter_id_conv eq_commute [of "os_open k"])
  with Cons.IH [of "snd (file_close (Some d) k)"] show ?case
    by simp
qed simp

lemma close_all_keeps: "os_next (close_all ds k) = os_next k" "os_mode (close_all ds k) = os_mode k"
  by (induction ds arbitrary: k) (auto simp: file_close_def)

definition pipes_inv :: "nat list \<Rightarrow> pipes \<Rightarrow> 'm os \<Rightarrow> bool" where
  "pipes_inv files p k \<longleftrightarrow> os_ok k \<and> filter (\<lambda>f. f \<notin> set (descriptors p)) (os_open k) = files \<and>
     list_all (\<lambda>f. f < os_next k) files"

lemma os_okD: "os_ok k \<Longrightarrow> f \<in> set (os_open k) \<Longrightarrow> f < os_next k" "os_ok k \<Longrightarrow> distinct (os_open k)"
  by (auto simp: os_ok_def list_all_iff)

lemma os_pipe_inv:
  assumes "pipes_inv files p k" and "os_pipe p k = (r, p', k')" and "list_all (\<lambda>f. f < os_next k) (descriptors p)"
  shows "pipes_inv files p' k' \<and> list_all (\<lambda>f. f < os_next k') (descriptors p')"
proof (cases k rule: os_Pipe_cases)
  case (made pr pw)
  with assms(2) have p': "p' = p\<lparr>descriptors := descriptors p @ [pw, pr]\<rparr>"
    and k': "k' = k\<lparr>os_next := Suc (Suc (os_next k)), os_open := os_open k @ [pr, pw]\<rparr>"
    by (auto simp: os_pipe_def)
  from assms(1) have ok: "os_ok k" and f: "filter (\<lambda>f. f \<notin> set (descriptors p)) (os_open k) = files"
    and b: "list_all (\<lambda>f. f < os_next k) files"
    by (auto simp: pipes_inv_def)
  have "os_next k \<notin> set (os_open k)" "Suc (os_next k) \<notin> set (os_open k)"
    using os_okD(1) [OF ok] by force+
  then have "filter (\<lambda>f. f \<notin> set (descriptors p')) (os_open k') =
      filter (\<lambda>f. f \<notin> set (descriptors p)) (os_open k)"
    using p' k' made(2,3) by (auto intro!: filter_cong)
  moreover have "os_ok k'" using ok k' made(2,3) os_okD(1) [OF ok]
    by (auto simp: os_ok_def list_all_iff dest: less_SucI)
  ultimately show ?thesis using f b p' k' made(2,3) assms(3)
    by (auto simp: pipes_inv_def list_all_iff less_SucI)
next
  case full
  with assms show ?thesis by (auto simp: os_pipe_def)
qed

lemma pipe_apply_inv:
  assumes "pipes_inv files p k" and "list_all (\<lambda>f. f < os_next k) (descriptors p)"
    and "pipe_apply a p k = (r, p', k')"
  shows "pipes_inv files p' k' \<and> list_all (\<lambda>f. f < os_next k') (descriptors p')"
proof -
  obtain q p1 k1 where one: "os_pipe p k = (q, p1, k1)" by (cases "os_pipe p k")
  from assms(3) one have "descriptors p' = descriptors p1" "k' = k1"
    by (cases a; auto simp: pipes_stdout_def pipes_stderr_def pipes_stdin_def split: go.splits)+
  with os_pipe_inv [OF assms(1) one assms(2)] show ?thesis by (simp add: pipes_inv_def)
qed

lemma pipe_run_inv:
  "pipes_inv files p k \<Longrightarrow> list_all (\<lambda>f. f < os_next k) (descriptors p) \<Longrightarrow>
     pipe_run as p k = (p', k') \<Longrightarrow> pipes_inv files p' k'"
proof (induction as arbitrary: p k)
  case (Cons a as)
  obtain r p1 k1 where one: "pipe_apply a p k = (r, p1, k1)" by (cases "pipe_apply a p k")
  with Cons.prems(3) have "pipe_run as p1 k1 = (p', k')" by simp
  with Cons.IH pipe_apply_inv [OF Cons.prems(1,2) one] show ?case by blast
qed simp

lemma pipes_safe:
  "\<not> is_panic (fst (pipes_stdout p k))" "\<not> is_panic (fst (pipes_stderr p k))" "\<not> is_panic (fst (pipes_stdin p k))"
  by (simp_all add: pipes_stdout_def pipes_stderr_def pipes_stdin_def os_pipe_def os_Pipe_def)

definition open_safe :: "'m tty_lib \<Rightarrow> bool" where
  "open_safe lib \<longleftrightarrow> (\<forall>k. \<not> is_panic (fst (pty_Open lib k)))"

lemma pair_open_safe:
  assumes "open_safe lib"
  shows "\<not> is_panic (fst (pair_open lib raw p k))"
proof -
  from assms have "\<not> is_panic (fst (pty_Open lib k))" by (simp add: open_safe_def)
  then show ?thesis
    by (cases "pty_Open lib k"; cases "fst (pty_Open lib k)") (auto simp: pair_open_def Let_def split: prod.splits)
qed

text \<open>
  The documented behaviour of the terminal calls: \<open>SetRawTerminal\<close> returns the mode that the
  descriptor had and changes the mode of that descriptor only, \<open>RestoreTerminal\<close> sets a
  descriptor's mode, and none of them touches the table of files.
\<close>

definition raw_ok :: "'m tty_lib \<Rightarrow> nat \<Rightarrow> 'm os \<Rightarrow> bool" where
  "raw_ok lib fd k \<longleftrightarrow> (case SetRawTerminal lib fd k of
     (Ok st, k') \<Rightarrow> st = os_mode k fd \<and> (\<exists>m. k' = k\<lparr>os_mode := (os_mode k)(fd := m)\<rparr>)
   | (Err e, k') \<Rightarrow> k' = k
   | (Panic m, k') \<Rightarrow> False)"

definition restore_ok :: "'m tty_lib \<Rightarrow> nat \<Rightarrow> 'm \<Rightarrow> 'm os \<Rightarrow> bool" where
  "restore_ok lib fd st k \<longleftrightarrow> (case RestoreTerminal lib fd st k of
     (Ok u, k') \<Rightarrow> k' = k\<lparr>os_mode := (os_mode k)(fd := st)\<rparr>
   | (Err e, k') \<Rightarrow> k' = k
   | (Panic m, k') \<Rightarrow> False)"

definition tty_ok :: "'m tty_lib \<Rightarrow> bool" where
  "tty_ok lib \<longleftrightarrow> (\<forall>fd k. raw_ok lib fd k) \<and> (\<forall>fd st k. restore_ok lib fd st k)"

lemma tty_raw:
  assumes "tty_ok lib"
  obtains (ok) m where "SetRawTerminal lib fd k = (Ok (os_mode k fd), k\<lparr>os_mode := (os_mode k)(fd := m)\<rparr>)"
  | (err) e where "SetRawTerminal lib fd k = (Err e, k)"
proof -
  from assms have "raw_ok lib fd k" by (simp add: tty_ok_def)
  with ok err show thesis by (auto simp: raw_ok_def split: prod.splits go.splits)
qed

lemma tty_restore:
  assumes "tty_ok lib"
  obtains (ok) "RestoreTerminal lib fd st k = (Ok (), k\<lparr>os_mode := (os_mode k)(fd := st)\<rparr>)"
  | (err) e where "RestoreTerminal lib fd st k = (Err e, k)"
proof -
  from assms have "restore_ok lib fd st k" by (simp add: tty_ok_def)
  with ok err show thesis by (auto simp: restore_ok_def split: prod.splits go.splits)
qed

lemma raw_mode_effect:
  assumes "tty_ok lib" and "terminal_raw_mode lib (Some t) k = (r, t', k')"
  shows "\<exists>st. t' = Some (t\<lparr>t_state := st\<rparr>) \<and> (\<exists>m. k' = k\<lparr>os_mode := m\<rparr> \<and>
     (\<forall>fd. fd \<noteq> t_fd t \<longrightarrow> m fd = os_mode k fd) \<and>
     (t_state t = None \<longrightarrow> (st = None \<and> m = os_mode k) \<or> st = Some (os_mode k (t_fd t))) \<and>
     (t_state t \<noteq> None \<longrightarrow> st = t_state t \<and> m = os_mode k))"
proof (cases "isTerminal t \<and> t_state t = None")
  case True
  from assms(1) show ?thesis
  proof (cases rule: tty_raw [where fd = "t_fd t" and k = k])
    case (ok m)
    with True assms(2) show ?thesis
      by (auto simp: terminal_raw_mode_def intro!: exI [of _ "(os_mode k)(t_fd t := m)"])
  next
    case (err e)
    with True assms(2) show ?thesis
      by (auto simp: terminal_raw_mode_def intro!: exI [of _ "os_mode k"])
  qed
next
  case False
  with assms(2) show ?thesis
    by (auto simp: terminal_raw_mode_def intro!: exI [of _ "t_state t"] exI [of _ "os_mode k"])
qed

lemma restore_mode_effect:
  assumes "tty_ok lib" and "terminal_restore_mode lib t k = (r, t', k')"
  shows "t' = map_option (\<lambda>t. t\<lparr>t_state := None\<rparr>) t \<and>
     (k' = k \<or> (\<exists>t0 st. t = Some t0 \<and> t_state t0 = Some st \<and> k' = k\<lparr>os_mode := (os_mode k)(t_fd t0 := st)\<rparr>)) \<and>
     (r = Ok () \<longrightarrow> k' = (case t of Some t0 \<Rightarrow> (case t_state t0 of Some st \<Rightarrow>
        k\<lparr>os_mode := (os_mode k)(t_fd t0 := st)\<rparr> | None \<Rightarrow> k) | None \<Rightarrow> k))"
proof (cases t)
  case None
  with assms(2) show ?thesis by (simp add: terminal_restore_mode_def)
next
  case (Some t0)
  show ?thesis
  proof (cases "t_state t0")
    case None
    with Some assms(2) show ?thesis by (auto simp: terminal_restore_mode_def)
  next
    case (Some st)
    with \<open>t = Some t0\<close> assms(2) show ?thesis
      by (cases rule: tty_restore [OF assms(1), of "t_fd t0" st k]) (auto simp: terminal_restore_mode_def)
  qed
qed

lemma terminal_file_upd [simp]: "terminal_file (map_option (\<lambda>t. t\<lparr>t_state := None\<rparr>) t) = terminal_file t"
  by (cases t) (simp_all add: terminal_file_def)

lemma terminal_close_open:
  "os_open (snd (terminal_close t k)) = filter (\<lambda>f. terminal_file t \<noteq> Some f) (os_open k)"
  by (auto simp: terminal_close_def terminal_file_def file_close_def filter_id_conv
      eq_commute [of "os_open k"] intro!: filter_cong split: option.splits)

lemma terminal_close_closed: "(\<And>f. terminal_file t = Some f \<Longrightarrow> f \<notin> set (os_open k)) \<Longrightarrow> snd (terminal_close t k) = k"
  by (auto simp: terminal_close_def terminal_file_def file_close_def split: option.splits)

lemma restore_mode_frame:
  assumes "tty_ok lib" and "terminal_restore_mode lib t k = (r, t', k')"
  shows "t' = map_option (\<lambda>t. t\<lparr>t_state := None\<rparr>) t" and "os_open k' = os_open k"
proof -
  note e = restore_mode_effect [OF assms]
  from e show "t' = map_option (\<lambda>t. t\<lparr>t_state := None\<rparr>) t" by (rule conjunct1)
  from e have "k' = k \<or> (\<exists>t0 st. t = Some t0 \<and> t_state t0 = Some st \<and> k' = k\<lparr>os_mode := (os_mode k)(t_fd t0 := st)\<rparr>)"
    by (elim conjE)
  then show "os_open k' = os_open k" by (elim disjE exE conjE) simp_all
qed

lemma restored_again: "terminal_restore_mode lib (map_option (\<lambda>t. t\<lparr>t_state := None\<rparr>) t) k =
    (Ok (), map_option (\<lambda>t. t\<lparr>t_state := None\<rparr>) t, k)"
  by (cases t) (simp_all add: terminal_restore_mode_def)

text \<open>What is saved and what the modes are, after any number of \<open>RawMode\<close> calls.\<close>

definition raw_saved :: "'m terminal \<Rightarrow> 'm terminal \<Rightarrow> 'm os \<Rightarrow> 'm pair \<Rightarrow> 'm os \<Rightarrow> bool" where
  "raw_saved a b k p1 k1 \<longleftrightarrow>
     (\<exists>sa sb m. p1 = \<lparr>p_pty = Some (a\<lparr>t_state := sa\<rparr>), p_tty = Some (b\<lparr>t_state := sb\<rparr>)\<rparr> \<and>
        k1 = k\<lparr>os_mode := m\<rparr> \<and>
        (\<forall>fd. fd \<noteq> t_fd a \<longrightarrow> fd \<noteq> t_fd b \<longrightarrow> m fd = os_mode k fd) \<and>
        ((sa = None \<and> m (t_fd a) = os_mode k (t_fd a)) \<or> sa = Some (os_mode k (t_fd a))) \<and>
        ((sb = None \<and> m (t_fd b) = os_mode k (t_fd b)) \<or> sb = Some (os_mode k (t_fd b))))"

lemma raw_mode_saved:
  assumes "tty_ok lib" and "t_fd a \<noteq> t_fd b" and "raw_saved a b k p1 k1" and "pair_raw_mode lib p1 k1 = (p2, k2)"
  shows "raw_saved a b k p2 k2"
proof -
  from assms(3) obtain sa sb m where p1: "p1 = \<lparr>p_pty = Some (a\<lparr>t_state := sa\<rparr>), p_tty = Some (b\<lparr>t_state := sb\<rparr>)\<rparr>"
    and k1: "k1 = k\<lparr>os_mode := m\<rparr>"
    and m: "\<forall>fd. fd \<noteq> t_fd a \<longrightarrow> fd \<noteq> t_fd b \<longrightarrow> m fd = os_mode k fd"
    and sa: "(sa = None \<and> m (t_fd a) = os_mode k (t_fd a)) \<or> sa = Some (os_mode k (t_fd a))"
    and sb: "(sb = None \<and> m (t_fd b) = os_mode k (t_fd b)) \<or> sb = Some (os_mode k (t_fd b))"
    unfolding raw_saved_def by blast
  obtain r1 t1 l1 where one: "terminal_raw_mode lib (Some (a\<lparr>t_state := sa\<rparr>)) k1 = (r1, t1, l1)"
    by (metis prod.exhaust)
  obtain r2 t2 l2 where two: "terminal_raw_mode lib (Some (b\<lparr>t_state := sb\<rparr>)) l1 = (r2, t2, l2)"
    by (metis prod.exhaust)
  from raw_mode_effect [OF assms(1) one] obtain sa' m' where t1: "t1 = Some (a\<lparr>t_state := sa'\<rparr>)"
    and l1: "l1 = k\<lparr>os_mode := m'\<rparr>" and m': "\<forall>fd. fd \<noteq> t_fd a \<longrightarrow> m' fd = m fd"
    and sa': "sa = None \<longrightarrow> (sa' = None \<and> m' = m) \<or> sa' = Some (m (t_fd a))" "sa \<noteq> None \<longrightarrow> sa' = sa \<and> m' = m"
    using k1 by auto
  from raw_mode_effect [OF assms(1) two] obtain sb' m2 where t2: "t2 = Some (b\<lparr>t_state := sb'\<rparr>)"
    and l2: "l2 = k\<lparr>os_mode := m2\<rparr>" and m2: "\<forall>fd. fd \<noteq> t_fd b \<longrightarrow> m2 fd = m' fd"
    and sb': "sb = None \<longrightarrow> (sb' = None \<and> m2 = m') \<or> sb' = Some (m' (t_fd b))" "sb \<noteq> None \<longrightarrow> sb' = sb \<and> m2 = m'"
    using l1 by auto
  from assms(4) p1 one two have "p2 = \<lparr>p_pty = t1, p_tty = t2\<rparr>" "k2 = l2"
    by (auto simp: pair_raw_mode_def)
  moreover have "(sa' = None \<and> m2 (t_fd a) = os_mode k (t_fd a)) \<or> sa' = Some (os_mode k (t_fd a))"
    using sa sa' m2 assms(2) by (cases sa) auto
  moreover have "(sb' = None \<and> m2 (t_fd b) = os_mode k (t_fd b)) \<or> sb' = Some (os_mode k (t_fd b))"
    using sb sb' m' assms(2) by (cases sb) auto
  moreover have "\<forall>fd. fd \<noteq> t_fd a \<longrightarrow> fd \<noteq> t_fd b \<longrightarrow> m2 fd = os_mode k fd"
    using m m' m2 by simp
  ultimately show ?thesis unfolding raw_saved_def using t1 t2 l2 by blast
qed

fun raw_mode_times :: "'m tty_lib \<Rightarrow> nat \<Rightarrow> 'm pair \<Rightarrow> 'm os \<Rightarrow> 'm pair \<times> 'm os" where
  "raw_mode_times lib 0 p k = (p, k)"
| "raw_mode_times lib (Suc n) p k = (let (p1, k1) = pair_raw_mode lib p k in raw_mode_times lib n p1 k1)"

lemma raw_mode_times_saved:
  assumes "tty_ok lib" and "t_fd a \<noteq> t_fd b"
  shows "raw_saved a b k p1 k1 \<Longrightarrow> raw_mode_times lib n p1 k1 = (p2, k2) \<Longrightarrow> raw_saved a b k p2 k2"
proof (induction n arbitrary: p1 k1)
  case (Suc n)
  obtain p3 k3 where one: "pair_raw_mode lib p1 k1 = (p3, k3)" by (metis prod.exhaust)
  with Suc.prems(2) have "raw_mode_times lib n p3 k3 = (p2, k2)" by simp
  with Suc.IH raw_mode_saved [OF assms Suc.prems(1) one] show ?case by blast
qed simp

section \<open>Properties\<close>

text \<open>A kernel and its terminal calls, for the examples: mode 1 is raw.\<close>

definition toy_tty :: "nat tty_lib" where
  "toy_tty =
     \<lparr>GetFdInfo = (\<lambda>f k. (case f of None \<Rightarrow> 0 | Some n \<Rightarrow> n, True)),
      SetRawTerminal = (\<lambda>fd k. (Ok (os_mode k fd), k\<lparr>os_mode := (os_mode k)(fd := 1)\<rparr>)),
      RestoreTerminal = (\<lambda>fd st k. (Ok (), k\<lparr>os_mode := (os_mode k)(fd := st)\<rparr>)),
      SetWinsize = (\<lambda>fd sz k. k\<lparr>os_size := (os_size k)(fd \<mapsto> sz)\<rparr>),
      pty_Open = os_Pipe\<rparr>"

definition toy_os :: "nat os" where
  "toy_os = \<lparr>os_next = 3, os_limit = 20, os_open = [0, 1, 2], os_mode = (\<lambda>_. 7), os_size = (\<lambda>_. None), os_written = []\<rparr>"

lemma toy_tty_ok: "tty_ok toy_tty"
  by (auto simp: tty_ok_def raw_ok_def restore_ok_def toy_tty_def)



text \<open>
  \<open>Close\<close> closes exactly the files of the pair, can be repeated without effect (no file
  is closed twice and no terminal restored twice), and does nothing on a nil pair.
\<close>

theorem pair_close_once:
  assumes "tty_ok lib" and "pair_close lib p k = (p', k')"
  shows "os_open k' = filter (\<lambda>f. external p \<noteq> Some f \<and> internal p \<noteq> Some f) (os_open k) \<and>
    pair_close lib p' k' = (p', k') \<and> (p = None \<longrightarrow> k' = k)"
proof (cases p)
  case None
  with assms(2) show ?thesis by (simp add: pair_close_def external_def internal_def)
next
  case (Some q)
  obtain r1 tty k1 where one: "terminal_restore_mode lib (p_tty q) k = (r1, tty, k1)"
    by (metis prod.exhaust)
  obtain r2 pty k2 where two: "terminal_restore_mode lib (p_pty q) k1 = (r2, pty, k2)"
    by (metis prod.exhaust)
  note e1 = restore_mode_frame [OF assms(1) one] and e2 = restore_mode_frame [OF assms(1) two]
  let ?k3 = "snd (terminal_close tty k2)"
  from Some one two assms(2) have p': "p' = Some \<lparr>p_pty = pty, p_tty = tty\<rparr>" and k': "k' = snd (terminal_close pty ?k3)"
    by (auto simp: pair_close_def pair_restore_mode_def Let_def)
  have opened: "os_open k' = filter (\<lambda>f. external p \<noteq> Some f \<and> internal p \<noteq> Some f) (os_open k)"
    by (simp add: k' terminal_close_open external_def internal_def Some e1 e2 conj_commute)
  have closed: "snd (terminal_close pty k') = k'" "snd (terminal_close tty k') = k'"
    by (rule terminal_close_closed; simp add: opened external_def internal_def Some e1(1) e2(1))+
  have "pair_close lib p' k' = (p', k')"
    using restored_again [of lib "p_tty q" k'] restored_again [of lib "p_pty q" k'] closed
    by (simp add: p' pair_close_def pair_restore_mode_def e1(1) e2(1) split_beta)
  with opened Some show ?thesis by simp
qed

theorem pair_close_once_witness:
  "let p = Some \<lparr>p_pty = Some \<lparr>t_file = Some 1, t_fd = 1, isTerminal = True, t_state = None\<rparr>, p_tty = None\<rparr>
   in os_open (snd (pair_close toy_tty p toy_os)) = [0, 2]"
proof -
  let ?p = "Some \<lparr>p_pty = Some \<lparr>t_file = Some 1, t_fd = 1, isTerminal = True, t_state = None\<rparr>, p_tty = None\<rparr> :: nat pair option"
  obtain p' k' where run: "pair_close toy_tty ?p toy_os = (p', k')" by (metis prod.exhaust)
  from pair_close_once [OF toy_tty_ok run] have "os_open k' = [0, 2]"
    by (simp add: toy_os_def external_def internal_def terminal_file_def)
  with run show ?thesis by (simp add: Let_def)
qed

text \<open>
  C29.  Pipes do not leak descriptors: whatever sequence of \<open>Stdout\<close>, \<open>Stderr\<close> and
  \<open>Stdin\<close> calls is made on empty pipes, of which some may fail for lack of descriptors,
  \<open>ClosePipes\<close> leaves exactly the files open that were open before.
\<close>

theorem close_pipes_closes_all:
  assumes "os_ok k" and "pipe_run as no_pipes k = (p, k1)"
  shows "os_open (snd (close_pipes p k1)) = os_open k \<and> descriptors (fst (close_pipes p k1)) = []"
proof -
  have "pipes_inv (os_open k) no_pipes k"
    using assms(1) by (simp add: pipes_inv_def no_pipes_def os_ok_def)
  from pipe_run_inv [OF this _ assms(2)] have "pipes_inv (os_open k) p k1" by (simp add: no_pipes_def)
  then show ?thesis by (simp add: close_pipes_def close_all_open pipes_inv_def)
qed

theorem close_pipes_closes_all_witness:
  "let (p, k1) = pipe_run [OpStdout, OpStderr, OpStdin] no_pipes toy_os
   in os_open k1 = [0, 1, 2, 3, 4, 5, 6, 7, 8] \<and> os_open (snd (close_pipes p k1)) = [0, 1, 2]"
proof -
  have ok: "os_ok toy_os" by (simp add: os_ok_def toy_os_def)
  obtain p k1 where run: "pipe_run [OpStdout, OpStderr, OpStdin] no_pipes toy_os = (p, k1)" by (metis prod.exhaust)
  then have "os_open k1 = [0, 1, 2, 3, 4, 5, 6, 7, 8]"
    by (auto simp: pipes_stdout_def pipes_stderr_def pipes_stdin_def os_pipe_def os_Pipe_def no_pipes_def toy_os_def)
  with close_pipes_closes_all [OF ok run] run show ?thesis by (simp add: toy_os_def)
qed

end
