(* ===== verification/Session.thy ===== *)
theory Session
  imports Term "HOL-Library.Sublist"
begin

text \<open>
  \<open>session.go\<close>: a session runs a process.  The goroutine that calls \<open>Run\<close>, the goroutine
  that watches the context, the goroutines that copy streams and the one that cleans the
  process up are the steps of \<open>session_step\<close>; \<open>finalize\<close>, which the first two race for, is
  one function with one atomic action per call.

  The process is any implementation of the interface \<open>Process\<close>: what its methods return is
  part of the step's label, and the detector it is handed may be used by it at any time for names
  of its own.  A panic in any goroutine ends the server: no step is enabled after it.
\<close>

section \<open>State\<close>

text \<open>Where a call of \<open>finalize\<close> stands, and its arguments; \<open>FinLost\<close> has not got the lock.\<close>

datatype fin_stage = FinLock | FinLost | FinStderr | FinDetect | FinLog | FinExit | FinSpawn | FinDone

datatype fin = Fin (fin_stage: fin_stage) (fin_status: int) (fin_err: "go_error option")

datatype main_pc =
    MainIdle | MainInit | MainStdout | MainStderr | MainStdin | MainStart | MainWait
  | MainFinalize fin | MainReturned fin

datatype watch_pc = WatchIdle | WatchWait | WatchFinalize fin | WatchReturned fin

datatype kill_pc = KillIdle | KillCleanup | KillDone

text \<open>The methods of the process, as they are called.\<close>

datatype proc_call = CallInit | CallStdout | CallStderr | CallStdin | CallStart | CallWait | CallCleanup

text \<open>They are ordered as \<open>Run\<close> calls them.\<close>

fun call_rank :: "proc_call \<Rightarrow> nat" where
  "call_rank CallInit = 0" | "call_rank CallStdout = 1" | "call_rank CallStderr = 2" | "call_rank CallStdin = 3"
| "call_rank CallStart = 4" | "call_rank CallWait = 5" | "call_rank CallCleanup = 6"

instantiation proc_call :: linorder
begin

definition less_proc_call_def: "c < d \<longleftrightarrow> call_rank c < call_rank d"

definition less_eq_proc_call_def: "c \<le> d \<longleftrightarrow> call_rank c \<le> call_rank d"

instance
proof
  show "c = d" if "c \<le> d" "d \<le> c" for c d :: proc_call
    using that by (cases c; cases d) (simp_all add: less_eq_proc_call_def)
qed (auto simp: less_proc_call_def less_eq_proc_call_def)

end

datatype crash = CrashProcess | CrashDetector

text \<open>\<open>s_waited\<close> holds the two results of \<open>wait\<close>, local variables of \<open>Run\<close>.\<close>

record session =
  s_started :: onetime
  s_finished :: onetime
  s_detector :: leakdet
  s_ctx :: bool
  s_main :: main_pc
  s_watch :: watch_pc
  s_kill :: kill_pc
  s_copiers :: "string set"
  s_waited :: "(int \<times> go_error option) option"
  s_rejected :: nat
  s_calls :: "proc_call list"
  s_exits :: "int list"
  s_stderr :: string
  s_log :: log
  s_crash :: "crash option"

text \<open>What stays fixed: who is connected, whether a pty was requested, the text of errors, and
  the build variant of the detector.\<close>

record session_env =
  se_peer :: peer
  se_pty :: bool
  se_err_text :: "go_error \<Rightarrow> string"
  se_leak_enabled :: bool

definition new_session :: "log \<Rightarrow> session" where
  "new_session lg =
     \<lparr>s_started = zero_onetime, s_finished = zero_onetime, s_detector = new_detector, s_ctx = False,
      s_main = MainIdle, s_watch = WatchIdle, s_kill = KillIdle, s_copiers = {}, s_waited = None,
      s_rejected = 0, s_calls = [], s_exits = [], s_stderr = [], s_log = lg, s_crash = None\<rparr>"

definition session_fmt_log :: "session_env \<Rightarrow> string \<Rightarrow> fmtarg list \<Rightarrow> session \<Rightarrow> session" where
  "session_fmt_log env message args s = s\<lparr>s_log := fmt_ssh_log (se_peer env) message args (s_log s)\<rparr>"

section \<open>Finalizing\<close>

text \<open>
  One action of \<open>finalize\<close>.  \<open>lines\<close> is what the detector's \<open>Finish\<close> prints (theory
  \<open>LeakStats\<close>).
\<close>

fun finalize_step :: "session_env \<Rightarrow> log \<Rightarrow> fin \<Rightarrow> session \<Rightarrow> fin \<times> session" where
  "finalize_step env lines (Fin FinLock status err) s =
     (let (got, ol) = onetime_lock (s_finished s)
      in (Fin (if got then FinStderr else FinLost) status err, s\<lparr>s_finished := ol\<rparr>))"
| "finalize_step env lines (Fin FinStderr status err) s =
     (Fin FinDetect status err,
      case err of None \<Rightarrow> s | Some e \<Rightarrow> s\<lparr>s_stderr := s_stderr s @ se_err_text env e @ [nl]\<rparr>)"
| "finalize_step env lines (Fin FinDetect status err) s =
     (Fin FinLog status err, s\<lparr>s_log := s_log s @ lines\<rparr>)"
| "finalize_step env lines (Fin FinLog status err) s =
     (Fin FinExit status err,
      case err of
        None \<Rightarrow> session_fmt_log env ''session_exit %d'' [FInt status] s
      | Some e \<Rightarrow> session_fmt_log env ''session_exit %d %s'' [FInt status, FStr (se_err_text env e)] s)"
| "finalize_step env lines (Fin FinExit status err) s =
     (Fin FinSpawn status err, s\<lparr>s_exits := s_exits s @ [status]\<rparr>)"
| "finalize_step env lines (Fin FinSpawn status err) s =
     (Fin FinDone status err, s\<lparr>s_kill := KillCleanup\<rparr>)"
| "finalize_step env lines (Fin FinLost status err) s = (Fin FinLost status err, s)"
| "finalize_step env lines (Fin FinDone status err) s = (Fin FinDone status err, s)"

definition fin_returned :: "fin \<Rightarrow> bool" where
  "fin_returned f \<longleftrightarrow> fin_stage f = FinLost \<or> fin_stage f = FinDone"

section \<open>Starting\<close>

text \<open>A call of the detector; a panic of it ends the server.\<close>

definition det_call :: "det_op \<Rightarrow> session \<Rightarrow> session" where
  "det_call x s =
     (case det_apply x (s_detector s) of
        (Ok u, d) \<Rightarrow> s\<lparr>s_detector := d\<rparr>
      | (r, d) \<Rightarrow> s\<lparr>s_detector := d, s_crash := Some CrashDetector\<rparr>)"

text \<open>\<open>detector.Add\<close> and the goroutine that calls \<open>Done\<close> for the same name.\<close>

definition spawn :: "string \<Rightarrow> session \<Rightarrow> session" where
  "spawn name s = (det_call (DetAdd name ''session.go'') s)\<lparr>s_copiers := insert name (s_copiers s)\<rparr>"

definition call_process :: "proc_call \<Rightarrow> session \<Rightarrow> session" where
  "call_process c s = s\<lparr>s_calls := s_calls s @ [c]\<rparr>"

text \<open>\<open>Run\<close> when \<open>start\<close> has failed.\<close>

definition start_failed :: "go_error \<Rightarrow> session \<Rightarrow> session" where
  "start_failed e s =
     s\<lparr>s_main := MainFinalize (Fin FinLock 255 (Some (ErrWrap e ''Failed to start process'')))\<rparr>"

text \<open>\<open>Run\<close> when \<open>start\<close> has succeeded: the context is watched, and \<open>wait\<close> called.\<close>

definition start_succeeded :: "session \<Rightarrow> session" where
  "start_succeeded s =
     (det_call (DetAdd ''session: context cancel'' ''session.go'') s)\<lparr>s_watch := WatchWait, s_main := MainWait\<rparr>"

definition crash_process :: "session \<Rightarrow> session" where
  "crash_process s = s\<lparr>s_crash := Some CrashProcess\<rparr>"

text \<open>The calls of \<open>start\<close>, \<open>startRegular\<close> and \<open>startPty\<close>, with what the method returns.\<close>

fun start_step :: "session_env \<Rightarrow> main_pc \<Rightarrow> unit go \<Rightarrow> session \<Rightarrow> session" where
  "start_step env MainInit r s =
     (let s1 = call_process CallInit s
      in case r of
           Panic m \<Rightarrow> crash_process s1
         | Err e \<Rightarrow> start_failed (ErrWrap e ''Failed to initialize process'') s1
         | Ok u \<Rightarrow> if se_pty env then (spawn ''session: winCh'' s1)\<lparr>s_main := MainStart\<rparr>
                   else s1\<lparr>s_main := MainStdout\<rparr>)"
| "start_step env MainStdout r s =
     (let s1 = call_process CallStdout s
      in case r of
           Panic m \<Rightarrow> crash_process s1
         | Err e \<Rightarrow> start_failed (ErrWrap e ''Failed to connect to STDOUT'') s1
         | Ok u \<Rightarrow> (spawn ''session: stdout'' s1)\<lparr>s_main := MainStderr\<rparr>)"
| "start_step env MainStderr r s =
     (let s1 = call_process CallStderr s
      in case r of
           Panic m \<Rightarrow> crash_process s1
         | Err e \<Rightarrow> start_failed (ErrWrap e ''Failed to connect to STDERR'') s1
         | Ok u \<Rightarrow> (spawn ''session: stderr'' s1)\<lparr>s_main := MainStdin\<rparr>)"
| "start_step env MainStdin r s =
     (let s1 = call_process CallStdin s
      in case r of
           Panic m \<Rightarrow> crash_process s1
         | Err e \<Rightarrow> start_failed (ErrWrap e ''Failed to connect to STDIN'') s1
         | Ok u \<Rightarrow> (spawn ''session: stdin'' s1)\<lparr>s_main := MainStart\<rparr>)"
| "start_step env MainStart r s =
     (let s1 = call_process CallStart s
      in case r of
           Panic m \<Rightarrow> crash_process s1
         | Err e \<Rightarrow> start_failed e s1
         | Ok u \<Rightarrow>
             if se_pty env
             then start_succeeded (spawn ''session: output'' (spawn ''session: input''
                    (session_fmt_log env ''pty_start_success'' [] s1)))
             else start_succeeded s1)"
| "start_step env pc r s = s"

definition starting :: "main_pc \<Rightarrow> bool" where
  "starting pc \<longleftrightarrow> pc \<in> {MainInit, MainStdout, MainStderr, MainStdin, MainStart}"

text \<open>\<open>wait\<close>: both results of the process's \<open>Wait\<close> are kept, and passed to \<open>finalize\<close>.\<close>

definition wait_returned :: "session_env \<Rightarrow> int \<Rightarrow> go_error option \<Rightarrow> session \<Rightarrow> session" where
  "wait_returned env code err s =
     (let s1 = call_process CallWait s;
          s2 = (case err of
                  None \<Rightarrow> session_fmt_log env ''command_return %d'' [FInt code] s1
                | Some e \<Rightarrow> session_fmt_log env ''command_return_fail %s'' [FStr (se_err_text env e)] s1)
      in s2\<lparr>s_waited := Some (code, err), s_main := MainFinalize (Fin FinLock code err)\<rparr>)"

definition kill_returned :: "session_env \<Rightarrow> bool \<Rightarrow> session \<Rightarrow> session" where
  "kill_returned env res s =
     (session_fmt_log env (if res then ''command_kill'' else ''command_kill_failure'') [] (call_process CallCleanup s))
       \<lparr>s_kill := KillDone\<rparr>"

text \<open>\<open>Run\<close> up to \<open>start\<close>; a second call changes nothing and returns \<open>errAlreadyStarted\<close>.\<close>

definition run_called :: "session_env \<Rightarrow> session \<Rightarrow> session" where
  "run_called env s =
     (let (got, ol) = onetime_lock (s_started s)
      in if got
         then (let s1 = s\<lparr>s_started := ol, s_detector := new_detector, s_main := MainInit\<rparr>
               in if se_leak_enabled env then session_fmt_log env ''memory_leak_detector_enabled'' [] s1 else s1)
         else s\<lparr>s_rejected := Suc (s_rejected s)\<rparr>)"

section \<open>Steps\<close>

datatype session_label =
    RunCall | StartReturns "unit go" | WaitReturns int "go_error option" | WaitPanics
  | MainFin log | RunReturns | CtxDone | WatchFires | WatchFin log | WatchReturns
  | CopierReturns string | ProcDet det_op | ProcPanics | CleanupReturns bool | CleanupPanics

fun det_name :: "det_op \<Rightarrow> string" where
  "det_name (DetAdd name loc) = name"
| "det_name (DetDone name) = name"

definition session_name :: "string \<Rightarrow> bool" where
  "session_name name \<longleftrightarrow> take 9 name = ''session: ''"

inductive session_step :: "session_env \<Rightarrow> session \<Rightarrow> session_label \<Rightarrow> session \<Rightarrow> bool"
  for env :: session_env where
  run_call: "s_crash s = None \<Longrightarrow> session_step env s RunCall (run_called env s)"
| start_returns: "s_crash s = None \<Longrightarrow> starting (s_main s) \<Longrightarrow>
     session_step env s (StartReturns r) (start_step env (s_main s) r s)"
| wait_returns: "s_crash s = None \<Longrightarrow> s_main s = MainWait \<Longrightarrow>
     session_step env s (WaitReturns code err) (wait_returned env code err s)"
| wait_panics: "s_crash s = None \<Longrightarrow> s_main s = MainWait \<Longrightarrow>
     session_step env s WaitPanics (crash_process (call_process CallWait s))"
| main_fin: "s_crash s = None \<Longrightarrow> s_main s = MainFinalize f \<Longrightarrow> \<not> fin_returned f \<Longrightarrow>
     finalize_step env lines f s = (f', s') \<Longrightarrow>
     session_step env s (MainFin lines) (s'\<lparr>s_main := MainFinalize f'\<rparr>)"
| run_returns: "s_crash s = None \<Longrightarrow> s_main s = MainFinalize f \<Longrightarrow> fin_returned f \<Longrightarrow>
     session_step env s RunReturns (s\<lparr>s_main := MainReturned f\<rparr>)"
| ctx_done: "s_crash s = None \<Longrightarrow> session_step env s CtxDone (s\<lparr>s_ctx := True\<rparr>)"
| watch_fires: "s_crash s = None \<Longrightarrow> s_watch s = WatchWait \<Longrightarrow> s_ctx s \<Longrightarrow>
     session_step env s WatchFires (s\<lparr>s_watch := WatchFinalize (Fin FinLock 255 None)\<rparr>)"
| watch_fin: "s_crash s = None \<Longrightarrow> s_watch s = WatchFinalize f \<Longrightarrow> \<not> fin_returned f \<Longrightarrow>
     finalize_step env lines f s = (f', s') \<Longrightarrow>
     session_step env s (WatchFin lines) (s'\<lparr>s_watch := WatchFinalize f'\<rparr>)"
| watch_returns: "s_crash s = None \<Longrightarrow> s_watch s = WatchFinalize f \<Longrightarrow> fin_returned f \<Longrightarrow>
     session_step env s WatchReturns
       ((det_call (DetDone ''session: context cancel'') s)\<lparr>s_watch := WatchReturned f\<rparr>)"
| copier_returns: "s_crash s = None \<Longrightarrow> name \<in> s_copiers s \<Longrightarrow>
     session_step env s (CopierReturns name)
       ((det_call (DetDone name) s)\<lparr>s_copiers := s_copiers s - {name}\<rparr>)"
| proc_det: "s_crash s = None \<Longrightarrow> s_main s \<noteq> MainIdle \<Longrightarrow> \<not> session_name (det_name x) \<Longrightarrow> det_apply x (s_detector s) = (Ok (), d) \<Longrightarrow>
     session_step env s (ProcDet x) (s\<lparr>s_detector := d\<rparr>)"
| proc_panics: "s_crash s = None \<Longrightarrow> s_main s \<noteq> MainIdle \<Longrightarrow> session_step env s ProcPanics (crash_process s)"
| cleanup_returns: "s_crash s = None \<Longrightarrow> s_kill s = KillCleanup \<Longrightarrow>
     session_step env s (CleanupReturns res) (kill_returned env res s)"
| cleanup_panics: "s_crash s = None \<Longrightarrow> s_kill s = KillCleanup \<Longrightarrow>
     session_step env s CleanupPanics (crash_process (call_process CallCleanup s)\<lparr>s_kill := KillDone\<rparr>)"

text \<open>The same relation as a function of the label, to run a schedule.\<close>

fun session_next :: "session_env \<Rightarrow> session_label \<Rightarrow> session \<Rightarrow> session option" where
  "session_next env RunCall s = Some (run_called env s)"
| "session_next env (StartReturns r) s =
     (if starting (s_main s) then Some (start_step env (s_main s) r s) else None)"
| "session_next env (WaitReturns code err) s =
     (if s_main s = MainWait then Some (wait_returned env code err s) else None)"
| "session_next env WaitPanics s =
     (if s_main s = MainWait then Some (crash_process (call_process CallWait s)) else None)"
| "session_next env (MainFin lines) s =
     (case s_main s of
        MainFinalize f \<Rightarrow> if fin_returned f then None
          else (case finalize_step env lines f s of (f', s') \<Rightarrow> Some (s'\<lparr>s_main := MainFinalize f'\<rparr>))
      | _ \<Rightarrow> None)"
| "session_next env RunReturns s =
     (case s_main s of
        MainFinalize f \<Rightarrow> if fin_returned f then Some (s\<lparr>s_main := MainReturned f\<rparr>) else None
      | _ \<Rightarrow> None)"
| "session_next env CtxDone s = Some (s\<lparr>s_ctx := True\<rparr>)"
| "session_next env WatchFires s =
     (if s_watch s = WatchWait \<and> s_ctx s then Some (s\<lparr>s_watch := WatchFinalize (Fin FinLock 255 None)\<rparr>) else None)"
| "session_next env (WatchFin lines) s =
     (case s_watch s of
        WatchFinalize f \<Rightarrow> if fin_returned f then None
          else (case finalize_step env lines f s of (f', s') \<Rightarrow> Some (s'\<lparr>s_watch := WatchFinalize f'\<rparr>))
      | _ \<Rightarrow> None)"
| "session_next env WatchReturns s =
     (case s_watch s of
        WatchFinalize f \<Rightarrow>
          if fin_returned f
          then Some ((det_call (DetDone ''session: context cancel'') s)\<lparr>s_watch := WatchReturned f\<rparr>) else None
      | _ \<Rightarrow> None)"
| "session_next env (CopierReturns name) s =
     (if name \<in> s_copiers s
      then Some ((det_call (DetDone name) s)\<lparr>s_copiers := s_copiers s - {name}\<rparr>) else None)"
| "session_next env (ProcDet x) s =
     (if s_main s \<noteq> MainIdle \<and> \<not> session_name (det_name x)
      then (case det_apply x (s_detector s) of (Ok u, d) \<Rightarrow> Some (s\<lparr>s_detector := d\<rparr>) | _ \<Rightarrow> None)
      else None)"
| "session_next env ProcPanics s = (if s_main s \<noteq> MainIdle then Some (crash_process s) else None)"
| "session_next env (CleanupReturns res) s =
     (if s_kill s = KillCleanup then Some (kill_returned env res s) else None)"
| "session_next env CleanupPanics s =
     (if s_kill s = KillCleanup then Some (crash_process (call_process CallCleanup s)\<lparr>s_kill := KillDone\<rparr>) else None)"

fun session_exec :: "session_env \<Rightarrow> session_label list \<Rightarrow> session \<Rightarrow> session option" where
  "session_exec env [] s = Some s"
| "session_exec env (l # ls) s =
     (if s_crash s = None
      then (case session_next env l s of None \<Rightarrow> None | Some s' \<Rightarrow> session_exec env ls s')
      else None)"

lemma session_step_next:
  "session_step env s l s' \<longleftrightarrow> s_crash s = None \<and> session_next env l s = Some s'"
proof
  show "session_step env s l s' \<Longrightarrow> s_crash s = None \<and> session_next env l s = Some s'"
    by (induction rule: session_step.induct) simp_all
  show "s_crash s = None \<and> session_next env l s = Some s' \<Longrightarrow> session_step env s l s'"
    by (cases "(env, l, s)" rule: session_next.cases)
      (auto intro: session_step.intros split: if_splits main_pc.splits watch_pc.splits prod.splits go.splits)
qed

lemma session_exec_run: "session_exec env ls s = Some s' \<longleftrightarrow> run_path (session_step env) s ls s'"
  by (induction ls arbitrary: s)
    (auto simp: run_path_Cons_iff session_step_next split: option.splits if_splits)

end
