(* ===== verification/SessionInv.thy ===== *)
theory SessionInv
  imports Session
begin

text \<open>
  The invariants of a session and its properties: the session is exited and the process
  cleaned up at most once, the methods of the process are called in order, the exit status
  comes from \<open>Wait\<close> or is 255, the leak detector is used correctly, and a cancelled session
  always reaches its exit.
\<close>

section \<open>Invariants\<close>

lemma det_call_simps [simp]:
  "s_started (det_call x s) = s_started s" "s_finished (det_call x s) = s_finished s"
  "s_ctx (det_call x s) = s_ctx s" "s_main (det_call x s) = s_main s" "s_watch (det_call x s) = s_watch s"
  "s_kill (det_call x s) = s_kill s" "s_copiers (det_call x s) = s_copiers s"
  "s_waited (det_call x s) = s_waited s" "s_calls (det_call x s) = s_calls s"
  "s_exits (det_call x s) = s_exits s" "s_stderr (det_call x s) = s_stderr s" "s_log (det_call x s) = s_log s"
  by (simp_all add: det_call_def split: prod.splits go.splits)

lemma spawn_simps [simp]:
  "s_started (spawn n s) = s_started s" "s_finished (spawn n s) = s_finished s"
  "s_ctx (spawn n s) = s_ctx s" "s_main (spawn n s) = s_main s" "s_watch (spawn n s) = s_watch s"
  "s_kill (spawn n s) = s_kill s" "s_copiers (spawn n s) = insert n (s_copiers s)"
  "s_waited (spawn n s) = s_waited s" "s_calls (spawn n s) = s_calls s"
  "s_exits (spawn n s) = s_exits s" "s_log (spawn n s) = s_log s"
  "s_detector (spawn n s) = s_detector (det_call (DetAdd n ''session.go'') s)"
  "s_crash (spawn n s) = s_crash (det_call (DetAdd n ''session.go'') s)"
  by (simp_all add: spawn_def)

lemmas session_ops = start_failed_def start_succeeded_def crash_process_def call_process_def
  session_fmt_log_def wait_returned_def kill_returned_def run_called_def Let_def

text \<open>How far the call of \<open>finalize\<close> that has the lock has come: 0 without the lock.\<close>

fun fin_rank :: "fin_stage \<Rightarrow> nat" where
  "fin_rank FinLock = 0" | "fin_rank FinLost = 0" | "fin_rank FinStderr = 1" | "fin_rank FinDetect = 2"
| "fin_rank FinLog = 3" | "fin_rank FinExit = 4" | "fin_rank FinSpawn = 5" | "fin_rank FinDone = 6"

fun main_rank :: "main_pc \<Rightarrow> nat" where
  "main_rank (MainFinalize f) = fin_rank (fin_stage f)"
| "main_rank (MainReturned f) = fin_rank (fin_stage f)"
| "main_rank pc = 0"

fun watch_rank :: "watch_pc \<Rightarrow> nat" where
  "watch_rank (WatchFinalize f) = fin_rank (fin_stage f)"
| "watch_rank (WatchReturned f) = fin_rank (fin_stage f)"
| "watch_rank pc = 0"

fun main_status :: "main_pc \<Rightarrow> int" where
  "main_status (MainFinalize f) = fin_status f"
| "main_status (MainReturned f) = fin_status f"
| "main_status pc = 0"

fun watch_status :: "watch_pc \<Rightarrow> int" where
  "watch_status (WatchFinalize f) = fin_status f"
| "watch_status (WatchReturned f) = fin_status f"
| "watch_status pc = 255"

definition exit_inv :: "session \<Rightarrow> bool" where
  "exit_inv s \<longleftrightarrow> (let rm = main_rank (s_main s); rw = watch_rank (s_watch s)
     in (locked (s_finished s) = 0 \<longleftrightarrow> rm = 0 \<and> rw = 0) \<and> (rm = 0 \<or> rw = 0) \<and>
        s_exits s = (if 5 \<le> rm then [main_status (s_main s)] else if 5 \<le> rw then [watch_status (s_watch s)] else []) \<and>
        (s_kill s = KillIdle \<longleftrightarrow> rm \<noteq> 6 \<and> rw \<noteq> 6) \<and>
        count_list (s_calls s) CallCleanup = (if s_kill s = KillDone then 1 else 0) \<and>
        (s_main s = MainIdle \<or> starting (s_main s) \<longrightarrow> s_watch s = WatchIdle) \<and>
        (s_main s = MainIdle \<longleftrightarrow> locked (s_started s) = 0))"

lemma finalize_step_frame:
  assumes "finalize_step env lines f s = (f', s')"
  shows "s_started s' = s_started s" "s_detector s' = s_detector s" "s_ctx s' = s_ctx s" "s_main s' = s_main s"
    "s_watch s' = s_watch s" "s_copiers s' = s_copiers s" "s_waited s' = s_waited s" "s_calls s' = s_calls s"
    "s_crash s' = s_crash s" "fin_status f' = fin_status f" "fin_err f' = fin_err f"
  using assms by (cases "(env, lines, f, s)" rule: finalize_step.cases;
      auto simp: session_fmt_log_def split: option.splits prod.splits)+

lemma finalize_step_effect:
  assumes "finalize_step env lines f s = (f', s')" and "\<not> fin_returned f"
  shows "(if fin_stage f = FinLock
          then (locked (s_finished s) = 0 \<and> fin_stage f' = FinStderr \<and> locked (s_finished s') = 1) \<or>
               (locked (s_finished s) \<noteq> 0 \<and> fin_stage f' = FinLost \<and> s_finished s' = s_finished s)
          else fin_rank (fin_stage f') = Suc (fin_rank (fin_stage f)) \<and> s_finished s' = s_finished s) \<and>
     s_exits s' = (if fin_stage f = FinExit then s_exits s @ [fin_status f] else s_exits s) \<and>
     s_kill s' = (if fin_stage f = FinSpawn then KillCleanup else s_kill s)"
  using assms by (cases "(env, lines, f, s)" rule: finalize_step.cases)
    (auto simp: fin_returned_def session_fmt_log_def onetime_lock_def compare_and_swap_def
      split: option.splits if_splits)

lemma fin_rank_cases:
  "fin_rank x = 0 \<longleftrightarrow> x = FinLock \<or> x = FinLost" "fin_rank x = 4 \<longleftrightarrow> x = FinExit"
  "fin_rank x = 5 \<longleftrightarrow> x = FinSpawn" "fin_rank x = 6 \<longleftrightarrow> x = FinDone" "fin_rank x \<le> 6"
  by (cases x; simp)+

lemma start_step_frame:
  assumes "starting (s_main s)"
  shows "s_finished (start_step env (s_main s) r s) = s_finished s"
    "s_started (start_step env (s_main s) r s) = s_started s"
    "s_exits (start_step env (s_main s) r s) = s_exits s"
    "s_kill (start_step env (s_main s) r s) = s_kill s"
    "s_ctx (start_step env (s_main s) r s) = s_ctx s"
    "s_waited (start_step env (s_main s) r s) = s_waited s"
    "main_rank (s_main (start_step env (s_main s) r s)) = 0"
    "watch_rank (s_watch s) = 0 \<Longrightarrow> watch_rank (s_watch (start_step env (s_main s) r s)) = 0"
    "count_list (s_calls (start_step env (s_main s) r s)) CallCleanup = count_list (s_calls s) CallCleanup"
  using assms by (cases "(env, s_main s, r, s)" rule: start_step.cases;
      auto simp: starting_def session_ops split: go.splits)+

lemma exit_inv_new [simp]: "exit_inv (new_session lg)"
  by (simp add: exit_inv_def new_session_def zero_onetime_def starting_def)

lemma start_step_main:
  assumes "starting (s_main s)"
  shows "s_main (start_step env (s_main s) r s) \<noteq> MainIdle"
    "starting (s_main (start_step env (s_main s) r s)) \<Longrightarrow> s_watch (start_step env (s_main s) r s) = s_watch s"
    "s_watch (start_step env (s_main s) r s) = s_watch s \<or> s_watch (start_step env (s_main s) r s) = WatchWait"
  using assms by (cases "(env, s_main s, r, s)" rule: start_step.cases;
      auto simp: starting_def session_ops split: go.splits if_splits)+

lemma exit_inv_start:
  assumes "exit_inv s" and "starting (s_main s)"
  shows "exit_inv (start_step env (s_main s) r s)"
proof -
  note f = start_step_frame [OF assms(2), of env r] and m = start_step_main [OF assms(2), of env r]
  have rm: "main_rank (s_main s) = 0" "s_main s \<noteq> MainIdle" using assms(2) by (auto simp: starting_def)
  from assms have w: "s_watch s = WatchIdle" and i: "s_exits s = []" "s_kill s = KillIdle"
      "locked (s_finished s) = 0" "count_list (s_calls s) CallCleanup = 0" "locked (s_started s) \<noteq> 0"
    using rm by (auto simp: exit_inv_def Let_def)
  let ?s = "start_step env (s_main s) r s"
  have "starting (s_main ?s) \<longrightarrow> s_watch ?s = WatchIdle" using m(2) w by simp
  moreover have "watch_rank (s_watch ?s) = 0" using m(3) w by auto
  ultimately show ?thesis using f m(1) i unfolding exit_inv_def Let_def by simp
qed

lemma exit_inv_main_fin:
  assumes "exit_inv s" and "s_main s = MainFinalize f" and "\<not> fin_returned f"
    and "finalize_step env lines f s = (f', s')"
  shows "exit_inv (s'\<lparr>s_main := MainFinalize f'\<rparr>)"
proof -
  note e = finalize_step_effect [OF assms(4,3)] and fr = finalize_step_frame [OF assms(4)]
  show ?thesis
  proof (cases "fin_stage f = FinLock")
    case True
    with assms(1,2) e fr show ?thesis by (auto simp: exit_inv_def Let_def starting_def)
  next
    case False
    with assms(3) have "fin_rank (fin_stage f) \<noteq> 0" "fin_rank (fin_stage f) \<noteq> 6"
      by (auto simp: fin_rank_cases fin_returned_def)
    with assms(1,2) e fr False fin_rank_cases(5) [of "fin_stage f"] show ?thesis
      by (cases "fin_stage f") (auto simp: exit_inv_def Let_def starting_def)
  qed
qed

lemma exit_inv_watch_fin:
  assumes "exit_inv s" and "s_watch s = WatchFinalize f" and "\<not> fin_returned f"
    and "finalize_step env lines f s = (f', s')"
  shows "exit_inv (s'\<lparr>s_watch := WatchFinalize f'\<rparr>)"
proof -
  note e = finalize_step_effect [OF assms(4,3)] and fr = finalize_step_frame [OF assms(4)]
  show ?thesis
  proof (cases "fin_stage f = FinLock")
    case True
    with assms(1,2) e fr show ?thesis by (auto simp: exit_inv_def Let_def starting_def)
  next
    case False
    with assms(3) have "fin_rank (fin_stage f) \<noteq> 0" "fin_rank (fin_stage f) \<noteq> 6"
      by (auto simp: fin_rank_cases fin_returned_def)
    with assms(1,2) e fr False fin_rank_cases(5) [of "fin_stage f"] show ?thesis
      by (cases "fin_stage f") (auto simp: exit_inv_def Let_def starting_def)
  qed
qed

lemma run_called_simps:
  "locked (s_started s) = 0 \<Longrightarrow> run_called env s =
     s\<lparr>s_started := \<lparr>locked = 1\<rparr>, s_detector := new_detector, s_main := MainInit,
       s_log := (if se_leak_enabled env then fmt_ssh_log (se_peer env) ''memory_leak_detector_enabled'' [] (s_log s)
                 else s_log s)\<rparr>"
  "locked (s_started s) \<noteq> 0 \<Longrightarrow> run_called env s = s\<lparr>s_rejected := Suc (s_rejected s)\<rparr>"
  by (simp_all add: run_called_def Let_def session_fmt_log_def onetime_lock_def compare_and_swap_def)

lemma exit_inv_step: "session_step env s l s' \<Longrightarrow> exit_inv s \<Longrightarrow> exit_inv s'"
proof (induction rule: session_step.induct)
  case (run_call s)
  then show ?case
    by (cases "locked (s_started s) = 0")
      (simp_all add: run_called_simps exit_inv_def Let_def starting_def)
next
  case (start_returns s r)
  then show ?case by (intro exit_inv_start)
next
  case (main_fin s f lines f' s')
  then show ?case by (intro exit_inv_main_fin)
next
  case (watch_fin s f lines f' s')
  then show ?case by (intro exit_inv_watch_fin)
next
  case (watch_returns s f)
  then show ?case by (clarsimp simp: exit_inv_def Let_def)
next
  case (run_returns s f)
  then show ?case by (simp add: exit_inv_def Let_def starting_def)
next
  case (watch_fires s)
  then show ?case by (simp add: exit_inv_def Let_def) (auto simp: starting_def)
next
  case (wait_returns s code err)
  then show ?case by (cases err) (simp_all add: exit_inv_def session_ops starting_def)
next
  case (cleanup_returns s res)
  then show ?case by (simp add: exit_inv_def session_ops)
next
  case (cleanup_panics s)
  then show ?case by (simp add: exit_inv_def session_ops)
qed (simp_all add: exit_inv_def session_ops)

interpretation exits: step_invariant "session_step env" exit_inv for env
  by unfold_locales (rule exit_inv_step)

subsection \<open>The order of the process's methods\<close>

fun next_call :: "main_pc \<Rightarrow> proc_call option" where
  "next_call MainInit = Some CallInit" | "next_call MainStdout = Some CallStdout"
| "next_call MainStderr = Some CallStderr" | "next_call MainStdin = Some CallStdin"
| "next_call MainStart = Some CallStart" | "next_call MainWait = Some CallWait"
| "next_call pc = None"

definition main_calls :: "session \<Rightarrow> proc_call list" where
  "main_calls s = filter (\<lambda>c. c \<noteq> CallCleanup) (s_calls s)"

definition call_order :: "bool \<Rightarrow> proc_call list" where
  "call_order pty = (if pty then [CallInit, CallStart, CallWait]
     else [CallInit, CallStdout, CallStderr, CallStdin, CallStart, CallWait])"

definition order_inv :: "session_env \<Rightarrow> session \<Rightarrow> bool" where
  "order_inv env s \<longleftrightarrow> prefix (main_calls s) (call_order (se_pty env)) \<and>
     (s_main s = MainIdle \<longrightarrow> main_calls s = []) \<and>
     (s_crash s = None \<longrightarrow>
        (case next_call (s_main s) of
           None \<Rightarrow> True
         | Some c \<Rightarrow> c \<in> set (call_order (se_pty env)) \<and>
             main_calls s = takeWhile (\<lambda>x. x \<noteq> c) (call_order (se_pty env))))"

lemma order_inv_new [simp]: "order_inv env (new_session lg)"
  by (simp add: order_inv_def new_session_def main_calls_def)

lemma order_inv_keep:
  assumes "order_inv env s" and "main_calls s' = main_calls s"
    and "s_main s' = s_main s \<or> (next_call (s_main s') = None \<and> s_main s' \<noteq> MainIdle)"
    and "s_crash s = None"
  shows "order_inv env s'"
  using assms by (auto simp: order_inv_def split: option.splits)

lemma order_inv_call:
  assumes "order_inv env s" and "s_crash s = None" and "next_call (s_main s) = Some c"
  shows "main_calls s = takeWhile (\<lambda>x. x \<noteq> c) (call_order (se_pty env))" "c \<in> set (call_order (se_pty env))"
  using assms by (auto simp: order_inv_def)

lemma order_inv_start:
  assumes "order_inv env s" and "s_crash s = None" and "starting (s_main s)"
  shows "order_inv env (start_step env (s_main s) r s)"
  using assms(3) order_inv_call [OF assms(1,2)]
  by (cases "(env, s_main s, r, s)" rule: start_step.cases; cases "se_pty env"; cases r)
    (simp_all add: starting_def order_inv_def call_order_def main_calls_def session_ops)

lemma order_inv_fin:
  assumes "order_inv env s" and "s_crash s = None" and "finalize_step env lines f s = (f', s')"
  shows "s_main s = MainFinalize f \<Longrightarrow> order_inv env (s'\<lparr>s_main := MainFinalize f'\<rparr>)"
    and "order_inv env (s'\<lparr>s_watch := w\<rparr>)"
  using assms(1,2) finalize_step_frame(4,8,9) [OF assms(3)]
  by (auto simp: order_inv_def main_calls_def split: option.splits)

lemma order_inv_step: "session_step env s l s' \<Longrightarrow> exit_inv s \<Longrightarrow> order_inv env s \<Longrightarrow> order_inv env s'"
proof (induction rule: session_step.induct)
  case (run_call s)
  show ?case
  proof (cases "locked (s_started s) = 0")
    case True
    have "s_main s = MainIdle" using run_call(2) True by (simp only: exit_inv_def Let_def simp_thms)
    then have "main_calls s = []" using run_call(3) by (simp add: order_inv_def)
    with True show ?thesis
      by (cases "se_pty env") (simp_all add: run_called_simps order_inv_def main_calls_def call_order_def)
  next
    case False
    with run_call show ?thesis by - (rule order_inv_keep [where s = s], simp_all add: run_called_simps main_calls_def)
  qed
next
  case (start_returns s r)
  then show ?case by (intro order_inv_start)
next
  case (wait_returns s code err)
  then show ?case using order_inv_call [of env s CallWait]
    by (cases err; cases "se_pty env")
      (simp_all add: order_inv_def call_order_def main_calls_def session_ops)
next
  case (wait_panics s)
  then show ?case using order_inv_call [of env s CallWait]
    by (cases "se_pty env")
      (simp_all add: order_inv_def call_order_def main_calls_def session_ops)
next
  case (main_fin s f lines f' s')
  then show ?case by (intro order_inv_fin(1))
next
  case (watch_fin s f lines f' s')
  then show ?case by (intro order_inv_fin(2))
next
  case (watch_returns s f)
  then show ?case by - (rule order_inv_keep [where s = s], simp_all add: main_calls_def)
next
  case (copier_returns s name)
  then show ?case by - (rule order_inv_keep [where s = s], simp_all add: main_calls_def)
next
  case (ctx_done s)
  then show ?case by - (rule order_inv_keep [where s = s], simp_all add: main_calls_def)
next
  case (watch_fires s)
  then show ?case by - (rule order_inv_keep [where s = s], simp_all add: main_calls_def)
next
  case (proc_det s x d)
  then show ?case by - (rule order_inv_keep [where s = s], simp_all add: main_calls_def)
next
  case (cleanup_returns s res)
  then show ?case by - (rule order_inv_keep [where s = s], simp_all add: main_calls_def session_ops)
next
  case (run_returns s f)
  then show ?case by - (rule order_inv_keep [where s = s], simp_all add: main_calls_def)
qed (simp_all add: order_inv_def main_calls_def session_ops)

subsection \<open>Where a status comes from\<close>

text \<open>The error of a failed start, as \<open>Run\<close> wraps it.\<close>

fun is_start_error :: "go_error option \<Rightarrow> bool" where
  "is_start_error (Some (ErrWrap e msg)) = (msg = ''Failed to start process'')"
| "is_start_error e = False"

definition fin_cause :: "fin \<Rightarrow> (int \<times> go_error option) option \<Rightarrow> bool" where
  "fin_cause f w \<longleftrightarrow> w = Some (fin_status f, fin_err f) \<or>
     (w = None \<and> fin_status f = 255 \<and> is_start_error (fin_err f))"

fun main_cause :: "main_pc \<Rightarrow> (int \<times> go_error option) option \<Rightarrow> bool" where
  "main_cause (MainFinalize f) w = fin_cause f w"
| "main_cause (MainReturned f) w = fin_cause f w"
| "main_cause pc w = (w = None)"

fun watch_cause :: "watch_pc \<Rightarrow> bool \<Rightarrow> bool" where
  "watch_cause (WatchFinalize f) c = (fin_status f = 255 \<and> fin_err f = None \<and> c)"
| "watch_cause (WatchReturned f) c = (fin_status f = 255 \<and> fin_err f = None \<and> c)"
| "watch_cause pc c = True"

lemma watch_cause_mono: "watch_cause w c \<Longrightarrow> watch_cause w True"
  by (cases w) auto

definition cause_inv :: "session \<Rightarrow> bool" where
  "cause_inv s \<longleftrightarrow> main_cause (s_main s) (s_waited s) \<and> watch_cause (s_watch s) (s_ctx s)"

lemma cause_inv_new [simp]: "cause_inv (new_session lg)"
  by (simp add: cause_inv_def new_session_def)

lemma cause_inv_cong:
  assumes "cause_inv s" and "s_main s' = s_main s" and "s_watch s' = s_watch s" and "s_waited s' = s_waited s"
    and "s_ctx s' = s_ctx s"
  shows "cause_inv s'"
  using assms by (simp add: cause_inv_def)

lemma main_cause_start:
  assumes "starting (s_main s)" and "s_waited s = None"
  shows "main_cause (s_main (start_step env (s_main s) r s)) None"
  using assms by (cases "(env, s_main s, r, s)" rule: start_step.cases)
    (auto simp: starting_def session_ops fin_cause_def split: go.splits)

lemma cause_inv_start:
  assumes "cause_inv s" and "starting (s_main s)"
  shows "cause_inv (start_step env (s_main s) r s)"
proof -
  from assms have "s_waited s = None" by (auto simp: cause_inv_def starting_def)
  with main_cause_start [OF assms(2) this] start_step_frame(5,6) [OF assms(2), of env r]
    start_step_main(3) [OF assms(2), of env r] assms(1)
  show ?thesis by (auto simp: cause_inv_def)
qed

lemma cause_inv_step: "session_step env s l s' \<Longrightarrow> exit_inv s \<Longrightarrow> cause_inv s \<Longrightarrow> cause_inv s'"
proof (induction rule: session_step.induct)
  case (run_call s)
  show ?case
  proof (cases "locked (s_started s) = 0")
    case True
    have "s_main s = MainIdle" using run_call(2) True by (simp only: exit_inv_def Let_def simp_thms)
    with run_call(3) True show ?thesis by (simp add: run_called_simps cause_inv_def)
  next
    case False
    with run_call show ?thesis by (simp add: run_called_simps cause_inv_def)
  qed
next
  case (start_returns s r)
  then show ?case by (intro cause_inv_start)
next
  case (wait_returns s code err)
  then show ?case by (cases err) (simp_all add: cause_inv_def session_ops fin_cause_def)
next
  case (main_fin s f lines f' s')
  with finalize_step_frame [OF main_fin(4)] show ?case by (simp add: cause_inv_def fin_cause_def)
next
  case (watch_fin s f lines f' s')
  with finalize_step_frame [OF watch_fin(4)] show ?case by (simp add: cause_inv_def)
next
  case (ctx_done s)
  then show ?case using watch_cause_mono [of "s_watch s" "s_ctx s"] by (simp add: cause_inv_def)
qed (simp_all add: cause_inv_def session_ops)

subsection \<open>The detector\<close>

definition ctx_name :: string where
  "ctx_name = ''session: context cancel''"

text \<open>The goroutines of the session that have still to call \<open>Done\<close>.\<close>

definition live_names :: "session \<Rightarrow> string set" where
  "live_names s = s_copiers s \<union> (case s_watch s of WatchWait \<Rightarrow> {ctx_name} | WatchFinalize f \<Rightarrow> {ctx_name} | _ \<Rightarrow> {})"

fun started_names :: "bool \<Rightarrow> main_pc \<Rightarrow> string set" where
  "started_names pty MainIdle = {}" | "started_names pty MainInit = {}" | "started_names pty MainStdout = {}"
| "started_names pty MainStderr = {''session: stdout''}"
| "started_names pty MainStdin = {''session: stdout'', ''session: stderr''}"
| "started_names pty MainStart = (if pty then {''session: winCh''}
     else {''session: stdout'', ''session: stderr'', ''session: stdin''})"
| "started_names pty pc = {''session: winCh'', ''session: input'', ''session: output'',
     ''session: stdout'', ''session: stderr'', ''session: stdin''}"

definition track :: "session \<Rightarrow> string set \<Rightarrow> bool" where
  "track s A \<longleftrightarrow> s_crash s \<noteq> Some CrashDetector \<and> det_inv (s_detector s) \<and>
     {n \<in> outstanding (s_detector s). session_name n} = A"

definition det_ok :: "session_env \<Rightarrow> session \<Rightarrow> bool" where
  "det_ok env s \<longleftrightarrow> track s (live_names s) \<and> s_copiers s \<subseteq> started_names (se_pty env) (s_main s)"

lemma session_names [simp]:
  "session_name ''session: winCh''" "session_name ''session: input''" "session_name ''session: output''"
  "session_name ''session: stdout''" "session_name ''session: stderr''" "session_name ''session: stdin''"
  "session_name ctx_name"
  by (simp_all add: session_name_def ctx_name_def)

lemma started_names_session: "n \<in> started_names pty pc \<Longrightarrow> session_name n \<and> n \<noteq> ctx_name"
  by (cases "(pty, pc)" rule: started_names.cases)
    (auto simp: session_name_def ctx_name_def split: if_splits)

lemma track_add:
  assumes "track s A" and "session_name n" and "n \<notin> A"
  shows "track (det_call (DetAdd n loc) s) (insert n A)" "s_crash (det_call (DetAdd n loc) s) = s_crash s"
proof -
  from assms have "n \<notin> outstanding (s_detector s)" by (auto simp: track_def)
  with assms(1) det_apply_spec [of "s_detector s" "DetAdd n loc"] obtain d where
      "det_apply (DetAdd n loc) (s_detector s) = (Ok (), d)" "det_inv d" "outstanding d = insert n (outstanding (s_detector s))"
    by (auto simp: track_def)
  with assms(1,2) show "track (det_call (DetAdd n loc) s) (insert n A)" "s_crash (det_call (DetAdd n loc) s) = s_crash s"
    by (auto simp: track_def det_call_def)
qed

lemma track_done:
  assumes "track s A" and "n \<in> A"
  shows "track (det_call (DetDone n) s) (A - {n})"
proof -
  from assms have "n \<in> outstanding (s_detector s)" "session_name n" by (auto simp: track_def)
  with assms(1) det_apply_spec [of "s_detector s" "DetDone n"] obtain d where
      "det_apply (DetDone n) (s_detector s) = (Ok (), d)" "det_inv d" "outstanding d = outstanding (s_detector s) - {n}"
    by (auto simp: track_def)
  with assms(1) show ?thesis by (auto simp: track_def det_call_def)
qed

lemma track_cong: "s_detector s' = s_detector s \<Longrightarrow> s_crash s' = s_crash s \<Longrightarrow> track s' A = track s A"
  by (simp add: track_def)

lemma track_spawn:
  "track s A \<Longrightarrow> session_name n \<Longrightarrow> n \<notin> A \<Longrightarrow> track (spawn n s) (insert n A)"
  using track_add(1) [of s A n "''session.go''"] by (simp add: track_def)

lemma det_ok_new [simp]: "det_ok env (new_session lg)"
  by (simp add: det_ok_def track_def live_names_def new_session_def)

lemma det_ok_keep:
  assumes "det_ok env s" and "s_detector s' = s_detector s" and "s_crash s' \<noteq> Some CrashDetector"
    and "live_names s' = live_names s" and "s_copiers s' = s_copiers s"
    and "s_copiers s \<subseteq> started_names (se_pty env) (s_main s')"
  shows "det_ok env s'"
  using assms by (simp add: det_ok_def track_def)

lemma live_names_idle: "s_watch s = WatchIdle \<Longrightarrow> live_names s = s_copiers s"
  by (simp add: live_names_def)

text \<open>The start: every name is added once.\<close>

definition idle_ok :: "session_env \<Rightarrow> session \<Rightarrow> bool" where
  "idle_ok env s \<longleftrightarrow> track s (s_copiers s) \<and> s_watch s = WatchIdle \<and> s_copiers s \<subseteq> started_names (se_pty env) (s_main s)"

lemma idle_ok_det: "idle_ok env s \<Longrightarrow> det_ok env s"
  by (simp add: idle_ok_def det_ok_def live_names_idle)

lemma det_ok_idle: "det_ok env s \<Longrightarrow> s_watch s = WatchIdle \<Longrightarrow> idle_ok env s"
  by (simp add: idle_ok_def det_ok_def live_names_idle)

lemma idle_ok_cong:
  assumes "idle_ok env s" and "s_detector s' = s_detector s" and "s_crash s' = s_crash s \<or> s_crash s' = Some CrashProcess"
    and "s_copiers s' = s_copiers s" and "s_watch s' = s_watch s"
    and "s_copiers s \<subseteq> started_names (se_pty env) (s_main s')"
  shows "idle_ok env s'"
  using assms by (auto simp: idle_ok_def track_def)

lemma idle_ok_spawn:
  assumes "idle_ok env s" and "session_name n" and "n \<notin> s_copiers s"
    and "insert n (s_copiers s) \<subseteq> started_names (se_pty env) pc"
  shows "idle_ok env ((spawn n s)\<lparr>s_main := pc\<rparr>)"
  using track_spawn [of s "s_copiers s" n] assms by (simp add: idle_ok_def track_def)

lemma start_succeeded_eq:
  "start_succeeded s = (det_call (DetAdd ctx_name ''session.go'') s)\<lparr>s_watch := WatchWait, s_main := MainWait\<rparr>"
  by (simp add: start_succeeded_def ctx_name_def)

lemma start_succeeded_ok:
  assumes "track s (s_copiers s)" and "s_copiers s \<subseteq> started_names (se_pty env) MainWait"
  shows "det_ok env (start_succeeded s)"
proof -
  have "ctx_name \<notin> s_copiers s" using assms(2) started_names_session by blast
  from track_add(1) [OF assms(1) _ this, of "''session.go''"] assms(2) show ?thesis
    by (simp add: det_ok_def start_succeeded_eq live_names_def track_def)
qed

lemma idle_ok_started: "idle_ok env s \<Longrightarrow> n \<in> s_copiers s \<Longrightarrow> n \<in> started_names (se_pty env) (s_main s)"
  by (auto simp: idle_ok_def)

lemma started_subset: "started_names pty pc \<subseteq> started_names pty (MainFinalize f)"
  by (cases pc; cases pty) simp_all

lemma idle_ok_failed:
  assumes "idle_ok env s"
  shows "det_ok env (start_failed e (call_process c s))"
proof -
  have "s_copiers s \<subseteq> started_names (se_pty env) (MainFinalize f)" for f
    by (rule order.trans [OF _ started_subset [of "se_pty env" "s_main s" f]])
      (use assms in \<open>simp add: idle_ok_def\<close>)
  then show ?thesis by (intro idle_ok_det idle_ok_cong [OF assms]) (simp_all add: session_ops)
qed

lemma idle_ok_call:
  assumes "idle_ok env s" shows "idle_ok env (call_process c s)"
  by (rule idle_ok_cong [OF assms]) (use assms in \<open>simp_all add: session_ops idle_ok_def\<close>)

lemma idle_ok_panic:
  assumes "idle_ok env s" shows "det_ok env (crash_process (call_process c s))"
  by (rule idle_ok_det, rule idle_ok_cong [OF assms]) (use assms in \<open>simp_all add: session_ops idle_ok_def\<close>)

lemma idle_ok_main: "idle_ok env s \<Longrightarrow> s_copiers s \<subseteq> started_names (se_pty env) pc \<Longrightarrow> idle_ok env (s\<lparr>s_main := pc\<rparr>)"
  by (erule idle_ok_cong) auto

lemma idle_ok_start_ok:
  assumes ok: "idle_ok env s"
  shows "s_main s = MainInit \<Longrightarrow> det_ok env (start_step env MainInit (Ok u) s)"
    and "s_main s = MainStdout \<Longrightarrow> det_ok env (start_step env MainStdout (Ok u) s)"
    and "s_main s = MainStderr \<Longrightarrow> det_ok env (start_step env MainStderr (Ok u) s)"
    and "\<not> se_pty env \<Longrightarrow> s_main s = MainStdin \<Longrightarrow> det_ok env (start_step env MainStdin (Ok u) s)"
    and "s_main s = MainStart \<Longrightarrow> det_ok env (start_step env MainStart (Ok u) s)"
proof -
  note c = idle_ok_started [OF ok] and k = idle_ok_call [OF ok]
  have calls [simp]: "s_copiers (call_process x s) = s_copiers s" for x by (simp add: call_process_def)
  show "det_ok env (start_step env MainInit (Ok u) s)" if "s_main s = MainInit"
  proof -
    have e: "s_copiers s = {}" using c that by auto
    show ?thesis using e by (cases "se_pty env")
      (simp_all add: Let_def idle_ok_det idle_ok_spawn [OF k] idle_ok_main [OF k])
  qed
  show "det_ok env (start_step env MainStdout (Ok u) s)" if "s_main s = MainStdout"
    using c that by (fastforce simp: Let_def intro!: idle_ok_det idle_ok_spawn [OF k])
  show "det_ok env (start_step env MainStderr (Ok u) s)" if "s_main s = MainStderr"
  proof -
    have "s_copiers s \<subseteq> started_names (se_pty env) (s_main s)" using ok by (simp add: idle_ok_def)
    with that show ?thesis by (auto simp: Let_def intro!: idle_ok_det idle_ok_spawn [OF k])
  qed
  show "det_ok env (start_step env MainStdin (Ok u) s)" if "\<not> se_pty env" "s_main s = MainStdin"
  proof -
    have "s_copiers s \<subseteq> started_names (se_pty env) (s_main s)" using ok by (simp add: idle_ok_def)
    with that show ?thesis by (auto simp: Let_def intro!: idle_ok_det idle_ok_spawn [OF k])
  qed
  show "det_ok env (start_step env MainStart (Ok u) s)" if pc: "s_main s = MainStart"
  proof (cases "se_pty env")
    case False
    then show ?thesis using c pc k [of CallStart] by (auto simp: Let_def idle_ok_def intro!: start_succeeded_ok)
  next
    case True
    let ?s = "session_fmt_log env ''pty_start_success'' [] (call_process CallStart s)"
    have sub: "s_copiers s \<subseteq> {''session: winCh''}" using c pc True by auto
    have t: "track ?s (s_copiers ?s)" and cp: "s_copiers ?s = s_copiers s"
      using k [of CallStart] by (auto simp: idle_ok_def track_def session_fmt_log_def)
    from track_spawn [OF t, of "''session: input''"] sub
    have "track (spawn ''session: input'' ?s) (insert ''session: input'' (s_copiers s))" by (auto simp: cp)
    from track_spawn [OF this, of "''session: output''"] sub
    have "track (spawn ''session: output'' (spawn ''session: input'' ?s))
        (insert ''session: output'' (insert ''session: input'' (s_copiers s)))" by auto
    then show ?thesis using True sub
      by (auto simp: Let_def cp intro!: start_succeeded_ok)
  qed
qed

lemma det_ok_start:
  assumes "det_ok env s" and "starting (s_main s)" and "s_watch s = WatchIdle"
    and "s_main s = MainStdin \<longrightarrow> \<not> se_pty env"
  shows "det_ok env (start_step env (s_main s) r s)"
proof -
  have ok: "idle_ok env s" using assms(1,3) by (rule det_ok_idle)
  consider "s_main s = MainInit" | "s_main s = MainStdout" | "s_main s = MainStderr"
    | "s_main s = MainStdin" "\<not> se_pty env" | "s_main s = MainStart"
    using assms(2,4) by (auto simp: starting_def)
  then show ?thesis
    by cases (cases r; simp add: Let_def idle_ok_failed [OF ok] idle_ok_panic [OF ok]
        idle_ok_start_ok [OF ok, unfolded start_step.simps Let_def go.case])+
qed

lemma det_ok_fin:
  assumes "det_ok env s" and "finalize_step env lines f s = (f', s')"
  shows "s_main s = MainFinalize f \<Longrightarrow> det_ok env (s'\<lparr>s_main := MainFinalize f'\<rparr>)"
    and "s_watch s = WatchFinalize f \<Longrightarrow> det_ok env (s'\<lparr>s_watch := WatchFinalize f'\<rparr>)"
  using assms(1) finalize_step_frame [OF assms(2)]
  by (simp_all add: det_ok_def track_def live_names_def)

lemma det_ok_proc:
  assumes "det_ok env s" and "\<not> session_name (det_name x)" and "det_apply x (s_detector s) = (Ok (), d)"
  shows "det_ok env (s\<lparr>s_detector := d\<rparr>)"
proof -
  from assms(1) have i: "det_inv (s_detector s)" by (simp add: det_ok_def track_def)
  have "det_inv d \<and> {n \<in> outstanding d. session_name n} = {n \<in> outstanding (s_detector s). session_name n}"
    using det_apply_spec [OF i, of x] assms(2,3)
    by (cases x) (auto split: if_splits)
  with assms(1) show ?thesis by (simp add: det_ok_def track_def live_names_def)
qed

lemma det_ok_copier:
  assumes "det_ok env s" and "name \<in> s_copiers s"
  shows "det_ok env ((det_call (DetDone name) s)\<lparr>s_copiers := s_copiers s - {name}\<rparr>)"
proof -
  from assms(1) have t: "track s (live_names s)" and c: "s_copiers s \<subseteq> started_names (se_pty env) (s_main s)"
    by (auto simp: det_ok_def)
  have "name \<noteq> ctx_name" using c assms(2) started_names_session by blast
  moreover have "track (det_call (DetDone name) s) (live_names s - {name})"
    using t assms(2) by (intro track_done) (auto simp: live_names_def)
  moreover have "live_names s - {name} = (s_copiers s - {name}) \<union> (live_names s - s_copiers s - {name})"
    by (auto simp: live_names_def)
  ultimately show ?thesis using c
    by (cases "s_watch s") (auto simp: det_ok_def live_names_def track_def)
qed

lemma det_ok_watch:
  assumes "det_ok env s" and "s_watch s = WatchFinalize f"
  shows "det_ok env ((det_call (DetDone ctx_name) s)\<lparr>s_watch := WatchReturned f\<rparr>)"
proof -
  from assms(1) have t: "track s (live_names s)" and c: "s_copiers s \<subseteq> started_names (se_pty env) (s_main s)"
    by (auto simp: det_ok_def)
  have "ctx_name \<notin> s_copiers s" using c started_names_session by blast
  then have "live_names s - {ctx_name} = s_copiers s" using assms(2) by (auto simp: live_names_def)
  with track_done [OF t, of ctx_name] assms(2) c show ?thesis
    by (simp add: det_ok_def live_names_def track_def)
qed

lemma det_ok_step:
  "session_step env s l s' \<Longrightarrow> exit_inv s \<Longrightarrow> order_inv env s \<Longrightarrow> det_ok env s \<Longrightarrow> det_ok env s'"
proof (induction rule: session_step.induct)
  case (run_call s)
  show ?case
  proof (cases "locked (s_started s) = 0")
    case True
    have "s_main s = MainIdle" using run_call(2) True by (simp only: exit_inv_def Let_def simp_thms)
    moreover from this have "s_watch s = WatchIdle" using run_call(2) by (simp add: exit_inv_def Let_def)
    moreover from calculation have "s_copiers s = {}" using run_call(4) by (simp add: det_ok_def)
    ultimately show ?thesis using run_call(1) True
      by (simp add: run_called_simps det_ok_def track_def live_names_def)
  next
    case False
    with run_call show ?thesis by (simp add: run_called_simps det_ok_def track_def live_names_def)
  qed
next
  case (start_returns s r)
  from start_returns have "s_watch s = WatchIdle" by (simp add: exit_inv_def Let_def)
  moreover have "s_main s = MainStdin \<longrightarrow> \<not> se_pty env"
    using start_returns order_inv_call(2) [of env s CallStdin] by (auto simp: call_order_def split: if_splits)
  ultimately show ?case using start_returns by (intro det_ok_start)
next
  case (main_fin s f lines f' s')
  then show ?case by (intro det_ok_fin(1))
next
  case (watch_fin s f lines f' s')
  then show ?case by (intro det_ok_fin(2))
next
  case (watch_returns s f)
  then show ?case using det_ok_watch [of env s f] by (simp add: ctx_name_def)
next
  case (copier_returns s name)
  then show ?case by (intro det_ok_copier)
next
  case (proc_det s x d)
  then show ?case by (intro det_ok_proc)
next
  case (wait_returns s code err)
  then show ?case by (cases err) (simp_all add: det_ok_def track_def live_names_def session_ops)
qed (simp_all add: det_ok_def track_def live_names_def session_ops)

subsection \<open>Reachable states\<close>

fun watch_lost :: "watch_pc \<Rightarrow> bool \<Rightarrow> bool" where
  "watch_lost (WatchFinalize f) taken = (fin_stage f = FinLost \<longrightarrow> taken)"
| "watch_lost (WatchReturned f) taken = (fin_returned f \<and> (fin_stage f = FinLost \<longrightarrow> taken))"
| "watch_lost pc taken = True"

fun main_ret :: "main_pc \<Rightarrow> bool" where
  "main_ret (MainReturned f) = fin_returned f"
| "main_ret pc = True"

definition lost_inv :: "session \<Rightarrow> bool" where
  "lost_inv s \<longleftrightarrow> main_ret (s_main s) \<and> watch_lost (s_watch s) (locked (s_finished s) \<noteq> 0)"

lemma watch_lost_mono: "watch_lost w c \<Longrightarrow> watch_lost w True"
  by (cases w) auto

lemma lost_inv_new [simp]: "lost_inv (new_session lg)"
  by (simp add: lost_inv_def new_session_def)

lemma lost_inv_mono: "lost_inv s \<Longrightarrow> s_watch s' = s_watch s \<Longrightarrow> main_ret (s_main s') \<Longrightarrow>
    s_finished s' = s_finished s \<or> locked (s_finished s') \<noteq> 0 \<Longrightarrow> lost_inv s'"
  using watch_lost_mono [of "s_watch s" "locked (s_finished s) \<noteq> 0"] by (auto simp: lost_inv_def)

lemma start_step_ret: "starting (s_main s) \<Longrightarrow> main_ret (s_main (start_step env (s_main s) r s))"
  by (cases "(env, s_main s, r, s)" rule: start_step.cases)
    (auto simp: starting_def session_ops split: go.splits)

lemma lost_inv_step: "session_step env s l s' \<Longrightarrow> exit_inv s \<Longrightarrow> lost_inv s \<Longrightarrow> lost_inv s'"
proof (induction rule: session_step.induct)
  case (run_call s)
  then show ?case
    by (cases "locked (s_started s) = 0") (simp_all add: run_called_simps lost_inv_def)
next
  case (start_returns s r)
  then show ?case using start_step_frame(1) [of s env r] start_step_main(3) [of s env r]
      start_step_ret [of s env r]
    by (auto simp: lost_inv_def)
next
  case (main_fin s f lines f' s')
  from finalize_step_effect [OF main_fin(4,3)] finalize_step_frame(5) [OF main_fin(4)] main_fin(6)
  show ?case by (auto intro!: lost_inv_mono [of s] split: if_splits)
next
  case (watch_fin s f lines f' s')
  from finalize_step_effect [OF watch_fin(4,3)] watch_fin(3,6) finalize_step_frame(4) [OF watch_fin(4)]
  show ?case by (auto simp: lost_inv_def fin_returned_def split: if_splits)
next
  case (wait_returns s code err)
  then show ?case by (cases err) (simp_all add: lost_inv_def session_ops)
qed (simp_all add: lost_inv_def session_ops fin_returned_def)

text \<open>All invariants together, and one interpretation for what is reachable.\<close>

definition session_inv :: "session_env \<Rightarrow> session \<Rightarrow> bool" where
  "session_inv env s \<longleftrightarrow> exit_inv s \<and> order_inv env s \<and> cause_inv s \<and> det_ok env s \<and> lost_inv s"

interpretation sess: step_invariant "session_step env" "session_inv env" for env
  by unfold_locales
    (auto simp: session_inv_def intro: exit_inv_step order_inv_step cause_inv_step det_ok_step lost_inv_step)

lemma session_reachable:
  "run_path (session_step env) (new_session lg) ls s \<Longrightarrow> session_inv env s"
  by (rule sess.run_inv, assumption) (simp add: session_inv_def)

subsection \<open>Reaching the exit\<close>

definition own_step :: "session_label \<Rightarrow> bool" where
  "own_step l \<longleftrightarrow> (case l of MainFin lines \<Rightarrow> True | WatchFin lines \<Rightarrow> True | WatchFires \<Rightarrow> True | _ \<Rightarrow> False)"

definition can_exit :: "nat \<Rightarrow> session_env \<Rightarrow> session \<Rightarrow> bool" where
  "can_exit n env s \<longleftrightarrow> (\<exists>ls s'. length ls \<le> n \<and> list_all own_step ls \<and>
     run_path (session_step env) s ls s' \<and> s_exits s' \<noteq> [])"

lemma can_exit_now: "s_exits s \<noteq> [] \<Longrightarrow> can_exit n env s"
  by (auto simp: can_exit_def intro!: exI [of _ "[]"])

lemma can_exit_step:
  assumes "session_step env s l s'" and "own_step l" and "can_exit n env s'"
  shows "can_exit (Suc n) env s"
proof -
  from assms(3) obtain ls s'' where "length ls \<le> n" "list_all own_step ls"
      "run_path (session_step env) s' ls s''" "s_exits s'' \<noteq> []"
    by (auto simp: can_exit_def)
  with assms(1,2) show ?thesis unfolding can_exit_def
    by (intro exI [of _ "l # ls"] exI [of _ s'']) (auto intro: run_cons)
qed

lemma can_exit_mono: "can_exit n env s \<Longrightarrow> n \<le> m \<Longrightarrow> can_exit m env s"
  unfolding can_exit_def by (meson order.trans)

text \<open>A caller of \<open>finalize\<close> that has the lock needs no one else to reach \<open>Exit\<close>.\<close>

lemma can_exit_main:
  assumes "s_crash s = None" and "s_main s = MainFinalize f" and "1 \<le> fin_rank (fin_stage f)" and "fin_rank (fin_stage f) \<le> 4"
  shows "can_exit (5 - fin_rank (fin_stage f)) env s"
  using assms
proof (induction "5 - fin_rank (fin_stage f)" arbitrary: f s)
  case 0
  then show ?case by simp
next
  case (Suc n)
  have nr: "\<not> fin_returned f" using Suc.prems(3,4) by (auto simp: fin_returned_def)
  obtain f' s' where fs: "finalize_step env [] f s = (f', s')" by (metis prod.exhaust)
  note e = finalize_step_effect [OF fs nr] and fr = finalize_step_frame [OF fs]
  have r: "fin_rank (fin_stage f') = Suc (fin_rank (fin_stage f))" "fin_stage f \<noteq> FinLock"
    using e Suc.prems(3) by (auto split: if_splits)
  have "can_exit n env (s'\<lparr>s_main := MainFinalize f'\<rparr>)"
  proof (cases "fin_stage f = FinExit")
    case True
    with e show ?thesis by (intro can_exit_now) simp
  next
    case False
    then have "fin_rank (fin_stage f') \<le> 4" using r Suc.prems(4) fin_rank_cases(2) [of "fin_stage f"] by simp
    moreover have n: "n = 5 - fin_rank (fin_stage f')" using Suc(2) r by simp
    ultimately show ?thesis
      using Suc(1) [OF n, of "s'\<lparr>s_main := MainFinalize f'\<rparr>"] n r Suc.prems(1) fr(9) by simp
  qed
  from can_exit_step [OF main_fin [OF Suc.prems(1,2) nr fs] _ this] Suc(2) show ?case
    by (simp add: own_step_def)
qed

lemma can_exit_watch:
  assumes "s_crash s = None" and "s_watch s = WatchFinalize f" and "1 \<le> fin_rank (fin_stage f)" and "fin_rank (fin_stage f) \<le> 4"
  shows "can_exit (5 - fin_rank (fin_stage f)) env s"
  using assms
proof (induction "5 - fin_rank (fin_stage f)" arbitrary: f s)
  case 0
  then show ?case by simp
next
  case (Suc n)
  have nr: "\<not> fin_returned f" using Suc.prems(3,4) by (auto simp: fin_returned_def)
  obtain f' s' where fs: "finalize_step env [] f s = (f', s')" by (metis prod.exhaust)
  note e = finalize_step_effect [OF fs nr] and fr = finalize_step_frame [OF fs]
  have r: "fin_rank (fin_stage f') = Suc (fin_rank (fin_stage f))" "fin_stage f \<noteq> FinLock"
    using e Suc.prems(3) by (auto split: if_splits)
  have "can_exit n env (s'\<lparr>s_watch := WatchFinalize f'\<rparr>)"
  proof (cases "fin_stage f = FinExit")
    case True
    with e show ?thesis by (intro can_exit_now) simp
  next
    case False
    then have "fin_rank (fin_stage f') \<le> 4" using r Suc.prems(4) fin_rank_cases(2) [of "fin_stage f"] by simp
    moreover have n: "n = 5 - fin_rank (fin_stage f')" using Suc(2) r by simp
    ultimately show ?thesis
      using Suc(1) [OF n, of "s'\<lparr>s_watch := WatchFinalize f'\<rparr>"] n r Suc.prems(1) fr(9) by simp
  qed
  from can_exit_step [OF watch_fin [OF Suc.prems(1,2) nr fs] _ this] Suc(2) show ?case
    by (simp add: own_step_def)
qed

lemma can_exit_locked:
  assumes "session_inv env s" and "s_crash s = None" and "locked (s_finished s) \<noteq> 0"
  shows "can_exit 4 env s"
proof (cases "s_exits s = []")
  case False
  then show ?thesis by (rule can_exit_now)
next
  case True
  from assms(1) have inv: "exit_inv s" "lost_inv s" by (auto simp: session_inv_def)
  let ?rm = "main_rank (s_main s)" and ?rw = "watch_rank (s_watch s)"
  from inv(1) True assms(3) have small: "?rm \<le> 4" "?rw \<le> 4" and some: "1 \<le> ?rm \<or> 1 \<le> ?rw"
    by (auto simp: exit_inv_def Let_def split: if_splits)
  have ret: "\<not> fin_returned f" if "1 \<le> fin_rank (fin_stage f)" "fin_rank (fin_stage f) \<le> 4" for f
    using that by (auto simp: fin_returned_def)
  from some show ?thesis
  proof
    assume "1 \<le> ?rm"
    then obtain f where "s_main s = MainFinalize f" "1 \<le> fin_rank (fin_stage f)" "fin_rank (fin_stage f) \<le> 4"
      using small(1) inv(2) ret by (cases "s_main s") (auto simp: lost_inv_def)
    then show ?thesis
      by (intro can_exit_mono [OF can_exit_main [OF assms(2), of f env]]) simp_all
  next
    assume "1 \<le> ?rw"
    then obtain f where "s_watch s = WatchFinalize f" "1 \<le> fin_rank (fin_stage f)" "fin_rank (fin_stage f) \<le> 4"
      using small(2) inv(2) ret by (cases "s_watch s") (auto simp: lost_inv_def)
    then show ?thesis
      by (intro can_exit_mono [OF can_exit_watch [OF assms(2), of f env]]) simp_all
  qed
qed

lemma can_exit_main_lock:
  assumes inv: "session_inv env s" and ok: "s_crash s = None" and f: "s_main s = MainFinalize f"
    and stage: "fin_stage f = FinLock"
  shows "can_exit 5 env s"
proof -
  obtain f' s' where fs: "finalize_step env [] f s = (f', s')" by (metis prod.exhaust)
  have nr: "\<not> fin_returned f" using stage by (simp add: fin_returned_def)
  note step = main_fin [OF ok f nr fs]
  have "session_inv env (s'\<lparr>s_main := MainFinalize f'\<rparr>)" by (rule sess.inv_step [OF step inv])
  moreover have "locked (s_finished s') \<noteq> 0"
    using finalize_step_effect [OF fs nr] stage by auto
  ultimately have "can_exit 4 env (s'\<lparr>s_main := MainFinalize f'\<rparr>)"
    using finalize_step_frame(9) [OF fs] ok by (intro can_exit_locked) simp_all
  from can_exit_step [OF step _ this] show ?thesis by (simp add: own_step_def)
qed

lemma can_exit_watch_lock:
  assumes inv: "session_inv env s" and ok: "s_crash s = None" and f: "s_watch s = WatchFinalize f"
    and stage: "fin_stage f = FinLock"
  shows "can_exit 5 env s"
proof -
  obtain f' s' where fs: "finalize_step env [] f s = (f', s')" by (metis prod.exhaust)
  have nr: "\<not> fin_returned f" using stage by (simp add: fin_returned_def)
  note step = watch_fin [OF ok f nr fs]
  have "session_inv env (s'\<lparr>s_watch := WatchFinalize f'\<rparr>)" by (rule sess.inv_step [OF step inv])
  moreover have "locked (s_finished s') \<noteq> 0"
    using finalize_step_effect [OF fs nr] stage by auto
  ultimately have "can_exit 4 env (s'\<lparr>s_watch := WatchFinalize f'\<rparr>)"
    using finalize_step_frame(9) [OF fs] ok by (intro can_exit_locked) simp_all
  from can_exit_step [OF step _ this] show ?thesis by (simp add: own_step_def)
qed

lemma can_exit_cancelled:
  assumes inv: "session_inv env s" and ok: "s_crash s = None" and c: "s_ctx s" and w: "s_watch s \<noteq> WatchIdle"
  shows "can_exit 6 env s"
proof (cases "locked (s_finished s) = 0")
  case False
  with can_exit_locked [OF inv ok] show ?thesis by (auto elim: can_exit_mono)
next
  case True
  from inv have i: "exit_inv s" "lost_inv s" by (auto simp: session_inv_def)
  from i(1) True have r0: "watch_rank (s_watch s) = 0" by (simp add: exit_inv_def Let_def)
  show ?thesis
  proof (cases "s_watch s")
    case WatchIdle
    with w show ?thesis by simp
  next
    case WatchWait
    let ?s = "s\<lparr>s_watch := WatchFinalize (Fin FinLock 255 None)\<rparr>"
    note step = watch_fires [OF ok WatchWait c, of env]
    have "can_exit 5 env ?s"
      by (rule can_exit_watch_lock [OF sess.inv_step [OF step inv], of "Fin FinLock 255 None"]) (simp_all add: ok)
    from can_exit_step [OF step _ this] show ?thesis by (simp add: own_step_def)
  next
    case (WatchFinalize f)
    with r0 i(2) True have "fin_stage f = FinLock" by (auto simp: lost_inv_def fin_rank_cases)
    from can_exit_watch_lock [OF inv ok WatchFinalize this] show ?thesis by (auto elim: can_exit_mono)
  next
    case (WatchReturned f)
    with r0 i(2) True show ?thesis by (auto simp: lost_inv_def fin_rank_cases fin_returned_def)
  qed
qed

lemma distinct_by_filter:
  "distinct (filter (\<lambda>x. x \<noteq> a) xs) \<Longrightarrow> count_list xs a \<le> 1 \<Longrightarrow> distinct xs"
  by (induction xs) (auto simp: count_list_0_iff split: if_splits)

text \<open>The calls that \<open>Run\<close> makes are strictly increasing in the order of the interface.\<close>

lemma main_calls_sorted:
  assumes "order_inv env s"
  shows "sorted_wrt (<) (main_calls s)"
proof -
  have "sorted_wrt (<) (call_order b)" for b
    by (simp add: call_order_def less_proc_call_def)
  with assms show ?thesis by (auto simp: order_inv_def prefix_def sorted_wrt_append dest!: arg_cong [where f = "sorted_wrt (<)"])
qed

lemma session_calls_distinct:
  assumes "run_path (session_step env) (new_session lg) ls s"
  shows "distinct (s_calls s)"
proof -
  from session_reachable [OF assms] have inv: "exit_inv s" "order_inv env s" by (auto simp: session_inv_def)
  have "distinct (filter (\<lambda>c. c \<noteq> CallCleanup) (s_calls s))"
    using main_calls_sorted [OF inv(2)] by (simp add: main_calls_def strict_sorted_iff)
  moreover have "count_list (s_calls s) CallCleanup = (if s_kill s = KillDone then 1 else 0)"
    using inv(1) by (simp add: exit_inv_def Let_def)
  ultimately show ?thesis
    using distinct_by_filter [of CallCleanup "s_calls s"] by (simp split: if_splits)
qed

text \<open>Where the status of an exit comes from.\<close>

lemma session_exit_status_cases:
  assumes "run_path (session_step env) (new_session lg) ls s" and "s_exits s = [status]"
  shows "(\<exists>err. s_waited s = Some (status, err)) \<or> (status = 255 \<and> (s_ctx s \<or> s_waited s = None))"
proof -
  from session_reachable [OF assms(1)] have inv: "exit_inv s" "cause_inv s" by (auto simp: session_inv_def)
  show ?thesis
  proof (cases "5 \<le> main_rank (s_main s)")
    case True
    with inv(1) assms(2) have "main_status (s_main s) = status" by (simp add: exit_inv_def Let_def)
    with True inv(2) show ?thesis by (cases "s_main s") (auto simp: cause_inv_def fin_cause_def)
  next
    case False
    with inv(1) assms(2) have "5 \<le> watch_rank (s_watch s)" "watch_status (s_watch s) = status"
      by (auto simp: exit_inv_def Let_def split: if_splits)
    with inv(2) show ?thesis by (cases "s_watch s") (auto simp: cause_inv_def)
  qed
qed

section \<open>Properties\<close>

text \<open>
  The examples: a session without a pty whose process returns status 3, and one that is
  disconnected while the process runs.
\<close>

definition toy_env :: session_env where
  "toy_env = \<lparr>se_peer = \<lparr>peer_user = ''user'', peer_addr = ''addr''\<rparr>, se_pty = False,
     se_err_text = (\<lambda>e. ''error''), se_leak_enabled = False\<rparr>"

definition start_schedule :: "session_label list" where
  "start_schedule = RunCall # replicate 5 (StartReturns (Ok ()))"

definition normal_schedule :: "session_label list" where
  "normal_schedule = start_schedule @ [WaitReturns 3 None] @ replicate 6 (MainFin []) @ [RunReturns, CleanupReturns True]"

definition cancel_schedule :: "session_label list" where
  "cancel_schedule = start_schedule @ [CtxDone, WatchFires, WatchFin [], WaitReturns 0 None, MainFin [], RunReturns]"

lemma normal_exec:
  "map_option (\<lambda>s. (s_exits s, s_calls s, s_ctx s, s_waited s)) (session_exec toy_env normal_schedule (new_session [])) =
     Some ([3], [CallInit, CallStdout, CallStderr, CallStdin, CallStart, CallWait, CallCleanup], False, Some (3, None))"
  by code_simp

lemma normal_run:
  obtains s where "run_path (session_step toy_env) (new_session []) normal_schedule s"
    and "s_exits s = [3]" "s_ctx s = False" "s_waited s = Some (3, None)"
    "s_calls s = [CallInit, CallStdout, CallStderr, CallStdin, CallStart, CallWait, CallCleanup]"
  using normal_exec by (auto simp: session_exec_run)

fun returned_lost :: "main_pc \<Rightarrow> bool" where
  "returned_lost (MainReturned f) = (fin_stage f = FinLost)"
| "returned_lost pc = False"

lemma cancel_exec:
  "map_option (\<lambda>s. (s_exits s, s_crash s, s_ctx s, s_watch s, returned_lost (s_main s)))
     (session_exec toy_env cancel_schedule (new_session [])) =
     Some ([], None, True, WatchFinalize (Fin FinStderr 255 None), True)"
  by code_simp

lemma cancel_run:
  obtains s f where "run_path (session_step toy_env) (new_session []) cancel_schedule s"
    and "s_exits s = []" "s_crash s = None" "s_ctx s" "s_watch s = WatchFinalize (Fin FinStderr 255 None)"
    "s_main s = MainReturned f"
proof -
  from cancel_exec obtain s where "run_path (session_step toy_env) (new_session []) cancel_schedule s"
    and "s_exits s = []" "s_crash s = None" "s_ctx s" "s_watch s = WatchFinalize (Fin FinStderr 255 None)"
    and "returned_lost (s_main s)"
    by (auto simp: session_exec_run)
  moreover from this(6) obtain f where "s_main s = MainReturned f" by (cases "s_main s") auto
  ultimately show thesis using that by blast
qed

text \<open>
  C3.  However the goroutines of a session interleave, the session is exited at most once,
  every method of the process is called at most once, the methods that \<open>Run\<close> calls are called
  in the order of the interface (without the streams when there is a pty), and the process is
  cleaned up only after the session was exited.
\<close>

theorem session_calls_once:
  assumes "run_path (session_step env) (new_session lg) ls s"
  shows "length (s_exits s) \<le> 1 \<and> distinct (s_calls s) \<and>
    prefix (filter (\<lambda>c. c \<noteq> CallCleanup) (s_calls s))
      (if se_pty env then [CallInit, CallStart, CallWait]
       else [CallInit, CallStdout, CallStderr, CallStdin, CallStart, CallWait]) \<and>
    (CallCleanup \<in> set (s_calls s) \<longrightarrow> s_exits s \<noteq> [])"
proof -
  from session_reachable [OF assms] have inv: "exit_inv s" "order_inv env s" by (auto simp: session_inv_def)
  have "prefix (filter (\<lambda>c. c \<noteq> CallCleanup) (s_calls s)) (call_order (se_pty env))"
    using inv(2) by (simp add: order_inv_def main_calls_def)
  moreover have "length (s_exits s) \<le> 1" using inv(1) by (simp add: exit_inv_def Let_def)
  moreover have "s_exits s \<noteq> []" if "CallCleanup \<in> set (s_calls s)"
  proof -
    have "count_list (s_calls s) CallCleanup = (if s_kill s = KillDone then 1 else 0)"
      using inv(1) by (simp add: exit_inv_def Let_def)
    with that have "s_kill s = KillDone" by (auto simp: count_list_0_iff split: if_splits)
    with inv(1) show ?thesis by (auto simp: exit_inv_def Let_def)
  qed
  ultimately show ?thesis using session_calls_distinct [OF assms] by (simp add: call_order_def)
qed

theorem session_calls_once_witness:
  "\<exists>s. session_exec toy_env normal_schedule (new_session []) = Some s \<and> length (s_exits s) \<le> 1 \<and> s_exits s \<noteq> []"
proof -
  obtain s where run: "run_path (session_step toy_env) (new_session []) normal_schedule s" and "s_exits s = [3]"
    by (rule normal_run)
  with session_calls_once [OF run] show ?thesis by (auto simp: session_exec_run)
qed

text \<open>
  The status that a session exits with is the one that the process's \<open>Wait\<close> returned,
  or else 255, and then the context was cancelled or \<open>Wait\<close> was not reached.
\<close>

theorem session_exit_status:
  assumes "run_path (session_step env) (new_session lg) ls s" and "s_exits s = [status]"
  shows "(\<exists>err. s_waited s = Some (status, err)) \<or> (status = 255 \<and> (s_ctx s \<or> s_waited s = None))"
  by (rule session_exit_status_cases [OF assms])

theorem session_exit_status_witness:
  "\<exists>s. session_exec toy_env normal_schedule (new_session []) = Some s \<and> s_exits s = [3] \<and>
     (\<exists>err. s_waited s = Some (3, err))"
proof -
  obtain s where run: "run_path (session_step toy_env) (new_session []) normal_schedule s" and e: "s_exits s = [3]"
    by (rule normal_run)
  from session_exit_status [OF run e] run e show ?thesis by (auto simp: session_exec_run)
qed

text \<open>
  The session never misuses its leak detector, whatever names the process adds for
  itself: \<open>Add\<close> and \<open>Done\<close> never panic, and the session's names that are outstanding are
  exactly those of its goroutines that still run.
\<close>

theorem session_detector_exact:
  assumes "run_path (session_step env) (new_session lg) ls s"
  shows "s_crash s \<noteq> Some CrashDetector \<and>
    {n \<in> outstanding (s_detector s). session_name n} = live_names s"
  using session_reachable [OF assms] by (simp add: session_inv_def det_ok_def track_def)

theorem session_detector_exact_witness:
  "\<exists>s. session_exec toy_env normal_schedule (new_session []) = Some s \<and>
     {n \<in> outstanding (s_detector s). session_name n} = live_names s"
proof -
  obtain s where run: "run_path (session_step toy_env) (new_session []) normal_schedule s" by (rule normal_run)
  with session_detector_exact [OF run] show ?thesis by (auto simp: session_exec_run)
qed

text \<open>
  Disconnecting ends a session: in every reachable state in which the process was started
  and the context is cancelled (and the server has not crashed), at most six steps of \<open>finalize\<close>
  and the watching goroutine lead to the exit, whatever the process and the streams do.
\<close>

theorem session_cancel_exits:
  assumes "run_path (session_step env) (new_session lg) ls s"
    and "s_crash s = None" and "s_ctx s" and "s_watch s \<noteq> WatchIdle"
  shows "can_exit 6 env s"
  by (rule can_exit_cancelled [OF session_reachable [OF assms(1)] assms(2-4)])

theorem session_cancel_exits_witness:
  "\<exists>s. session_exec toy_env cancel_schedule (new_session []) = Some s \<and> s_exits s = [] \<and> can_exit 6 toy_env s"
proof -
  obtain s and f :: fin where run: "run_path (session_step toy_env) (new_session []) cancel_schedule s"
    and s: "s_exits s = []" "s_crash s = None" "s_ctx s" "s_watch s = WatchFinalize (Fin FinStderr 255 None)"
    by (rule cancel_run)
  from session_cancel_exits [OF run s(2,3)] s(1,4) run show ?thesis by (auto simp: session_exec_run)
qed

text \<open>
  \<open>Run\<close> can return while the session has not been exited: the watching goroutine has
  taken the lock of \<open>finalize\<close> and has not called \<open>Exit\<close> yet when \<open>Run\<close>'s own call of
  \<open>finalize\<close> gives up.
\<close>

theorem run_returns_before_exit:
  "\<exists>ls s f. run_path (session_step toy_env) (new_session []) ls s \<and> s_main s = MainReturned f \<and>
     s_crash s = None \<and> s_exits s = []"
proof -
  obtain s f where "run_path (session_step toy_env) (new_session []) cancel_schedule s"
    and "s_exits s = []" "s_crash s = None" "s_main s = MainReturned f"
    by (rule cancel_run)
  then show ?thesis by blast
qed

end
