(* ===== verification/Handle.thy ===== *)
theory Handle
  imports SessionInv Configuration
begin

text \<open>
  The second half of \<open>handle.go\<close>, what a session handler does with a connection, and the
  contract of the interface \<open>Process\<close> that \<open>session.go\<close> relies on.
\<close>

section \<open>The session handler\<close>

text \<open>
  What a handler can do to a session before \<open>Run\<close>: the log, the bytes written to the
  session's stderr, the statuses it was exited with.  \<open>handle\<close> is the \<open>Handle\<close> method
  of the configuration, \<open>show_process\<close> the process's \<open>String\<close> and \<open>run\<close> the session's \<open>Run\<close>;
  a panic goes on to the caller after the deferred call.
\<close>

record session_view =
  v_log :: log
  v_stderr :: string
  v_exits :: "int list"

definition view_log :: "peer \<Rightarrow> string \<Rightarrow> fmtarg list \<Rightarrow> session_view \<Rightarrow> session_view" where
  "view_log peer message args v = v\<lparr>v_log := fmt_ssh_log peer message args (v_log v)\<rparr>"

definition abortsession :: "(go_error \<Rightarrow> string) \<Rightarrow> peer \<Rightarrow> go_error \<Rightarrow> session_view \<Rightarrow> session_view" where
  "abortsession err_text peer err v =
     (let errmsg = err_text err;
          v1 = view_log peer ''session_command %s'' [FStr errmsg] v;
          v2 = v1\<lparr>v_stderr := v_stderr v1 @ errmsg @ [nl]\<rparr>
      in v2\<lparr>v_exits := v_exits v2 @ [255]\<rparr>)"

text \<open>The second check of \<open>err\<close> in the code is never true: nothing assigns it in between.\<close>

definition process_handler ::
  "(go_error \<Rightarrow> string) \<Rightarrow> peer \<Rightarrow> (session_view \<Rightarrow> 'p go \<times> session_view) \<Rightarrow> ('p \<Rightarrow> string)
     \<Rightarrow> ('p \<Rightarrow> session_view \<Rightarrow> unit go \<times> session_view) \<Rightarrow> session_view \<Rightarrow> unit go \<times> session_view" where
  "process_handler err_text peer handle show_process run v =
     (let v1 = view_log peer ''session_start %s'' [FStr (peer_user peer)] v;
          (r, v2) =
            (case handle v1 of
               (Panic m, w) \<Rightarrow> (Panic m, w)
             | (Err err, w) \<Rightarrow> (Ok (), abortsession err_text peer (ErrWrap err ''Failed to create process'') w)
             | (Ok process, w) \<Rightarrow>
                 (case run process (view_log peer ''session_valid %s'' [FStr (show_process process)] w) of
                    (Panic m, w') \<Rightarrow> (Panic m, w')
                  | (q, w') \<Rightarrow> (Ok (), w')))
      in (r, view_log peer ''session_end'' [] v2))"

section \<open>The contract of a process\<close>

text \<open>
  Calls of a process's methods, one after the other; an error is handed to the session, which
  decides what to call next, and a panic ends the server.
\<close>

fun run_calls :: "(proc_call \<Rightarrow> 's \<Rightarrow> unit go \<times> 's) \<Rightarrow> proc_call list \<Rightarrow> 's \<Rightarrow> unit go \<times> 's" where
  "run_calls call [] s = (Ok (), s)"
| "run_calls call (c # cs) s =
     (case call c s of
        (Panic m, s') \<Rightarrow> (Panic m, s')
      | (r, s') \<Rightarrow> run_calls call cs s')"

locale process_impl =
  fixes call :: "proc_call \<Rightarrow> 's \<Rightarrow> unit go \<times> 's"
    and fresh ready :: "'s \<Rightarrow> bool"
  assumes init_safe: "fresh s \<Longrightarrow> call CallInit s = (r, s') \<Longrightarrow> \<not> is_panic r \<and> ready s'"
    and call_safe: "ready s \<Longrightarrow> c \<noteq> CallInit \<Longrightarrow> call c s = (r, s') \<Longrightarrow> \<not> is_panic r \<and> ready s'"
begin

lemma calls_ready: "ready s \<Longrightarrow> CallInit \<notin> set cs \<Longrightarrow> \<not> is_panic (fst (run_calls call cs s)) \<and> ready (snd (run_calls call cs s))"
proof (induction cs arbitrary: s)
  case (Cons c cs)
  obtain r s' where c: "call c s = (r, s')" by (metis prod.exhaust)
  with call_safe [OF Cons.prems(1) _ c] Cons.prems Cons.IH [of s'] show ?case
    by (cases r) auto
qed simp

lemma calls_fresh: "fresh s \<Longrightarrow> CallInit \<notin> set cs \<Longrightarrow> \<not> is_panic (fst (run_calls call (CallInit # cs) s))"
proof -
  assume s: "fresh s" and cs: "CallInit \<notin> set cs"
  obtain r s' where c: "call CallInit s = (r, s')" by (metis prod.exhaust)
  from init_safe [OF s c] calls_ready [of s' cs] cs c show ?thesis by (cases r) auto
qed

end

section \<open>What a session calls first\<close>

definition begun :: "session \<Rightarrow> bool" where
  "begun s \<longleftrightarrow> (s_calls s \<noteq> [] \<longrightarrow> hd (s_calls s) = CallInit) \<and>
     (s_main s \<notin> {MainIdle, MainInit} \<longrightarrow> s_calls s \<noteq> [])"

lemma begun_append: "begun s \<Longrightarrow> s_calls s \<noteq> [] \<Longrightarrow> s_calls s' = s_calls s @ cs \<Longrightarrow> begun s'"
  by (auto simp: begun_def)

lemma begun_keep: "begun s \<Longrightarrow> s_calls s' = s_calls s \<Longrightarrow>
    s_main s' = s_main s \<or> s_calls s \<noteq> [] \<or> s_main s' = MainInit \<Longrightarrow> begun s'"
  by (auto simp: begun_def)

lemma begun_calls: "begun s \<Longrightarrow> s_main s \<noteq> MainIdle \<Longrightarrow> s_main s \<noteq> MainInit \<Longrightarrow> s_calls s \<noteq> []"
  by (auto simp: begun_def)

lemma kill_begun:
  assumes "session_inv env s" and "s_kill s = KillCleanup" and "begun s"
  shows "s_calls s \<noteq> []"
proof (rule begun_calls [OF assms(3)])
  from assms(1) have i: "exit_inv s" by (simp add: session_inv_def)
  show "s_main s \<noteq> MainIdle" "s_main s \<noteq> MainInit"
    using i assms(2) by (force simp: exit_inv_def Let_def starting_def)+
qed

lemma begun_step: "session_step env s l s' \<Longrightarrow> session_inv env s \<Longrightarrow> begun s \<Longrightarrow> begun s'"
proof (induction rule: session_step.induct)
  case (run_call s)
  then show ?case
    by (cases "locked (s_started s) = 0") (auto simp: run_called_simps begun_def)
next
  case (start_returns s r)
  show ?case
  proof (cases "s_main s = MainInit")
    case True
    have "s_calls (start_step env MainInit r s) = s_calls s @ [CallInit]"
      by (cases r) (auto simp: session_ops)
    then show ?thesis using start_returns(4) by (cases "s_calls s") (auto simp: begun_def True)
  next
    case False
    then have "s_calls s \<noteq> []" using start_returns(2,4) by (auto simp: begun_def starting_def)
    moreover have "\<exists>cs. s_calls (start_step env (s_main s) r s) = s_calls s @ cs"
      using start_returns(2) by (cases "(env, s_main s, r, s)" rule: start_step.cases)
        (auto simp: starting_def session_ops split: go.splits)
    ultimately show ?thesis using begun_append [OF start_returns(4)] by blast
  qed
next
  case (wait_returns s code err)
  then have "s_calls s \<noteq> []" by (auto simp: begun_def)
  with wait_returns show ?case by (cases err) (auto simp: session_ops begun_def)
next
  case (wait_panics s)
  then have "s_calls s \<noteq> []" by (auto simp: begun_def)
  with wait_panics show ?case by (auto simp: session_ops begun_def)
next
  case (main_fin s f lines f' s')
  then show ?case using finalize_step_frame(4,8) [OF main_fin(4)] by (auto simp: begun_def)
next
  case (watch_fin s f lines f' s')
  then show ?case using finalize_step_frame(4,8) [OF watch_fin(4)] by (auto simp: begun_def)
next
  case (cleanup_returns s res)
  then have "s_calls s \<noteq> []" using kill_begun [of env s] by simp
  with cleanup_returns(4) show ?case by (simp add: begun_def session_ops)
next
  case (cleanup_panics s)
  then have "s_calls s \<noteq> []" using kill_begun [of env s] by simp
  with cleanup_panics(4) show ?case by (simp add: begun_def session_ops)
qed (auto simp: begun_def session_ops)

interpretation begin_calls: step_invariant "session_step env" "\<lambda>s. session_inv env s \<and> begun s" for env
  by unfold_locales (auto intro: begun_step sess.inv_step)

lemma session_calls_begin:
  assumes "run_path (session_step env) (new_session lg) ls s"
  shows "s_calls s = [] \<or> (\<exists>cs. s_calls s = CallInit # cs)"
proof -
  have "session_inv env (new_session lg) \<and> begun (new_session lg)"
    by (simp add: session_inv_def) (simp add: begun_def new_session_def)
  from begin_calls.run_inv [OF assms this] show ?thesis by (cases "s_calls s") (auto simp: begun_def)
qed

text \<open>
  The methods that a session calls are safe on every implementation of the contract: the
  order in which they are called starts with \<open>Init\<close>, and it comes once.
\<close>

context process_impl
begin

lemma session_safe:
  assumes "run_path (session_step env) (new_session lg) ls s" and "fresh p"
  shows "\<not> is_panic (fst (run_calls call (s_calls s) p))"
proof (cases "s_calls s = []")
  case False
  with session_calls_begin [OF assms(1)] obtain cs where cs: "s_calls s = CallInit # cs" by blast
  with session_calls_distinct [OF assms(1)] assms(2) calls_fresh [of p cs] show ?thesis by simp
qed simp

end

section \<open>Properties\<close>

text \<open>
  A session handler logs the start and the end of every session, also when the
  configuration's \<open>Handle\<close> or the session panics.  When \<open>Handle\<close> fails, the session is not
  run: the error goes to the log and to the user's stderr, and the session is exited once,
  with 255.
\<close>

theorem process_handler_branches:
  "let v1 = view_log peer ''session_start %s'' [FStr (peer_user peer)] v;
       r = process_handler err_text peer handle show_process run v
   in (case handle v1 of
         (Panic m, w) \<Rightarrow> r = (Panic m, view_log peer ''session_end'' [] w)
       | (Err e, w) \<Rightarrow>
           (let msg = err_text (ErrWrap e ''Failed to create process'')
            in r = (Ok (), \<lparr>v_log = v_log w @ [log_prefix peer @ ''session_command '' @ msg, log_prefix peer @ ''session_end''],
                            v_stderr = v_stderr w @ msg @ [nl], v_exits = v_exits w @ [255]\<rparr>))
       | (Ok p, w) \<Rightarrow>
           (case run p (view_log peer ''session_valid %s'' [FStr (show_process p)] w) of
              (q, w') \<Rightarrow> snd r = view_log peer ''session_end'' [] w' \<and> is_panic (fst r) = is_panic q))"
proof -
  obtain h w where h: "handle (view_log peer ''session_start %s'' [FStr (peer_user peer)] v) = (h, w)"
    by (metis prod.exhaust)
  show ?thesis
  proof (cases h)
    case (Ok p)
    obtain q w' where "run p (view_log peer ''session_valid %s'' [FStr (show_process p)] w) = (q, w')"
      by (metis prod.exhaust)
    with h Ok show ?thesis by (cases q) (simp_all add: process_handler_def Let_def)
  next
    case (Err e)
    with h show ?thesis
      by (simp add: process_handler_def abortsession_def view_log_def fmt_ssh_log_eq Let_def fmt_verb_def fmt_extra_def)
  next
    case (Panic m)
    with h show ?thesis by (simp add: process_handler_def Let_def)
  qed
qed

end
