(* ===== verification/AsyncIO.thy ===== *)
theory AsyncIO
  imports Logging
begin

text \<open>
  \<open>internal/asyncio\<close>: \<open>Wait\<close>, the buffer pool, \<open>Read\<close> and \<open>Write\<close> with the
  buffers they take from the pool, and the copy loops built on them.

  \<open>Wait\<close> starts the action in a goroutine of its own, so it is a step relation: the waiting
  goroutine, the action's goroutine, the context and the timer move independently.  Any number
  of \<open>Read\<close> and \<open>Write\<close> calls that share the pool form the system \<open>io_step\<close>, whose steps
  are the steps of each call's \<open>Wait\<close>.  The bytes that a copy moves are modelled separately,
  by state passing.
\<close>

section \<open>\<open>Wait\<close>\<close>

text \<open>Where the waiting goroutine stands, and how far the action's goroutine has come.\<close>

datatype wait_pc = WaitEntry | WaitSelect1 | WaitCancel | WaitTimeout | WaitSelect2 | WaitDone bool

datatype action_state = ActIdle | ActRunning | ActReturned | ActClosed

record wait_state =
  wt_pc :: wait_pc
  wt_action :: action_state
  wt_ctx :: bool
  wt_timer :: bool
  wt_cancels :: nat

definition wait_init :: "bool \<Rightarrow> wait_state" where
  "wait_init cancelled =
     \<lparr>wt_pc = WaitEntry, wt_action = ActIdle, wt_ctx = cancelled, wt_timer = False, wt_cancels = 0\<rparr>"

datatype wait_label =
    WlEnter | WlReturn bool | WlMove | WlCancel
  | WlContext | WlTimer | WlActionReturns | WlActionClosed

text \<open>
  \<open>timeout\<close> and whether a \<open>cancel\<close> function was given are parameters.  Where both cases of
  a \<open>select\<close> are ready, either rule applies.
\<close>

inductive wait_step :: "int \<Rightarrow> bool \<Rightarrow> wait_state \<Rightarrow> wait_label \<Rightarrow> wait_state \<Rightarrow> bool"
  for timeout :: int and has_cancel :: bool where
  entry_closed: "wt_pc w = WaitEntry \<Longrightarrow> wt_ctx w \<Longrightarrow>
     wait_step timeout has_cancel w (WlReturn False) (w\<lparr>wt_pc := WaitDone False\<rparr>)"
| entry_go: "wt_pc w = WaitEntry \<Longrightarrow> \<not> wt_ctx w \<Longrightarrow>
     wait_step timeout has_cancel w WlEnter (w\<lparr>wt_pc := WaitSelect1, wt_action := ActRunning\<rparr>)"
| select1_done: "wt_pc w = WaitSelect1 \<Longrightarrow> wt_action w = ActClosed \<Longrightarrow>
     wait_step timeout has_cancel w (WlReturn True) (w\<lparr>wt_pc := WaitDone True\<rparr>)"
| select1_ctx: "wt_pc w = WaitSelect1 \<Longrightarrow> wt_ctx w \<Longrightarrow>
     wait_step timeout has_cancel w WlMove (w\<lparr>wt_pc := WaitCancel\<rparr>)"
| call_cancel: "wt_pc w = WaitCancel \<Longrightarrow>
     wait_step timeout has_cancel w WlCancel
       (w\<lparr>wt_pc := WaitTimeout, wt_cancels := wt_cancels w + (if has_cancel then 1 else 0)\<rparr>)"
| no_timeout: "wt_pc w = WaitTimeout \<Longrightarrow> timeout \<le> 0 \<Longrightarrow>
     wait_step timeout has_cancel w (WlReturn False) (w\<lparr>wt_pc := WaitDone False\<rparr>)"
| start_timeout: "wt_pc w = WaitTimeout \<Longrightarrow> 0 < timeout \<Longrightarrow>
     wait_step timeout has_cancel w WlMove (w\<lparr>wt_pc := WaitSelect2\<rparr>)"
| select2_done: "wt_pc w = WaitSelect2 \<Longrightarrow> wt_action w = ActClosed \<Longrightarrow>
     wait_step timeout has_cancel w (WlReturn True) (w\<lparr>wt_pc := WaitDone True\<rparr>)"
| select2_timer: "wt_pc w = WaitSelect2 \<Longrightarrow> wt_timer w \<Longrightarrow>
     wait_step timeout has_cancel w (WlReturn False) (w\<lparr>wt_pc := WaitDone False\<rparr>)"
| context_cancelled: "wait_step timeout has_cancel w WlContext (w\<lparr>wt_ctx := True\<rparr>)"
| timer_fires: "wt_pc w = WaitSelect2 \<Longrightarrow>
     wait_step timeout has_cancel w WlTimer (w\<lparr>wt_timer := True\<rparr>)"
| action_returns: "wt_action w = ActRunning \<Longrightarrow>
     wait_step timeout has_cancel w WlActionReturns (w\<lparr>wt_action := ActReturned\<rparr>)"
| action_closed: "wt_action w = ActReturned \<Longrightarrow>
     wait_step timeout has_cancel w WlActionClosed (w\<lparr>wt_action := ActClosed\<rparr>)"

definition wait_inv :: "bool \<Rightarrow> wait_state \<Rightarrow> bool" where
  "wait_inv has_cancel w \<longleftrightarrow>
     (wt_pc w = WaitEntry \<longrightarrow> wt_action w = ActIdle) \<and>
     (wt_pc w \<in> {WaitSelect1, WaitCancel, WaitTimeout, WaitSelect2} \<longrightarrow> wt_action w \<noteq> ActIdle) \<and>
     (wt_pc w = WaitDone True \<longrightarrow> wt_action w = ActClosed) \<and>
     (wt_pc w \<in> {WaitCancel, WaitTimeout, WaitSelect2, WaitDone False} \<longrightarrow> wt_ctx w) \<and>
     (wt_pc w \<in> {WaitEntry, WaitSelect1, WaitCancel} \<longrightarrow> wt_cancels w = 0) \<and>
     wt_cancels w \<le> (if has_cancel \<and> wt_ctx w \<and> wt_action w \<noteq> ActIdle then 1 else 0)"

lemma wait_inv_init [simp]: "wait_inv has_cancel (wait_init c)"
  by (simp add: wait_inv_def wait_init_def)

lemma wait_step_inv [go_inv]: "wait_step timeout has_cancel w l w' \<Longrightarrow> wait_inv has_cancel w \<Longrightarrow> wait_inv has_cancel w'"
  by (induction rule: wait_step.induct) (simp_all add: wait_inv_def split: if_splits)

interpretation wait: step_invariant "wait_step timeout has_cancel" "wait_inv has_cancel" for timeout has_cancel
  by unfold_locales (rule wait_step_inv)

text \<open>A call whose context is cancelled before it starts.\<close>

definition wait_skipped :: "wait_state \<Rightarrow> bool" where
  "wait_skipped w \<longleftrightarrow> wt_ctx w \<and> wt_action w = ActIdle \<and> wt_cancels w = 0 \<and>
     wt_pc w \<in> {WaitEntry, WaitDone False}"

interpretation skip: step_invariant "wait_step timeout has_cancel" wait_skipped for timeout has_cancel
  by unfold_locales (erule wait_step.cases; auto simp: wait_skipped_def)

text \<open>Within \<open>n\<close> steps of the waiting goroutine and its timer alone, the call returns.\<close>

definition own_label :: "wait_label \<Rightarrow> bool" where
  "own_label l \<longleftrightarrow> l \<in> {WlMove, WlCancel, WlTimer, WlReturn True, WlReturn False}"

definition can_return :: "nat \<Rightarrow> int \<Rightarrow> bool \<Rightarrow> wait_state \<Rightarrow> bool" where
  "can_return n timeout hc w \<longleftrightarrow> (\<exists>ls w' b. length ls \<le> n \<and> list_all own_label ls \<and>
     run_path (wait_step timeout hc) w ls w' \<and> wt_pc w' = WaitDone b)"

lemma can_return_done: "wt_pc w = WaitDone b \<Longrightarrow> can_return n timeout hc w"
  by (auto simp: can_return_def intro!: exI [of _ "[]"])

lemma can_return_done_upd [simp]: "can_return n timeout hc (w\<lparr>wt_pc := WaitDone b\<rparr>)"
  by (rule can_return_done [of _ b]) simp

lemma can_return_step:
  assumes "wait_step timeout hc w l w'" and "own_label l" and "can_return n timeout hc w'"
  shows "can_return (Suc n) timeout hc w"
proof -
  from assms(3) obtain ls w'' b where "length ls \<le> n" "list_all own_label ls"
      "run_path (wait_step timeout hc) w' ls w''" "wt_pc w'' = WaitDone b"
    by (auto simp: can_return_def)
  with assms(1,2) show ?thesis unfolding can_return_def
    by (intro exI [of _ "l # ls"] exI [of _ w''] exI [of _ b]) (auto intro: run_cons)
qed

lemma can_return_mono: "can_return n timeout hc w \<Longrightarrow> n \<le> m \<Longrightarrow> can_return m timeout hc w"
  unfolding can_return_def by (meson order.trans)

lemma own_labels [simp]: "own_label WlMove" "own_label WlCancel" "own_label WlTimer" "own_label (WlReturn b)"
  by (auto simp: own_label_def)

lemma can_return_select2:
  assumes "wt_pc w = WaitSelect2" shows "can_return 2 timeout hc w"
proof -
  have "can_return 1 timeout hc (w\<lparr>wt_timer := True\<rparr>)"
    using can_return_step [where n = 0, OF select2_timer [of "w\<lparr>wt_timer := True\<rparr>" timeout hc]] assms by simp
  with can_return_step [where n = 1, OF timer_fires [OF assms, of timeout hc]] show ?thesis by (simp add: numeral_2_eq_2)
qed

lemma can_return_timeout:
  assumes "wt_pc w = WaitTimeout" shows "can_return 3 timeout hc w"
proof (cases "timeout \<le> 0")
  case True
  from can_return_step [where n = 2, OF no_timeout [OF assms this, of hc]] show ?thesis by simp
next
  case False
  then have "0 < timeout" by simp
  from can_return_step [where n = 2, OF start_timeout [OF assms this, of hc]] show ?thesis
    by (simp add: can_return_select2)
qed

lemma can_return_cancel:
  assumes "wt_pc w = WaitCancel" shows "can_return 4 timeout hc w"
  using can_return_step [where n = 3, OF call_cancel [OF assms, of timeout hc]]
  by (simp add: can_return_timeout)

lemma can_return_cancelled:
  assumes "wt_ctx w"
  shows "can_return 5 timeout hc w"
proof (cases "wt_pc w")
  case WaitEntry
  from can_return_step [where n = 4, OF entry_closed [OF this assms, of timeout hc]] show ?thesis by simp
next
  case WaitSelect1
  from can_return_step [where n = 4, OF select1_ctx [OF this assms, of timeout hc]] show ?thesis
    by (simp add: can_return_cancel)
next
  case WaitCancel
  from can_return_mono [OF can_return_cancel [OF this]] show ?thesis by simp
next
  case WaitTimeout
  from can_return_mono [OF can_return_timeout [OF this]] show ?thesis by simp
next
  case WaitSelect2
  from can_return_mono [OF can_return_select2 [OF this]] show ?thesis by simp
next
  case (WaitDone b)
  then show ?thesis by (rule can_return_done)
qed

section \<open>The buffer pool\<close>

text \<open>
  A buffer is a number; \<open>pool_caps\<close> lists the capacities of all buffers ever made, and
  \<open>pool_free\<close> the buffers in the pool.  \<open>sync.Pool.Get\<close> may hand out any of them, or
  none and call \<open>New\<close>: \<open>choice\<close> says which.
\<close>

record bufpool =
  pool_free :: "nat list"
  pool_caps :: "nat list"

definition copyBufferSize :: nat where
  "copyBufferSize = 32 * 1024"

definition make_buffer :: "nat \<Rightarrow> bufpool \<Rightarrow> nat \<times> bufpool" where
  "make_buffer l p = (length (pool_caps p), p\<lparr>pool_caps := pool_caps p @ [l]\<rparr>)"

definition pool_put :: "nat \<Rightarrow> bufpool \<Rightarrow> bufpool" where
  "pool_put b p = p\<lparr>pool_free := b # pool_free p\<rparr>"

definition pool_get :: "nat option \<Rightarrow> bufpool \<Rightarrow> nat \<times> bufpool" where
  "pool_get choice p =
     (case choice of
        None \<Rightarrow> make_buffer copyBufferSize p
      | Some b \<Rightarrow> if b \<in> set (pool_free p) then (b, p\<lparr>pool_free := remove1 b (pool_free p)\<rparr>)
                  else make_buffer copyBufferSize p)"

definition buffer_from_pool :: "nat option \<Rightarrow> nat \<Rightarrow> bufpool \<Rightarrow> nat \<times> bufpool" where
  "buffer_from_pool choice l p =
     (let (s, p1) = pool_get choice p
      in if pool_caps p1 ! s < l then make_buffer l (pool_put s p1) else (s, p1))"

definition pool_ok :: "bufpool \<Rightarrow> bool" where
  "pool_ok p \<longleftrightarrow> distinct (pool_free p) \<and> list_all (\<lambda>b. b < length (pool_caps p)) (pool_free p)"

lemma pool_okD: "pool_ok p \<Longrightarrow> distinct (pool_free p)" "pool_ok p \<Longrightarrow> b \<in> set (pool_free p) \<Longrightarrow> b < length (pool_caps p)"
  by (auto simp: pool_ok_def list_all_iff)

text \<open>
  What a caller of \<open>bufferFromPool\<close> gets: a buffer that is large enough, that is not in the
  pool any more, and that was in it before or is new.
\<close>

lemma pool_get_ok:
  assumes "pool_ok p" and "pool_get choice p = (s, p1)"
  shows "pool_ok p1 \<and> s < length (pool_caps p1) \<and> s \<notin> set (pool_free p1) \<and>
    (s \<in> set (pool_free p) \<or> s \<ge> length (pool_caps p)) \<and>
    set (pool_free p1) \<subseteq> set (pool_free p) \<and> length (pool_caps p) \<le> length (pool_caps p1)"
  using assms
  by (auto simp: pool_get_def make_buffer_def pool_ok_def list_all_iff dest: notin_set_remove1
      split: option.splits if_splits)
    force+

lemma buffer_from_pool_ok:
  assumes "pool_ok p" and "buffer_from_pool choice l p = (b, p')"
  shows "pool_ok p'" "b < length (pool_caps p')" "b \<notin> set (pool_free p')"
    "b \<in> set (pool_free p) \<or> b \<ge> length (pool_caps p)"
    "set (pool_free p') \<subseteq> set (pool_free p) \<union> {length (pool_caps p)..}"
    "length (pool_caps p) \<le> length (pool_caps p')" "l \<le> pool_caps p' ! b"
proof -
  obtain s p1 where get: "pool_get choice p = (s, p1)" by (cases "pool_get choice p")
  note g = pool_get_ok [OF assms(1) get]
  show "pool_ok p'" "b < length (pool_caps p')" "b \<notin> set (pool_free p')"
    "b \<in> set (pool_free p) \<or> b \<ge> length (pool_caps p)"
    "set (pool_free p') \<subseteq> set (pool_free p) \<union> {length (pool_caps p)..}"
    "length (pool_caps p) \<le> length (pool_caps p')" "l \<le> pool_caps p' ! b"
    using assms(2) get g
    by (fastforce simp: buffer_from_pool_def make_buffer_def pool_put_def pool_ok_def list_all_iff
        nth_append less_Suc_eq split: if_splits)+
qed

section \<open>Calls of \<open>Read\<close> and \<open>Write\<close> that share the pool\<close>

text \<open>
  A call takes its buffer before it waits, with no \<open>cancel\<close> function.  \<open>Read\<close> gives the
  buffer back when it returns itself (\<open>defer bufferPool.Put\<close>); in \<open>Write\<close> the action gives
  it back when it returns.
\<close>

datatype io_kind = IoRead | IoWrite

record io_call =
  io_kind :: io_kind
  io_buf :: nat
  io_wait :: wait_state

record io_sys =
  io_pool :: bufpool
  io_calls :: "nat \<Rightarrow> io_call option"

definition gives_back :: "io_kind \<Rightarrow> wait_label \<Rightarrow> bool" where
  "gives_back k l = (case k of
       IoRead \<Rightarrow> (case l of WlReturn b \<Rightarrow> True | _ \<Rightarrow> False)
     | IoWrite \<Rightarrow> l = WlActionReturns)"

datatype io_label = IoBegin nat | IoMove nat wait_label

inductive io_step :: "int \<Rightarrow> io_sys \<Rightarrow> io_label \<Rightarrow> io_sys \<Rightarrow> bool"
  for timeout :: int where
  io_begin: "io_calls s t = None \<Longrightarrow> buffer_from_pool choice l (io_pool s) = (b, p) \<Longrightarrow>
     io_step timeout s (IoBegin t)
       \<lparr>io_pool = p, io_calls = (io_calls s)(t \<mapsto> \<lparr>io_kind = k, io_buf = b, io_wait = wait_init c\<rparr>)\<rparr>"
| io_move: "io_calls s t = Some x \<Longrightarrow> wait_step timeout False (io_wait x) l w \<Longrightarrow>
     io_step timeout s (IoMove t l)
       \<lparr>io_pool = (if gives_back (io_kind x) l then pool_put (io_buf x) (io_pool s) else io_pool s),
        io_calls = (io_calls s)(t \<mapsto> x\<lparr>io_wait := w\<rparr>)\<rparr>"

definition io_start :: io_sys where
  "io_start = \<lparr>io_pool = \<lparr>pool_free = [], pool_caps = []\<rparr>, io_calls = (\<lambda>_. None)\<rparr>"

text \<open>Whether a call has still to give its buffer back, and whether its action uses it.\<close>

fun wait_pc_returned :: "wait_pc \<Rightarrow> bool" where
  "wait_pc_returned (WaitDone b) = True"
| "wait_pc_returned pc = False"

definition holds_buffer :: "io_call \<Rightarrow> bool" where
  "holds_buffer x = (case io_kind x of
       IoRead \<Rightarrow> \<not> wait_pc_returned (wt_pc (io_wait x))
     | IoWrite \<Rightarrow> wt_action (io_wait x) = ActIdle \<or> wt_action (io_wait x) = ActRunning)"

definition uses_buffer :: "io_call \<Rightarrow> bool" where
  "uses_buffer x \<longleftrightarrow> wt_action (io_wait x) = ActRunning"

definition io_inv :: "io_sys \<Rightarrow> bool" where
  "io_inv s \<longleftrightarrow> pool_ok (io_pool s) \<and>
     (\<forall>t x. io_calls s t = Some x \<longrightarrow> wait_inv False (io_wait x) \<and>
        (holds_buffer x \<longrightarrow> io_buf x < length (pool_caps (io_pool s)) \<and> io_buf x \<notin> set (pool_free (io_pool s)))) \<and>
     (\<forall>t x u y. io_calls s t = Some x \<longrightarrow> io_calls s u = Some y \<longrightarrow> holds_buffer x \<longrightarrow> holds_buffer y \<longrightarrow>
        io_buf x = io_buf y \<longrightarrow> t = u)"

lemma io_invI:
  assumes "pool_ok (io_pool s)"
    and "\<And>t x. io_calls s t = Some x \<Longrightarrow> wait_inv False (io_wait x)"
    and "\<And>t x. io_calls s t = Some x \<Longrightarrow> holds_buffer x \<Longrightarrow>
          io_buf x < length (pool_caps (io_pool s)) \<and> io_buf x \<notin> set (pool_free (io_pool s))"
    and "\<And>t x u y. io_calls s t = Some x \<Longrightarrow> io_calls s u = Some y \<Longrightarrow> holds_buffer x \<Longrightarrow> holds_buffer y \<Longrightarrow>
          io_buf x = io_buf y \<Longrightarrow> t = u"
  shows "io_inv s"
  unfolding io_inv_def using assms by blast

lemma io_invD:
  assumes "io_inv s"
  shows "pool_ok (io_pool s)"
    and "io_calls s t = Some x \<Longrightarrow> wait_inv False (io_wait x)"
    and "io_calls s t = Some x \<Longrightarrow> holds_buffer x \<Longrightarrow> io_buf x < length (pool_caps (io_pool s))"
    and "io_calls s t = Some x \<Longrightarrow> holds_buffer x \<Longrightarrow> io_buf x \<notin> set (pool_free (io_pool s))"
    and "io_calls s t = Some x \<Longrightarrow> io_calls s u = Some y \<Longrightarrow> holds_buffer x \<Longrightarrow> holds_buffer y \<Longrightarrow>
          io_buf x = io_buf y \<Longrightarrow> t = u"
  using assms unfolding io_inv_def by blast+

lemma io_inv_start [simp]: "io_inv io_start"
  by (simp add: io_inv_def io_start_def pool_ok_def)

text \<open>A call gives its buffer back at most once, and does not hold it any more then.\<close>

lemma gives_back_holds:
  "wait_step timeout False w l w' \<Longrightarrow> gives_back k l \<Longrightarrow> wait_inv False w \<Longrightarrow>
     holds_buffer \<lparr>io_kind = k, io_buf = b, io_wait = w\<rparr> \<and> \<not> holds_buffer \<lparr>io_kind = k, io_buf = b, io_wait = w'\<rparr>"
  by (cases k; erule wait_step.cases; simp add: gives_back_def holds_buffer_def wait_inv_def)

lemma holds_buffer_step:
  "wait_step timeout False w l w' \<Longrightarrow> wait_inv False w \<Longrightarrow>
     holds_buffer \<lparr>io_kind = k, io_buf = b, io_wait = w'\<rparr> \<Longrightarrow> holds_buffer \<lparr>io_kind = k, io_buf = b, io_wait = w\<rparr>"
  by (cases k; erule wait_step.cases; simp add: holds_buffer_def wait_inv_def)

lemma io_call_upd: "x\<lparr>io_wait := w\<rparr> = \<lparr>io_kind = io_kind x, io_buf = io_buf x, io_wait = w\<rparr>"
  by simp

lemma io_call_eta: "x = \<lparr>io_kind = io_kind x, io_buf = io_buf x, io_wait = io_wait x\<rparr>"
  by simp

lemma io_begin_inv:
  assumes inv: "io_inv s" and get: "buffer_from_pool choice l (io_pool s) = (b, p)"
  shows "io_inv \<lparr>io_pool = p, io_calls = (io_calls s)(t \<mapsto> \<lparr>io_kind = k, io_buf = b, io_wait = wait_init c\<rparr>)\<rparr>"
proof -
  note d = io_invD [OF inv]
  note g = buffer_from_pool_ok [OF d(1) get]
  have old: "io_buf x < length (pool_caps p) \<and> io_buf x \<notin> set (pool_free p) \<and> io_buf x \<noteq> b"
    if "io_calls s u = Some x" "holds_buffer x" for u x
    using d(3,4) [OF that] g(4,5,6) by force
  show ?thesis
  proof (rule io_invI, goal_cases)
    case 1
    then show ?case using g(1) by simp
  next
    case (2 u x)
    then show ?case using d(2) by (auto split: if_splits)
  next
    case (3 u x)
    then show ?case using g(2,3) old by (auto split: if_splits)
  next
    case (4 u x v y)
    then show ?case using old d(5) by (auto split: if_splits) fastforce+
  qed
qed

lemma io_move_inv:
  assumes inv: "io_inv s" and x: "io_calls s t = Some x" and step: "wait_step timeout False (io_wait x) l w"
  shows "io_inv \<lparr>io_pool = (if gives_back (io_kind x) l then pool_put (io_buf x) (io_pool s) else io_pool s),
        io_calls = (io_calls s)(t \<mapsto> x\<lparr>io_wait := w\<rparr>)\<rparr>"
proof -
  note d = io_invD [OF inv]
  have holds: "holds_buffer x" if "holds_buffer (x\<lparr>io_wait := w\<rparr>)"
    using holds_buffer_step [OF step d(2) [OF x], of "io_kind x" "io_buf x"] that by (metis io_call_eta io_call_upd)
  have given: "holds_buffer x \<and> \<not> holds_buffer (x\<lparr>io_wait := w\<rparr>)" if "gives_back (io_kind x) l"
    using gives_back_holds [OF step that d(2) [OF x], of "io_buf x"] by (metis io_call_eta io_call_upd)
  show ?thesis
  proof (rule io_invI, goal_cases)
    case 1
    show ?case using d(1,3,4) x given by (auto simp: pool_put_def pool_ok_def)
  next
    case (2 u y)
    then show ?case using d(2) wait_step_inv [OF step d(2) [OF x]] by (auto split: if_splits)
  next
    case (3 u y)
    show ?case
    proof (cases "u = t")
      case True
      with 3 have y: "y = x\<lparr>io_wait := w\<rparr>" and h: "holds_buffer (x\<lparr>io_wait := w\<rparr>)" by simp_all
      from given h have "\<not> gives_back (io_kind x) l" by blast
      with y d(3,4) [OF x holds [OF h]] show ?thesis by simp
    next
      case False
      with 3 have y: "io_calls s u = Some y" "holds_buffer y" by simp_all
      moreover have "io_buf y \<noteq> io_buf x" if "gives_back (io_kind x) l"
        using d(5) [OF y(1) x y(2)] given [OF that] False by blast
      ultimately show ?thesis using d(3,4) [OF y] by (auto simp: pool_put_def)
    qed
  next
    case (4 u y v z)
    then show ?case using d(5) x holds by (auto split: if_splits)
  qed
qed

lemma io_step_inv [go_inv]: "io_step timeout s l s' \<Longrightarrow> io_inv s \<Longrightarrow> io_inv s'"
  by (induction rule: io_step.induct) (blast intro: io_begin_inv, rule io_move_inv)

interpretation io: step_invariant "io_step timeout" io_inv for timeout
  by unfold_locales (rule io_step_inv)

section \<open>The bytes of a copy\<close>

text \<open>
  A reader is a function from the state to the bytes and the error of one \<open>Read\<close> call, a
  writer takes bytes and gives a count and an error.  \<open>Reader\<close> and \<open>Writer\<close> wrap them:
  the outcome of \<open>Wait\<close> is whether it returned true, and, when it did not, whether the
  abandoned call took effect all the same.  It is looked up in the state.
\<close>

type_synonym 's reader = "'s \<Rightarrow> (string \<times> go_error option) \<times> 's"
type_synonym 's writer = "string \<Rightarrow> 's \<Rightarrow> (nat \<times> go_error option) \<times> 's"
type_synonym 's wait_outcome = "'s \<Rightarrow> (bool \<times> bool) \<times> 's"

definition ErrCanceled :: go_error where
  "ErrCanceled = ErrNew ''asyncio: Context canceled and timeout expired''"

definition EOF :: go_error where
  "EOF = ErrForeign ''EOF''"

definition ErrShortWrite :: go_error where
  "ErrShortWrite = ErrForeign ''short write''"

definition async_read :: "'s wait_outcome \<Rightarrow> 's reader \<Rightarrow> 's reader" where
  "async_read wait rd s =
     (let ((ok, ran), s0) = wait s; ((bytes, err), s1) = rd s0
      in if ok then ((bytes, err), s1) else (([], Some ErrCanceled), if ran then s1 else s0))"

definition async_write :: "'s wait_outcome \<Rightarrow> 's writer \<Rightarrow> 's writer" where
  "async_write wait wr p s =
     (let ((ok, ran), s0) = wait s; ((n, err), s1) = wr p s0
      in if ok then ((n, err), s1) else ((0, Some ErrCanceled), if ran then s1 else s0))"

text \<open>
  \<open>io.Copy\<close>: neither \<open>asyncReader\<close> nor \<open>asyncWriter\<close> has more methods than \<open>Read\<close> and
  \<open>Write\<close>, so it is the plain loop.  \<open>fuel\<close> bounds the iterations; None is a copy that is
  still going on.
\<close>

fun io_copy :: "nat \<Rightarrow> 's writer \<Rightarrow> 's reader \<Rightarrow> nat \<Rightarrow> 's \<Rightarrow> ((nat \<times> go_error option) \<times> 's) option" where
  "io_copy 0 wr rd written s = None"
| "io_copy (Suc fuel) wr rd written s =
     (let ((bytes, er), s1) = rd s
      in if bytes \<noteq> [] then
           (let ((nw, ew), s2) = wr bytes s1; written1 = written + nw
            in if ew \<noteq> None then Some ((written1, ew), s2)
               else if nw \<noteq> length bytes then Some ((written1, Some ErrShortWrite), s2)
               else if er = None then io_copy fuel wr rd written1 s2
               else Some ((written1, if er = Some EOF then None else er), s2))
         else if er = None then io_copy fuel wr rd written s1
         else Some ((written, if er = Some EOF then None else er), s1))"

definition async_copy ::
  "nat \<Rightarrow> 's wait_outcome \<Rightarrow> 's writer \<Rightarrow> 's reader \<Rightarrow> 's \<Rightarrow> ((nat \<times> go_error option) \<times> 's) option" where
  "async_copy fuel wait dst src s = io_copy fuel (async_write wait dst) (async_read wait src) 0 s"

text \<open>
  \<open>CopyLeak\<close> also says whether it prints its line; the detector's timeout, one second, is
  halved.  \<open>MemoryLeakEnabled\<close> depends on the build.
\<close>

definition MemoryLeakTimeout :: int where
  "MemoryLeakTimeout = 1000000000"

definition copy_leak ::
  "bool \<Rightarrow> nat \<Rightarrow> (int \<Rightarrow> 's wait_outcome) \<Rightarrow> 's writer \<Rightarrow> 's reader \<Rightarrow> 's
     \<Rightarrow> ((nat \<times> go_error option) \<times> string option \<times> 's) option" where
  "copy_leak MemoryLeakEnabled fuel wait dst src s =
     (case async_copy fuel (wait (MemoryLeakTimeout div 2)) dst src s of
        None \<Rightarrow> None
      | Some ((written, err), s') \<Rightarrow>
          Some ((written, err),
            if MemoryLeakEnabled \<and> err = Some ErrCanceled then Some ''CopyLeak: Timed out on copy!'' else None, s'))"

text \<open>\<open>stdcopy.StdCopy\<close> of the docker packages is a parameter; it gets the wrapped streams.\<close>

type_synonym 's std_copy = "'s writer \<Rightarrow> 's writer \<Rightarrow> 's reader \<Rightarrow> 's \<Rightarrow> ((nat \<times> go_error option) \<times> 's) option"

definition async_std_copy :: "'s std_copy \<Rightarrow> 's wait_outcome \<Rightarrow> 's std_copy" where
  "async_std_copy stdcopy wait dstout dsterr src s =
     stdcopy (async_write wait dstout) (async_write wait dsterr) (async_read wait src) s"

definition std_copy_leak ::
  "'s std_copy \<Rightarrow> bool \<Rightarrow> (int \<Rightarrow> 's wait_outcome) \<Rightarrow> 's writer \<Rightarrow> 's writer \<Rightarrow> 's reader \<Rightarrow> 's
     \<Rightarrow> ((nat \<times> go_error option) \<times> string option \<times> 's) option" where
  "std_copy_leak stdcopy MemoryLeakEnabled wait dstout dsterr src s =
     (case async_std_copy stdcopy (wait (MemoryLeakTimeout div 2)) dstout dsterr src s of
        None \<Rightarrow> None
      | Some ((written, err), s') \<Rightarrow>
          Some ((written, err),
            if MemoryLeakEnabled \<and> err = Some ErrCanceled then Some ''StdCopyLeak: Timed out on copy!'' else None, s'))"

text \<open>
  A source that delivers a given sequence of chunks, a destination that takes everything, and
  a given sequence of outcomes of \<open>Wait\<close> (true, when it is used up).
\<close>

record streams =
  st_chunks :: "(string \<times> go_error option) list"
  st_dst :: string
  st_waits :: "(bool \<times> bool) list"

definition chunk_read :: "streams reader" where
  "chunk_read s = (case st_chunks s of
       [] \<Rightarrow> (([], Some EOF), s)
     | (bytes, er) # cs \<Rightarrow> ((bytes, er), s\<lparr>st_chunks := cs\<rparr>))"

definition append_write :: "streams writer" where
  "append_write p s = ((length p, None), s\<lparr>st_dst := st_dst s @ p\<rparr>)"

definition next_wait :: "streams wait_outcome" where
  "next_wait s = (case st_waits s of
       [] \<Rightarrow> ((True, True), s)
     | o1 # os \<Rightarrow> (o1, s\<lparr>st_waits := os\<rparr>))"

text \<open>The bytes of a source up to and including the chunk that comes with an error.\<close>

fun until_err :: "(string \<times> go_error option) list \<Rightarrow> string" where
  "until_err [] = []"
| "until_err ((bytes, er) # cs) = (if er = None then bytes @ until_err cs else bytes)"

definition is_prefix :: "string \<Rightarrow> string \<Rightarrow> bool" where
  "is_prefix xs ys \<longleftrightarrow> take (length xs) ys = xs"

lemma is_prefixI: "ys = xs @ zs \<Longrightarrow> is_prefix xs ys"
  by (simp add: is_prefix_def)

lemma is_prefix_append [simp]: "is_prefix (xs @ ys) (xs @ zs) = is_prefix ys zs"
  by (simp add: is_prefix_def)

lemma is_prefix_Nil [simp]: "is_prefix [] ys"
  by (simp add: is_prefix_def)

lemma is_prefix_refl [simp]: "is_prefix ys ys"
  by (simp add: is_prefix_def)

lemma is_prefix_app [simp]: "is_prefix xs (xs @ ys)"
  by (simp add: is_prefix_def)

abbreviation plain_copy :: "nat \<Rightarrow> nat \<Rightarrow> streams \<Rightarrow> ((nat \<times> go_error option) \<times> streams) option" where
  "plain_copy fuel written s \<equiv> io_copy fuel (async_write next_wait append_write) (async_read next_wait chunk_read) written s"

lemmas copy_step_simps = async_read_def async_write_def next_wait_def chunk_read_def append_write_def

lemma plain_copy_delivers:
  "plain_copy fuel written s = Some ((n, err), s') \<Longrightarrow>
     \<exists>bytes. st_dst s' = st_dst s @ bytes \<and> is_prefix bytes (until_err (st_chunks s)) \<and>
       (err \<noteq> Some ErrCanceled \<longrightarrow> n = written + length bytes) \<and>
       (err = None \<longrightarrow> bytes = until_err (st_chunks s))"
proof (induction fuel arbitrary: written s)
  case 0
  then show ?case by simp
next
  case (Suc fuel)
  obtain bytes er s1 where rd: "async_read next_wait chunk_read s = ((bytes, er), s1)"
    by (metis prod.exhaust)
  have r: "(er = Some ErrCanceled \<and> bytes = [] \<and> st_dst s1 = st_dst s) \<or>
      (st_dst s1 = st_dst s \<and>
        ((st_chunks s = [] \<and> bytes = [] \<and> er = Some EOF) \<or> st_chunks s = (bytes, er) # st_chunks s1))"
    using rd by (auto simp: copy_step_simps split: list.splits prod.splits if_splits)
  obtain nw ew s2 where wr: "async_write next_wait append_write bytes s1 = ((nw, ew), s2)"
    by (metis prod.exhaust)
  have w: "(ew = Some ErrCanceled \<and> nw = 0 \<and> (st_dst s2 = st_dst s1 \<or> st_dst s2 = st_dst s1 @ bytes)) \<or>
      (ew = None \<and> nw = length bytes \<and> st_dst s2 = st_dst s1 @ bytes \<and> st_chunks s2 = st_chunks s1)"
    using wr by (auto simp: copy_step_simps split: list.splits prod.splits if_splits)
  have e: "EOF \<noteq> ErrCanceled" "ErrCanceled \<noteq> EOF" by (simp_all add: EOF_def ErrCanceled_def)
  show ?case
  proof (cases "bytes \<noteq> []")
    case True
    with r have c: "st_chunks s = (bytes, er) # st_chunks s1" "st_dst s1 = st_dst s" by auto
    show ?thesis
    proof (cases "ew = None \<and> er = None")
      case True
      with w have w2: "nw = length bytes" "st_dst s2 = st_dst s1 @ bytes" "st_chunks s2 = st_chunks s1" by auto
      have "plain_copy fuel (written + length bytes) s2 = Some ((n, err), s')"
        using Suc.prems rd wr True w2(1) \<open>bytes \<noteq> []\<close> by simp
      from Suc.IH [OF this] obtain bs where "st_dst s' = st_dst s2 @ bs" "is_prefix bs (until_err (st_chunks s2))"
          "err \<noteq> Some ErrCanceled \<longrightarrow> n = written + length bytes + length bs"
          "err = None \<longrightarrow> bs = until_err (st_chunks s2)" by auto
      with True c w2 show ?thesis by (intro exI [of _ "bytes @ bs"]) auto
    next
      case False
      with Suc.prems rd wr w \<open>bytes \<noteq> []\<close> have s': "s' = s2" and n: "n = written + nw"
        and err: "err = (if ew \<noteq> None then ew else if er = Some EOF then None else er)"
        by (auto split: if_splits)
      from w show ?thesis using s' n err c False e
        by (auto intro: exI [of _ "[]"] exI [of _ bytes] split: if_splits)
    qed
  next
    case False
    then have b: "bytes = []" by simp
    show ?thesis
    proof (cases "er = None")
      case True
      with r have c: "st_chunks s = (bytes, er) # st_chunks s1" "st_dst s1 = st_dst s" by auto
      have "plain_copy fuel written s1 = Some ((n, err), s')"
        using Suc.prems rd True b by simp
      from Suc.IH [OF this] c True b show ?thesis by auto
    next
      case False
      with Suc.prems rd b r e show ?thesis by (auto split: if_splits)
    qed
  qed
qed

lemma plain_copy_total: "length (st_chunks s) < fuel \<Longrightarrow> plain_copy fuel written s \<noteq> None"
proof (induction fuel arbitrary: written s)
  case 0
  then show ?case by simp
next
  case (Suc fuel)
  obtain bytes er s1 where rd: "async_read next_wait chunk_read s = ((bytes, er), s1)"
    by (metis prod.exhaust)
  obtain nw ew s2 where wr: "async_write next_wait append_write bytes s1 = ((nw, ew), s2)"
    by (metis prod.exhaust)
  have w: "st_chunks s2 = st_chunks s1"
    using wr by (auto simp: copy_step_simps split: list.splits prod.splits if_splits)
  have r: "er = None \<Longrightarrow> length (st_chunks s1) < fuel"
    using rd Suc.prems by (auto simp: copy_step_simps split: list.splits prod.splits if_splits)
  show ?case using rd wr w r Suc.IH [of s1] Suc.IH [of s2]
    by (cases "er = None") (auto simp: Let_def)
qed

lemma running_holds:
  assumes "io_inv s" and "io_calls s t = Some x" and "uses_buffer x"
  shows "holds_buffer x \<or> (io_kind x = IoRead \<and> wt_pc (io_wait x) = WaitDone False)"
proof -
  have "wait_inv False (io_wait x)" using io_invD(2) [OF assms(1,2)] .
  with assms(3) show ?thesis
    by (cases "io_kind x"; cases "wt_pc (io_wait x)")
      (auto simp: uses_buffer_def holds_buffer_def wait_inv_def)
qed

section \<open>Properties\<close>

text \<open>
  C22.  \<open>Wait\<close> tells the truth about the action: it returns true only when the action has
  finished, and false only when the context has been cancelled; it calls \<open>cancel\<close> at most once,
  and only after the context was cancelled while the action was under way.
\<close>

theorem wait_result_correct:
  assumes "run_path (wait_step timeout has_cancel) (wait_init c) ls w"
  shows "(wt_pc w = WaitDone True \<longrightarrow> wt_action w = ActClosed) \<and>
    (wt_pc w = WaitDone False \<longrightarrow> wt_ctx w) \<and>
    wt_cancels w \<le> (if has_cancel \<and> wt_ctx w \<and> wt_action w \<noteq> ActIdle then 1 else 0)"
  using wait.run_inv [OF assms wait_inv_init] by (simp add: wait_inv_def)

definition example_wait :: wait_state where
  "example_wait = \<lparr>wt_pc = WaitDone True, wt_action = ActClosed, wt_ctx = True, wt_timer = False, wt_cancels = 1\<rparr>"

lemma example_wait_path:
  "run_path (wait_step 500 True) (wait_init False)
     [WlEnter, WlContext, WlMove, WlCancel, WlMove, WlActionReturns, WlActionClosed, WlReturn True] example_wait"
  unfolding wait_init_def example_wait_def
  apply (rule run_cons, rule entry_go, simp, simp)
  apply (rule run_cons, rule context_cancelled)
  apply (rule run_cons, rule select1_ctx, simp, simp)
  apply (rule run_cons, rule call_cancel, simp)
  apply (rule run_cons, rule start_timeout, simp, simp)
  apply (rule run_cons, rule action_returns, simp)
  apply (rule run_cons, rule action_closed, simp)
  apply (rule run_cons, rule select2_done, simp, simp)
  apply simp
  done

theorem wait_result_correct_witness:
  "wt_action example_wait = ActClosed \<and> wt_cancels example_wait \<le> 1"
  using wait_result_correct [OF example_wait_path] by (simp add: example_wait_def)

text \<open>
  C23.  Cancelling the context bounds \<open>Wait\<close>: from every state a call can reach in which the
  context is cancelled, at most five steps of the waiting goroutine and its timer make it
  return, whatever the action does; and when the context was cancelled before the call, the
  action is never started and the result is false.
\<close>

theorem wait_returns_after_cancel:
  assumes "run_path (wait_step timeout has_cancel) (wait_init c) ls w" and "wt_ctx w"
  shows "can_return 5 timeout has_cancel w \<and> (c \<longrightarrow> wt_action w = ActIdle \<and> wt_pc w \<in> {WaitEntry, WaitDone False})"
proof
  show "can_return 5 timeout has_cancel w" using assms(2) by (rule can_return_cancelled)
  show "c \<longrightarrow> wt_action w = ActIdle \<and> wt_pc w \<in> {WaitEntry, WaitDone False}"
  proof
    assume c
    then have "wait_skipped (wait_init c)" by (simp add: wait_skipped_def wait_init_def)
    from skip.run_inv [OF assms(1) this] show "wt_action w = ActIdle \<and> wt_pc w \<in> {WaitEntry, WaitDone False}"
      by (simp add: wait_skipped_def)
  qed
qed

theorem wait_returns_after_cancel_witness:
  "can_return 5 500 True (wait_init True) \<and> wt_action (wait_init True) = ActIdle"
  using wait_returns_after_cancel [of 500 True True "[]" "wait_init True"] by (simp add: wait_init_def)

text \<open>
  C21.  Buffers are exclusive except for abandoned readers: when the actions of two calls that
  share the pool use the same buffer at the same time, one of them belongs to a \<open>Read\<close> that
  has timed out and returned \<open>ErrCanceled\<close>.  Calls of \<open>Write\<close> alone never share a buffer.
\<close>

theorem buffer_shared_only_when_abandoned:
  assumes "run_path (io_step timeout) io_start ls s"
    and "io_calls s t = Some x" and "io_calls s u = Some y" and "t \<noteq> u"
    and "uses_buffer x" and "uses_buffer y" and "io_buf x = io_buf y"
  shows "(io_kind x = IoRead \<and> wt_pc (io_wait x) = WaitDone False) \<or>
    (io_kind y = IoRead \<and> wt_pc (io_wait y) = WaitDone False)"
proof -
  from io.run_inv [OF assms(1)] have inv: "io_inv s" by simp
  from running_holds [OF inv assms(2,5)] running_holds [OF inv assms(3,6)]
    io_invD(5) [OF inv assms(2,3)] assms(4,7)
  show ?thesis by blast
qed

text \<open>
  The two calls of the example: a \<open>Read\<close> that was abandoned, and a \<open>Write\<close> that got its
  buffer.
\<close>

definition shared_read :: io_call where
  "shared_read = \<lparr>io_kind = IoRead, io_buf = 0,
     io_wait = \<lparr>wt_pc = WaitDone False, wt_action = ActRunning, wt_ctx = True, wt_timer = True, wt_cancels = 0\<rparr>\<rparr>"

definition shared_write :: io_call where
  "shared_write = \<lparr>io_kind = IoWrite, io_buf = 0,
     io_wait = \<lparr>wt_pc = WaitSelect1, wt_action = ActRunning, wt_ctx = False, wt_timer = False, wt_cancels = 0\<rparr>\<rparr>"

lemma first_buffer:
  "buffer_from_pool None 10 \<lparr>pool_free = [], pool_caps = []\<rparr> = (0, \<lparr>pool_free = [], pool_caps = [32768]\<rparr>)"
  by (simp add: buffer_from_pool_def pool_get_def make_buffer_def copyBufferSize_def)

lemma second_buffer:
  "buffer_from_pool (Some 0) 10 \<lparr>pool_free = [0], pool_caps = [32768]\<rparr> = (0, \<lparr>pool_free = [], pool_caps = [32768]\<rparr>)"
  by (simp add: buffer_from_pool_def pool_get_def)

lemma shared_path:
  "run_path (io_step 500000000) io_start
     [IoBegin 0, IoMove 0 WlEnter, IoMove 0 WlContext, IoMove 0 WlMove, IoMove 0 WlCancel, IoMove 0 WlMove,
      IoMove 0 WlTimer, IoMove 0 (WlReturn False), IoBegin 1, IoMove 1 WlEnter]
     \<lparr>io_pool = \<lparr>pool_free = [], pool_caps = [32768]\<rparr>,
      io_calls = (\<lambda>_. None)(0 \<mapsto> shared_read, 1 \<mapsto> shared_write)\<rparr>"
  unfolding io_start_def shared_read_def shared_write_def
  apply (rule run_cons, rule io_begin [where k = IoRead and c = False], simp)
   apply (simp only: io_sys.simps, rule first_buffer)
  apply (rule run_cons, rule io_move, simp, rule entry_go, simp add: wait_init_def, simp add: wait_init_def)
  apply (rule run_cons, rule io_move, simp, rule context_cancelled)
  apply (rule run_cons, rule io_move, simp, rule select1_ctx, simp, simp)
  apply (rule run_cons, rule io_move, simp, rule call_cancel, simp)
  apply (rule run_cons, rule io_move, simp, rule start_timeout, simp, simp)
  apply (rule run_cons, rule io_move, simp, rule timer_fires, simp)
  apply (rule run_cons, rule io_move, simp, rule select2_timer, simp, simp)
  apply (rule run_cons, rule io_begin [where k = IoWrite and c = False], simp)
   apply (simp add: gives_back_def pool_put_def, rule second_buffer)
  apply (rule run_cons, rule io_move, simp, rule entry_go, simp add: wait_init_def, simp add: wait_init_def)
  apply (simp add: gives_back_def wait_init_def)
  done

theorem buffer_shared_only_when_abandoned_witness:
  "io_kind shared_read = IoRead \<and> wt_pc (io_wait shared_read) = WaitDone False"
proof -
  have "io_kind shared_write \<noteq> IoRead" by (simp add: shared_write_def)
  with buffer_shared_only_when_abandoned [OF shared_path, of 0 shared_read 1 shared_write]
  show ?thesis by (simp add: shared_read_def shared_write_def uses_buffer_def)
qed

text \<open>
  The exception does happen, with the timeout that \<open>CopyLeak\<close> uses: the goroutine of a
  timed-out \<open>Read\<close> still reads into its buffer after \<open>Read\<close> has put it into the pool, and
  a \<open>Write\<close> that takes it from there writes out of it at the same time.
\<close>

theorem abandoned_read_shares_buffer:
  "\<exists>ls s x y. run_path (io_step (MemoryLeakTimeout div 2)) io_start ls s \<and>
     io_calls s 0 = Some x \<and> io_calls s 1 = Some y \<and> io_buf x = io_buf y \<and>
     io_kind x = IoRead \<and> uses_buffer x \<and> wt_pc (io_wait x) = WaitDone False \<and>
     io_kind y = IoWrite \<and> uses_buffer y"
proof -
  have "MemoryLeakTimeout div 2 = 500000000" by (simp add: MemoryLeakTimeout_def)
  with shared_path show ?thesis
    by (intro exI [of _ "[IoBegin 0, IoMove 0 WlEnter, IoMove 0 WlContext, IoMove 0 WlMove, IoMove 0 WlCancel,
          IoMove 0 WlMove, IoMove 0 WlTimer, IoMove 0 (WlReturn False), IoBegin 1, IoMove 1 WlEnter]"]
        exI [of _ "\<lparr>io_pool = \<lparr>pool_free = [], pool_caps = [32768]\<rparr>,
          io_calls = (\<lambda>_. None)(0 \<mapsto> shared_read, 1 \<mapsto> shared_write)\<rparr>"]
        exI [of _ shared_read] exI [of _ shared_write])
      (simp add: shared_read_def shared_write_def uses_buffer_def)
qed


end
