(* ===== verification/Repl.thy ===== *)
theory Repl
  imports Handle AsyncIO
begin

text \<open>
  \<open>config/terminal\<close>: the configuration that gives users a read-eval-print loop instead of
  a shell.  The two loops are functions of the bytes (or the lines) that arrive and of the
  points at which the worker's context is cancelled; the methods of the process are functions of
  its state and the operating system's.
\<close>

section \<open>Configuration and process\<close>

text \<open>
  A \<open>Loop\<close> gets one line and says whether to exit, and with which code, and what it writes.
\<close>

type_synonym repl_loop = "string \<Rightarrow> (bool \<times> int) \<times> string"

record repl_config =
  rc_welcome :: string
  rc_prompt :: string
  rc_loop :: "repl_loop option"

text \<open>A nil function is \<open>None\<close>; \<open>r_waiter\<close> says whether the channel is closed.\<close>

record 'm repl =
  r_welcome :: string
  r_prompt :: string
  r_loop :: "repl_loop option"
  r_pipes :: pipes
  r_terminal :: "'m pair option"
  r_cancel :: "bool option"
  r_exitCode :: int
  r_waiter :: "bool option"

definition repl_apply :: "repl_config \<Rightarrow> ('v, 'h) ssh_server \<Rightarrow> world \<Rightarrow> unit go \<times> ('v, 'h) ssh_server \<times> world" where
  "repl_apply cfg server w = (Ok (), server, w)"

definition repl_handle :: "repl_config \<Rightarrow> 'm repl go" where
  "repl_handle cfg =
     Ok \<lparr>r_welcome = rc_welcome cfg, r_prompt = rc_prompt cfg, r_loop = rc_loop cfg, r_pipes = no_pipes,
         r_terminal = None, r_cancel = None, r_exitCode = 0, r_waiter = None\<rparr>"

interpretation repl_cfg: handler_neutral "repl_apply cfg" for cfg
  by unfold_locales (simp add: repl_apply_def)

definition default_repl :: repl_loop where
  "default_repl input = ((input = ''exit'', 0), [])"

definition repl_string :: "'m repl \<Rightarrow> string" where
  "repl_string r = ''REPLProcess''"

definition repl_init :: "'m repl \<Rightarrow> unit go \<times> 'm repl" where
  "repl_init r =
     (let r1 = (if r_loop r = None then r\<lparr>r_loop := Some default_repl\<rparr> else r)
      in (Ok (), r1\<lparr>r_waiter := Some False, r_cancel := Some False\<rparr>))"

section \<open>The loop on pipes\<close>

record repl_result =
  rr_code :: int
  rr_out :: string
  rr_lines :: "string list"

lemma dropWhile_Cons_length: "dropWhile P xs = c # rest \<Longrightarrow> length rest < length xs"
  by (metis dropWhile_eq_drop impossible_Cons length_drop diff_le_self not_le_imp_less order.trans)

text \<open>
  \<open>cancelled i\<close> is the outcome of the \<open>i\<close>-th check of the context.  \<open>ReadString('\n')\<close>
  returns the bytes up to the next line feed, or the rest of the input with the error it ends with.
\<close>

function run_loop_pipes ::
  "repl_loop \<Rightarrow> string \<Rightarrow> (nat \<Rightarrow> bool) \<Rightarrow> go_error \<Rightarrow> nat \<Rightarrow> string \<Rightarrow> string \<Rightarrow> repl_result" where
  "run_loop_pipes loop prompt cancelled end_err i input out =
     (if cancelled i then \<lparr>rr_code = 0, rr_out = out, rr_lines = []\<rparr>
      else (let out1 = out @ prompt
            in case dropWhile (\<lambda>c. c \<noteq> nl) input of
                 [] \<Rightarrow> if end_err = EOF then \<lparr>rr_code = 0, rr_out = out1, rr_lines = []\<rparr>
                       else \<lparr>rr_code = 255, rr_out = out1, rr_lines = []\<rparr>
               | c # rest \<Rightarrow>
                   (let line = trim_right_nl (takeWhile (\<lambda>c. c \<noteq> nl) input @ [nl]);
                        ((exit, code), written) = loop line
                    in if exit then \<lparr>rr_code = code, rr_out = out1 @ written, rr_lines = [line]\<rparr>
                       else (let r = run_loop_pipes loop prompt cancelled end_err (Suc i) rest (out1 @ written)
                             in r\<lparr>rr_lines := line # rr_lines r\<rparr>))))"
  by pat_completeness auto

termination
  by (relation "measure (\<lambda>(loop, prompt, cancelled, end_err, i, input, out). length input)")
    (auto dest!: dropWhile_Cons_length [OF sym] dropWhile_Cons_length)

declare run_loop_pipes.simps [simp del]

definition repl_pipes :: "'m repl \<Rightarrow> (nat \<Rightarrow> bool) \<Rightarrow> go_error \<Rightarrow> string \<Rightarrow> repl_result go" where
  "repl_pipes r cancelled end_err input =
     (case r_loop r of
        None \<Rightarrow> Panic ''nil pointer dereference''
      | Some loop \<Rightarrow> Ok (run_loop_pipes loop (r_prompt r) cancelled end_err 0 input (r_welcome r @ [nl])))"

section \<open>The loop on a terminal\<close>

text \<open>
  What \<open>ReadLine\<close> returns; when the list is used up the call still blocks, and the result is
  None.  The context is checked before and after every call: \<open>cancelled (2 * i)\<close> and
  \<open>cancelled (2 * i + 1)\<close>.
\<close>

datatype read_line = ReadLine string | ReadErr go_error

fun run_loop_pty ::
  "repl_loop \<Rightarrow> (nat \<Rightarrow> bool) \<Rightarrow> nat \<Rightarrow> read_line list \<Rightarrow> string \<Rightarrow> repl_result option" where
  "run_loop_pty loop cancelled i [] out =
     (if cancelled (2 * i) then Some \<lparr>rr_code = 0, rr_out = out, rr_lines = []\<rparr> else None)"
| "run_loop_pty loop cancelled i (x # xs) out =
     (if cancelled (2 * i) \<or> cancelled (2 * i + 1) then Some \<lparr>rr_code = 0, rr_out = out, rr_lines = []\<rparr>
      else (case x of
              ReadErr e \<Rightarrow> if e = EOF then Some \<lparr>rr_code = 0, rr_out = out, rr_lines = []\<rparr>
                           else Some \<lparr>rr_code = 255, rr_out = out, rr_lines = []\<rparr>
            | ReadLine line \<Rightarrow>
                (let ((exit, code), written) = loop line
                 in if exit then Some \<lparr>rr_code = code, rr_out = out @ written, rr_lines = [line]\<rparr>
                    else (case run_loop_pty loop cancelled (Suc i) xs (out @ written) of
                            None \<Rightarrow> None
                          | Some r \<Rightarrow> Some (r\<lparr>rr_lines := line # rr_lines r\<rparr>)))))"

definition repl_pty :: "'m repl \<Rightarrow> (nat \<Rightarrow> bool) \<Rightarrow> read_line list \<Rightarrow> repl_result option go" where
  "repl_pty r cancelled reads =
     (case r_loop r of
        None \<Rightarrow> Panic ''nil pointer dereference''
      | Some loop \<Rightarrow> Ok (run_loop_pty loop cancelled 0 reads (r_welcome r @ [nl])))"

section \<open>The methods of the process\<close>

definition repl_start_pipes :: "'m repl \<Rightarrow> unit go \<times> 'm repl" where
  "repl_start_pipes r = (Ok (), r\<lparr>r_cancel := Some False\<rparr>)"

definition repl_start_pty :: "'m tty_lib \<Rightarrow> 'm repl \<Rightarrow> 'm os \<Rightarrow> nat option go \<times> 'm repl \<times> 'm os" where
  "repl_start_pty lib r k =
     (case pair_open lib True zero_pair k of
        (Ok u, p, k1) \<Rightarrow> (Ok (external (Some p)), r\<lparr>r_terminal := Some p, r_cancel := Some False\<rparr>, k1)
      | (Err e, p, k1) \<Rightarrow> (Err e, r\<lparr>r_terminal := Some p\<rparr>, k1)
      | (Panic m, p, k1) \<Rightarrow> (Panic m, r\<lparr>r_terminal := Some p\<rparr>, k1))"

definition repl_start :: "'m tty_lib \<Rightarrow> bool \<Rightarrow> 'm repl \<Rightarrow> 'm os \<Rightarrow> nat option go \<times> 'm repl \<times> 'm os" where
  "repl_start lib isPty r k =
     (if \<not> isPty then (case repl_start_pipes r of (q, r') \<Rightarrow> (go_bind q (\<lambda>u. Ok None), r', k))
      else repl_start_pty lib r k)"

text \<open>The end of a loop: the exit code is stored before the channel is closed.\<close>

definition repl_finish :: "repl_result \<Rightarrow> 'm repl \<Rightarrow> 'm repl" where
  "repl_finish res r = r\<lparr>r_exitCode := rr_code res, r_waiter := Some True\<rparr>"

text \<open>\<open>Wait\<close> returns once the channel is closed; None is a call that blocks.\<close>

definition repl_wait :: "'m repl \<Rightarrow> (int \<times> go_error option) option" where
  "repl_wait r = (if r_waiter r = Some True then Some (r_exitCode r, None) else None)"

definition repl_cleanup :: "'m tty_lib \<Rightarrow> 'm repl \<Rightarrow> 'm os \<Rightarrow> bool go \<times> 'm repl \<times> 'm os" where
  "repl_cleanup lib r k =
     (case r_cancel r of
        None \<Rightarrow> (Panic ''nil function call'', r, k)
      | Some c \<Rightarrow>
          (let (ps, k1) = close_pipes (r_pipes r) k;
               k2 = unhang_hack (r_terminal r) k1;
               (t, k3) = pair_close lib (r_terminal r) k2
           in (Ok True, r\<lparr>r_cancel := Some True, r_pipes := ps, r_terminal := t\<rparr>, k3)))"

text \<open>The methods as the session calls them, with the state they share.\<close>

fun repl_call :: "'m tty_lib \<Rightarrow> bool \<Rightarrow> proc_call \<Rightarrow> 'm repl \<times> 'm os \<Rightarrow> unit go \<times> 'm repl \<times> 'm os" where
  "repl_call lib isPty CallInit (r, k) = (case repl_init r of (q, r') \<Rightarrow> (q, r', k))"
| "repl_call lib isPty CallStdout (r, k) =
     (case pipes_stdout (r_pipes r) k of (q, ps, k1) \<Rightarrow> (go_bind q (\<lambda>f. Ok ()), r\<lparr>r_pipes := ps\<rparr>, k1))"
| "repl_call lib isPty CallStderr (r, k) =
     (case pipes_stderr (r_pipes r) k of (q, ps, k1) \<Rightarrow> (go_bind q (\<lambda>f. Ok ()), r\<lparr>r_pipes := ps\<rparr>, k1))"
| "repl_call lib isPty CallStdin (r, k) =
     (case pipes_stdin (r_pipes r) k of (q, ps, k1) \<Rightarrow> (go_bind q (\<lambda>f. Ok ()), r\<lparr>r_pipes := ps\<rparr>, k1))"
| "repl_call lib isPty CallStart (r, k) =
     (case repl_start lib isPty r k of (q, r', k1) \<Rightarrow> (go_bind q (\<lambda>f. Ok ()), r', k1))"
| "repl_call lib isPty CallWait (r, k) = (Ok (), r, k)"
| "repl_call lib isPty CallCleanup (r, k) =
     (case repl_cleanup lib r k of (q, r', k1) \<Rightarrow> (go_bind q (\<lambda>b. Ok ()), r', k1))"

section \<open>Lemmas\<close>

lemma repl_start_safe:
  assumes "open_safe lib" and "r_cancel r \<noteq> None"
  shows "\<not> is_panic (fst (repl_start lib isPty r k)) \<and> r_cancel (fst (snd (repl_start lib isPty r k))) \<noteq> None"
proof (cases isPty)
  case True
  obtain q p k1 where "pair_open lib True zero_pair k = (q, p, k1)" by (metis prod.exhaust)
  with True assms(2) pair_open_safe [OF assms(1), of True zero_pair k] show ?thesis
    by (cases q) (auto simp: repl_start_def repl_start_pty_def)
next
  case False
  with assms show ?thesis by (auto simp: repl_start_def repl_start_pipes_def)
qed

interpretation repl: process_impl "repl_call lib isPty" "\<lambda>s. open_safe lib"
    "\<lambda>s. open_safe lib \<and> r_cancel (fst s) \<noteq> None" for lib isPty
proof
  fix s :: "'a repl \<times> 'a os" and r s'
  assume "open_safe lib" "repl_call lib isPty CallInit s = (r, s')"
  then show "\<not> is_panic r \<and> open_safe lib \<and> r_cancel (fst s') \<noteq> None"
    by (cases s) (auto simp: repl_init_def Let_def)
next
  fix s :: "'a repl \<times> 'a os" and c r s'
  assume a: "open_safe lib \<and> r_cancel (fst s) \<noteq> None" "c \<noteq> CallInit" "repl_call lib isPty c s = (r, s')"
  obtain p k where s: "s = (p, k)" by (metis prod.exhaust)
  have "\<not> is_panic r \<and> r_cancel (fst s') \<noteq> None"
  proof (cases c)
    case CallStart
    with a s repl_start_safe [of lib p isPty k] show ?thesis
      by (cases "repl_start lib isPty p k") (auto simp: is_panic_bind_Ok)
  next
    case CallCleanup
    with a s show ?thesis
      by (auto simp: repl_cleanup_def split: prod.splits)
  qed (use a s pipes_safe [of "r_pipes p" k] in \<open>auto simp: is_panic_bind_Ok split: prod.splits\<close>)
  with a show "\<not> is_panic r \<and> open_safe lib \<and> r_cancel (fst s') \<noteq> None" by blast
qed

lemma go_split_no_nl: "dropWhile (\<lambda>c. c \<noteq> nl) input = [] \<Longrightarrow> go_split input nl = [input]"
  by (rule go_split_no_sep) auto

lemma go_split_nl:
  assumes "dropWhile (\<lambda>c. c \<noteq> nl) input = c # rest"
  shows "go_split input nl = takeWhile (\<lambda>c. c \<noteq> nl) input # go_split rest nl"
proof -
  have "c = nl" using assms by (metis (mono_tags, lifting) dropWhile_eq_Cons_conv)
  then have "input = takeWhile (\<lambda>c. c \<noteq> nl) input @ nl # rest" using assms by (metis takeWhile_dropWhile_id)
  moreover have "nl \<notin> set (takeWhile (\<lambda>c. c \<noteq> nl) input)" by (auto dest: set_takeWhileD)
  ultimately show ?thesis by (metis go_split_append)
qed

lemma trim_taken: "trim_right_nl (takeWhile (\<lambda>c. c \<noteq> nl) input @ [nl]) = takeWhile (\<lambda>c. c \<noteq> nl) input"
  by (rule trim_right_nl_snoc) (auto dest: set_takeWhileD)

text \<open>The lines that a loop is given, and the code it ends with, on complete lines.\<close>

definition goes_on :: "repl_loop \<Rightarrow> string \<Rightarrow> bool" where
  "goes_on loop line \<longleftrightarrow> \<not> fst (fst (loop line))"

definition lines_given :: "repl_loop \<Rightarrow> string list \<Rightarrow> string list" where
  "lines_given loop ls = takeWhile (goes_on loop) ls @ take 1 (dropWhile (goes_on loop) ls)"

definition end_code :: "repl_loop \<Rightarrow> go_error \<Rightarrow> string list \<Rightarrow> int" where
  "end_code loop end_err ls =
     (case dropWhile (goes_on loop) ls of
        [] \<Rightarrow> if end_err = EOF then 0 else 255
      | l # rest \<Rightarrow> snd (fst (loop l)))"

lemma lines_given_simps:
  "lines_given loop [] = []"
  "lines_given loop (l # ls) = (if goes_on loop l then l # lines_given loop ls else [l])"
  "end_code loop e [] = (if e = EOF then 0 else 255)"
  "end_code loop e (l # ls) = (if goes_on loop l then end_code loop e ls else snd (fst (loop l)))"
  by (auto simp: lines_given_def end_code_def)

lemma run_loop_pipes_lines:
  "let r = run_loop_pipes loop prompt (\<lambda>_. False) end_err i input out; ls = butlast (go_split input nl)
   in rr_lines r = lines_given loop ls \<and> rr_code r = end_code loop end_err ls \<and>
      rr_out r = out @ concat (map (\<lambda>l. prompt @ snd (loop l)) (lines_given loop ls)) @
        (if dropWhile (goes_on loop) ls = [] then prompt else [])"
proof (induction loop prompt "\<lambda>_::nat. False" end_err i input out rule: run_loop_pipes.induct)
  case (1 loop prompt end_err i input out)
  show ?case
  proof (cases "dropWhile (\<lambda>c. c \<noteq> nl) input")
    case Nil
    then show ?thesis
      by (subst run_loop_pipes.simps)
        (simp del: dropWhile_eq_Nil_conv add: go_split_no_nl lines_given_simps Let_def)
  next
    case (Cons c rest)
    define line where "line = takeWhile (\<lambda>c. c \<noteq> nl) input"
    obtain ex code w where l: "loop line = ((ex, code), w)" by (metis prod.exhaust)
    have tr: "trim_right_nl (takeWhile (\<lambda>c. c \<noteq> nl) input @ [nl]) = line" by (simp add: trim_taken line_def)
    have split: "butlast (go_split input nl) = line # butlast (go_split rest nl)"
      using go_split_nl [OF Cons] by (simp add: line_def)
    show ?thesis
    proof (cases ex)
      case True
      with Cons l show ?thesis
        by (subst run_loop_pipes.simps)
          (simp add: split Let_def tr lines_given_simps goes_on_def)
    next
      case False
      have IH: "let r = run_loop_pipes loop prompt (\<lambda>_. False) end_err (Suc i) rest (out @ prompt @ w);
          ls = butlast (go_split rest nl)
        in rr_lines r = lines_given loop ls \<and> rr_code r = end_code loop end_err ls \<and>
          rr_out r = (out @ prompt @ w) @ concat (map (\<lambda>l. prompt @ snd (loop l)) (lines_given loop ls)) @
            (if dropWhile (goes_on loop) ls = [] then prompt else [])"
        using 1 Cons l False by (simp add: tr)
      have "run_loop_pipes loop prompt (\<lambda>_. False) end_err i input out =
          (let r = run_loop_pipes loop prompt (\<lambda>_. False) end_err (Suc i) rest (out @ prompt @ w)
           in r\<lparr>rr_lines := line # rr_lines r\<rparr>)"
        using Cons l False
        by (subst run_loop_pipes.simps) (simp add: Let_def tr)
      with IH l False show ?thesis
        by (simp add: split Let_def lines_given_simps goes_on_def)
    qed
  qed
qed

lemma run_loop_pty_lines:
  "\<exists>r. run_loop_pty loop (\<lambda>_. False) i (map ReadLine ls @ [ReadErr end_err]) out = Some r \<and>
     rr_lines r = lines_given loop ls \<and> rr_code r = end_code loop end_err ls"
proof (induction ls arbitrary: i out)
  case Nil
  then show ?case by (simp add: lines_given_simps)
next
  case (Cons l ls)
  obtain ex code w where l: "loop l = ((ex, code), w)" by (metis prod.exhaust)
  with Cons [of "Suc i" "out @ w"] show ?case
    by (cases ex) (auto simp: lines_given_simps goes_on_def Let_def)
qed

lemma default_goes_on: "goes_on default_repl = (\<lambda>l. l \<noteq> ''exit'')"
  by (auto simp: goes_on_def default_repl_def)

section \<open>Properties\<close>

text \<open>
  C32.  The loop on pipes gives its function exactly the complete lines of the input, in order
  and without their line feeds, up to the first one that it exits on; it ends with that
  line's code, or with 0 at the end of the input and 255 on any other error.  What follows
  the last line feed is never given to the function.
\<close>

theorem repl_pipes_lines:
  "let r = run_loop_pipes loop prompt (\<lambda>_. False) end_err 0 input out;
       ls = butlast (go_split input nl);
       on = (\<lambda>l. \<not> fst (fst (loop l)))
   in rr_lines r = takeWhile on ls @ take 1 (dropWhile on ls) \<and>
      rr_code r = (case dropWhile on ls of [] \<Rightarrow> if end_err = EOF then 0 else 255 | l # rest \<Rightarrow> snd (fst (loop l))) \<and>
      rr_out r = out @ concat (map (\<lambda>l. prompt @ snd (loop l)) (rr_lines r)) @
        (if dropWhile on ls = [] then prompt else [])"
proof -
  have on: "(\<lambda>l. \<not> fst (fst (loop l))) = goes_on loop" by (auto simp: goes_on_def)
  show ?thesis unfolding on
    using run_loop_pipes_lines [of loop prompt end_err 0 input out]
    by (simp add: Let_def lines_given_def end_code_def)
qed

text \<open>
  C33.  The two loops agree: the loop on a terminal that reads the complete lines of an
  input and then the end of it ends with the same code, and has given its function the same
  lines, as the loop on pipes with that input.
\<close>

theorem repl_pty_agrees:
  "map_option (\<lambda>r. (rr_code r, rr_lines r))
     (run_loop_pty loop (\<lambda>_. False) 0 (map ReadLine (butlast (go_split input nl)) @ [ReadErr end_err]) out) =
   Some (let r = run_loop_pipes loop prompt (\<lambda>_. False) end_err 0 input out' in (rr_code r, rr_lines r))"
  using run_loop_pty_lines [of loop 0 "butlast (go_split input nl)" end_err out]
    run_loop_pipes_lines [of loop prompt end_err 0 input out']
  by (auto simp: Let_def)

text \<open>
  The default loop exits when the user types the word \<open>exit\<close> and not otherwise, always
  with code 0, and writes nothing but the prompt: its output depends on the number of lines
  only.
\<close>

theorem default_repl_exits_on_exit:
  "let r = run_loop_pipes default_repl prompt (\<lambda>_. False) EOF 0 input out;
       ls = butlast (go_split input nl)
   in rr_code r = 0 \<and>
      rr_lines r = takeWhile (\<lambda>l. l \<noteq> ''exit'') ls @ take 1 (dropWhile (\<lambda>l. l \<noteq> ''exit'') ls) \<and>
      rr_out r = out @ concat (replicate (length (rr_lines r) + (if ''exit'' \<in> set ls then 0 else 1)) prompt)"
proof -
  define ls where "ls = butlast (go_split input nl)"
  define r where "r = run_loop_pipes default_repl prompt (\<lambda>_. False) EOF 0 input out"
  have l: "rr_lines r = lines_given default_repl ls" "rr_code r = end_code default_repl EOF ls"
    "rr_out r = out @ concat (map (\<lambda>l. prompt @ snd (default_repl l)) (rr_lines r)) @
        (if dropWhile (goes_on default_repl) ls = [] then prompt else [])"
    using run_loop_pipes_lines [of default_repl prompt EOF 0 input out] by (simp_all add: Let_def r_def ls_def)
  have "map (\<lambda>l. prompt @ snd (default_repl l)) xs = replicate (length xs) prompt" for xs
    by (simp add: default_repl_def map_replicate_const)
  moreover have "dropWhile (goes_on default_repl) ls = [] \<longleftrightarrow> ''exit'' \<notin> set ls"
    by (auto simp: default_goes_on)
  moreover have "end_code default_repl EOF ls = 0"
    by (auto simp: end_code_def default_repl_def split: list.splits)
  ultimately show ?thesis unfolding ls_def [symmetric] r_def [symmetric] Let_def
    using l by (simp add: lines_given_def default_goes_on replicate_add)
qed

text \<open>
  A session that runs a read-eval-print loop never crashes the server by one of its
  methods: whatever the schedule of the session's goroutines, the calls it has made return
  without a panic, with or without a terminal, when \<open>Open\<close> fails, and in every state the
  methods before have left.
\<close>

theorem repl_session_never_panics:
  assumes "run_path (session_step env) (new_session lg) ls s" and "open_safe lib"
  shows "\<not> is_panic (fst (run_calls (repl_call lib isPty) (s_calls s) (r, k)))"
  using repl.session_safe [OF assms(1), of lib] assms(2) by simp

theorem repl_session_never_panics_witness:
  "\<exists>s r. session_exec toy_env normal_schedule (new_session []) = Some s \<and> length (s_calls s) = 7 \<and>
     repl_handle \<lparr>rc_welcome = [], rc_prompt = [], rc_loop = None\<rparr> = Ok r \<and>
     \<not> is_panic (fst (run_calls (repl_call toy_tty False) (s_calls s) (r, toy_os)))"
proof -
  obtain s where run: "run_path (session_step toy_env) (new_session []) normal_schedule s"
    and "s_calls s = [CallInit, CallStdout, CallStderr, CallStdin, CallStart, CallWait, CallCleanup]"
    by (rule normal_run)
  moreover have "open_safe toy_tty" by (simp add: open_safe_def toy_tty_def os_Pipe_def)
  ultimately show ?thesis using repl_session_never_panics [OF run, of toy_tty]
    by (auto simp: session_exec_run repl_handle_def)
qed

end
