(* ===== verification/OsExec.thy ===== *)
theory OsExec
  imports Handle
begin

text \<open>
  \<open>config/osexec\<close>: the configuration that executes commands on the machine of the server.

  \<open>os/exec\<close>'s \<open>Cmd\<close> is a record of what the process sets and reads; what the operating
  system does (where a command is found, whether it starts, how it ends, whether it can be
  killed) is the record of parameters \<open>exec_os\<close>.  A nil \<open>*exec.Cmd\<close>, \<open>*term.Pair\<close> or
  \<open>*os.Process\<close> is \<open>None\<close>.
\<close>

section \<open>Configuration\<close>

record system_exec_config =
  Shell :: string

definition system_apply ::
  "system_exec_config \<Rightarrow> ('v, 'h) ssh_server \<Rightarrow> world \<Rightarrow> unit go \<times> ('v, 'h) ssh_server \<times> world" where
  "system_apply cfg server w = (Ok (), server, w)"

interpretation system_cfg: handler_neutral "system_apply cfg" for cfg
  by unfold_locales (simp add: system_apply_def)

section \<open>The process\<close>

record exec_cmd =
  cmd_Path :: string
  cmd_Args :: "string list"
  cmd_Env :: "string list"
  cmd_Process :: "nat option"

record 'm system_process =
  sp_command :: string
  sp_args :: "string list"
  sp_cmd :: "exec_cmd option"
  sp_terminal :: "'m pair option"

definition new_system_process :: "string \<Rightarrow> string list \<Rightarrow> 'm system_process" where
  "new_system_process command args = \<lparr>sp_command = command, sp_args = args, sp_cmd = None, sp_terminal = None\<rparr>"

definition system_handle :: "system_exec_config \<Rightarrow> string list \<Rightarrow> 'm system_process go" where
  "system_handle cfg userCommand =
     (let args = (if length userCommand > 0 then [''-c'', go_join userCommand '' ''] else [])
      in Ok (new_system_process (Shell cfg) args))"

text \<open>
  How a command ends: with a status, or with an error that is not an \<open>ExitError\<close>.
  \<open>exec_Start\<close> and \<open>pty_Start\<close> give the process id and, for a terminal, its file.
\<close>

datatype wait_end = Exited int | WaitFailed go_error

record 'm exec_os =
  LookPath :: "string \<Rightarrow> string go"
  exec_pipe :: "proc_call \<Rightarrow> exec_cmd \<Rightarrow> 'm os \<Rightarrow> nat go \<times> 'm os"
  exec_Start :: "exec_cmd \<Rightarrow> 'm os \<Rightarrow> nat go \<times> 'm os"
  pty_Start :: "exec_cmd \<Rightarrow> 'm os \<Rightarrow> (nat \<times> nat) go \<times> 'm os"
  cmd_Wait :: "exec_cmd \<Rightarrow> 'm os \<Rightarrow> wait_end"
  process_Kill :: "nat \<Rightarrow> 'm os \<Rightarrow> unit go \<times> 'm os"

definition sp_init :: "'m exec_os \<Rightarrow> 'm system_process \<Rightarrow> unit go \<times> 'm system_process" where
  "sp_init x sp =
     (case LookPath x (sp_command sp) of
        Err e \<Rightarrow> (Err (ErrWrap e (''Can't find '' @ sp_command sp @ '' in path'')), sp)
      | Panic m \<Rightarrow> (Panic m, sp)
      | Ok exe \<Rightarrow>
          (Ok (), sp\<lparr>sp_cmd := Some \<lparr>cmd_Path = exe, cmd_Args = exe # sp_args sp, cmd_Env = [], cmd_Process = None\<rparr>\<rparr>))"

definition sp_string :: "'m system_process option \<Rightarrow> string" where
  "sp_string sp =
     (case sp of
        None \<Rightarrow> []
      | Some sp \<Rightarrow> (case sp_cmd sp of None \<Rightarrow> [] | Some cmd \<Rightarrow> go_join (cmd_Path cmd # cmd_Args cmd) '' ''))"

text \<open>\<open>Stdout\<close>, \<open>Stderr\<close> and \<open>Stdin\<close> hand on what \<open>exec.Cmd\<close>'s pipe methods return.\<close>

definition sp_pipe :: "'m exec_os \<Rightarrow> proc_call \<Rightarrow> 'm system_process \<Rightarrow> 'm os \<Rightarrow> nat go \<times> 'm os" where
  "sp_pipe x c sp k =
     (case sp_cmd sp of None \<Rightarrow> (Panic ''nil pointer dereference'', k) | Some cmd \<Rightarrow> exec_pipe x c cmd k)"

definition sp_start ::
  "'m exec_os \<Rightarrow> 'm tty_lib \<Rightarrow> string \<Rightarrow> bool \<Rightarrow> 'm system_process \<Rightarrow> 'm os \<Rightarrow> nat option go \<times> 'm system_process \<times> 'm os" where
  "sp_start x lib Term isPty sp k =
     (case sp_cmd sp of
        None \<Rightarrow> (Panic ''nil pointer dereference'', sp, k)
      | Some cmd \<Rightarrow>
          if \<not> isPty
          then (case exec_Start x cmd k of
                  (Ok pid, k1) \<Rightarrow> (Ok None, sp\<lparr>sp_cmd := Some (cmd\<lparr>cmd_Process := Some pid\<rparr>)\<rparr>, k1)
                | (Err e, k1) \<Rightarrow> (Err e, sp, k1)
                | (Panic m, k1) \<Rightarrow> (Panic m, sp, k1))
          else (let cmd1 = cmd\<lparr>cmd_Env := cmd_Env cmd @ [sprintf ''TERM=%s'' [FStr Term]]\<rparr>
                in case pty_Start x cmd1 k of
                     (Ok (pid, f), k1) \<Rightarrow>
                       (let p = pair_use lib (Some f) zero_pair k1
                        in (Ok (external (Some p)),
                            sp\<lparr>sp_cmd := Some (cmd1\<lparr>cmd_Process := Some pid\<rparr>), sp_terminal := Some p\<rparr>, k1))
                   | (Err e, k1) \<Rightarrow> (Err e, sp\<lparr>sp_cmd := Some cmd1\<rparr>, k1)
                   | (Panic m, k1) \<Rightarrow> (Panic m, sp\<lparr>sp_cmd := Some cmd1\<rparr>, k1)))"

text \<open>
  \<open>Wait\<close>: an \<open>ExitError\<close> is an exit with a status, and \<open>ExitCode\<close> gives that status.
\<close>

definition sp_wait :: "'m exec_os \<Rightarrow> 'm system_process \<Rightarrow> 'm os \<Rightarrow> (int \<times> go_error option) go" where
  "sp_wait x sp k =
     (case sp_cmd sp of
        None \<Rightarrow> Panic ''nil pointer dereference''
      | Some cmd \<Rightarrow>
          (case cmd_Wait x cmd k of
             WaitFailed e \<Rightarrow> Ok (255, Some (ErrWrap e ''cmd.Wait() returned non-exit-error''))
           | Exited code \<Rightarrow> Ok (code, None)))"

text \<open>
  \<open>Cleanup\<close>.  The function that recovers a panic is deferred after \<open>sp.cmd\<close> is first
  used; a panic of \<open>Kill\<close> is recovered, and the result is then false.
\<close>

definition sp_cleanup ::
  "'m exec_os \<Rightarrow> 'm tty_lib \<Rightarrow> 'm system_process \<Rightarrow> 'm os \<Rightarrow> bool go \<times> 'm system_process \<times> 'm os" where
  "sp_cleanup x lib sp k =
     (let (t, k1) = pair_close lib (sp_terminal sp) k;
          sp1 = sp\<lparr>sp_terminal := t\<rparr>
      in case sp_cmd sp1 of
           None \<Rightarrow> (Panic ''nil pointer dereference'', sp1, k1)
         | Some cmd \<Rightarrow>
             (case cmd_Process cmd of
                None \<Rightarrow> (Ok True, sp1, k1)
              | Some pid \<Rightarrow>
                  (case process_Kill x pid k1 of
                     (Ok u, k2) \<Rightarrow> (Ok True, sp1\<lparr>sp_cmd := Some (cmd\<lparr>cmd_Process := None\<rparr>)\<rparr>, k2)
                   | (Err e, k2) \<Rightarrow> (Ok True, sp1, k2)
                   | (Panic m, k2) \<Rightarrow> (Ok False, sp1, k2))))"

fun sp_call :: "'m exec_os \<Rightarrow> 'm tty_lib \<Rightarrow> string \<Rightarrow> bool \<Rightarrow> proc_call \<Rightarrow> 'm system_process \<times> 'm os
    \<Rightarrow> unit go \<times> 'm system_process \<times> 'm os" where
  "sp_call x lib Term isPty CallInit (sp, k) = (case sp_init x sp of (q, sp') \<Rightarrow> (q, sp', k))"
| "sp_call x lib Term isPty CallStart (sp, k) =
     (case sp_start x lib Term isPty sp k of (q, sp', k1) \<Rightarrow> (go_bind q (\<lambda>f. Ok ()), sp', k1))"
| "sp_call x lib Term isPty CallWait (sp, k) = (go_bind (sp_wait x sp k) (\<lambda>r. Ok ()), sp, k)"
| "sp_call x lib Term isPty CallCleanup (sp, k) =
     (case sp_cleanup x lib sp k of (q, sp', k1) \<Rightarrow> (go_bind q (\<lambda>b. Ok ()), sp', k1))"
| "sp_call x lib Term isPty c (sp, k) =
     (case sp_pipe x c sp k of (q, k1) \<Rightarrow> (go_bind q (\<lambda>f. Ok ()), sp, k1))"

section \<open>Lemmas\<close>

text \<open>What the operating system does not do: panic.\<close>

definition exec_safe :: "'m exec_os \<Rightarrow> bool" where
  "exec_safe x \<longleftrightarrow> (\<forall>s. \<not> is_panic (LookPath x s)) \<and> (\<forall>c cmd k. \<not> is_panic (fst (exec_pipe x c cmd k))) \<and>
     (\<forall>cmd k. \<not> is_panic (fst (exec_Start x cmd k))) \<and> (\<forall>cmd k. \<not> is_panic (fst (pty_Start x cmd k)))"

text \<open>A command that can be found.\<close>

definition findable :: "'m exec_os \<Rightarrow> 'm system_process \<Rightarrow> bool" where
  "findable x sp \<longleftrightarrow> exec_safe x \<and> is_ok (LookPath x (sp_command sp))"

lemma sp_start_safe:
  assumes "exec_safe x" and "sp_cmd sp \<noteq> None"
  shows "\<not> is_panic (fst (sp_start x lib Term isPty sp k)) \<and> sp_cmd (fst (snd (sp_start x lib Term isPty sp k))) \<noteq> None"
proof -
  from assms(2) obtain cmd where cmd: "sp_cmd sp = Some cmd" by blast
  let ?cmd1 = "cmd\<lparr>cmd_Env := cmd_Env cmd @ [sprintf ''TERM=%s'' [FStr Term]]\<rparr>"
  obtain a b where st: "exec_Start x cmd k = (a, b)" by (metis prod.exhaust)
  obtain c d where pt: "pty_Start x ?cmd1 k = (c, d)" by (metis prod.exhaust)
  have "\<not> is_panic a" "\<not> is_panic c"
    using assms(1) st pt by (auto simp: exec_safe_def) (metis fst_conv)+
  with cmd st pt show ?thesis
    by (cases isPty; cases a; cases c) (auto simp: sp_start_def Let_def)
qed

lemma sp_cleanup_safe:
  assumes "sp_cmd sp \<noteq> None"
  shows "\<not> is_panic (fst (sp_cleanup x lib sp k)) \<and> sp_cmd (fst (snd (sp_cleanup x lib sp k))) \<noteq> None"
  using assms by (auto simp: sp_cleanup_def Let_def split: prod.splits option.splits go.splits)

lemma sp_wait_safe: "sp_cmd sp \<noteq> None \<Longrightarrow> \<not> is_panic (sp_wait x sp k)"
  by (auto simp: sp_wait_def split: wait_end.splits)

interpretation system: process_impl "sp_call x lib Term isPty" "\<lambda>s. findable x (fst s)"
    "\<lambda>s. exec_safe x \<and> sp_cmd (fst s) \<noteq> None" for x lib Term isPty
proof
  fix s :: "'a system_process \<times> 'a os" and r s'
  assume "findable x (fst s)" "sp_call x lib Term isPty CallInit s = (r, s')"
  then show "\<not> is_panic r \<and> exec_safe x \<and> sp_cmd (fst s') \<noteq> None"
    by (cases s) (auto simp: findable_def is_ok_iff sp_init_def)
next
  fix s :: "'a system_process \<times> 'a os" and c r s'
  assume a: "exec_safe x \<and> sp_cmd (fst s) \<noteq> None" "c \<noteq> CallInit" "sp_call x lib Term isPty c s = (r, s')"
  obtain sp k where s: "s = (sp, k)" by (metis prod.exhaust)
  from a(1) s obtain cmd where cmd: "sp_cmd sp = Some cmd" "exec_safe x" by auto
  have pipe: "\<not> is_panic (fst (sp_pipe x c sp k))" using cmd by (simp add: sp_pipe_def exec_safe_def)
  show "\<not> is_panic r \<and> exec_safe x \<and> sp_cmd (fst s') \<noteq> None"
  proof (cases c)
    case CallStart
    with a s sp_start_safe [of x sp lib Term isPty k] show ?thesis
      by (cases "sp_start x lib Term isPty sp k") (auto simp: is_panic_bind_Ok)
  next
    case CallCleanup
    with a s sp_cleanup_safe [of sp x lib k] show ?thesis
      by (cases "sp_cleanup x lib sp k") (auto simp: is_panic_bind_Ok)
  next
    case CallWait
    with a s sp_wait_safe [of sp x k] show ?thesis by (auto simp: is_panic_bind_Ok)
  qed (use a s pipe in \<open>auto simp: is_panic_bind_Ok split: prod.splits\<close>)
qed

section \<open>Properties\<close>

text \<open>A system on which only \<open>/bin/sh\<close> is found, for the examples.\<close>

definition toy_exec :: "nat exec_os" where
  "toy_exec =
     \<lparr>LookPath = (\<lambda>s. if s = ''sh'' then Ok ''/bin/sh'' else Err (ErrForeign ''not found'')),
      exec_pipe = (\<lambda>c cmd k. (Ok 9, k)), exec_Start = (\<lambda>cmd k. (Ok 42, k)),
      pty_Start = (\<lambda>cmd k. (Ok (42, 5), k)), cmd_Wait = (\<lambda>cmd k. Exited 0), process_Kill = (\<lambda>pid k. (Ok (), k))\<rparr>"

definition failed_schedule :: "go_error \<Rightarrow> session_label list" where
  "failed_schedule e = [RunCall, StartReturns (Err e)] @ replicate 6 (MainFin []) @ [CleanupPanics]"

lemma failed_exec:
  "\<exists>s. session_exec toy_env (failed_schedule e) (new_session []) = Some s \<and>
     s_calls s = [CallInit, CallCleanup] \<and> s_crash s = Some CrashProcess"
  by (simp add: failed_schedule_def numeral_eq_Suc new_session_def run_called_def onetime_lock_def
      compare_and_swap_def zero_onetime_def toy_env_def starting_def session_ops fin_returned_def Let_def)

text \<open>
  A session runs exactly the configured shell, as it is found in the path: alone when the
  user gives no command, and otherwise with the two arguments \<open>-c\<close> and the words of the
  command joined by blanks, which are not quoted.
\<close>

theorem system_command_line:
  "(case system_handle cfg userCommand of
      Ok sp \<Rightarrow>
        (case sp_init x sp of
           (Ok u, sp') \<Rightarrow>
             (\<exists>exe. LookPath x (Shell cfg) = Ok exe \<and>
                map_option cmd_Path (sp_cmd sp') = Some exe \<and>
                map_option cmd_Args (sp_cmd sp') =
                  Some (exe # (if userCommand = [] then [] else [''-c'', go_join userCommand '' ''])))
         | (Err e, sp') \<Rightarrow> sp_cmd sp' = None
         | (Panic m, sp') \<Rightarrow> LookPath x (Shell cfg) = Panic m)
    | _ \<Rightarrow> False)"
  by (cases "LookPath x (Shell cfg)") (simp_all add: system_handle_def new_system_process_def sp_init_def Let_def)

text \<open>
  C35.  A session on a shell that is not found crashes the server: \<open>Init\<close> returns an error, the
  session is finalized, and its last action, the call of \<open>Cleanup\<close> in the background,
  dereferences the command that was never made, before the function that recovers from panics
  is deferred.
\<close>

theorem missing_shell_crashes_server:
  assumes "LookPath x (sp_command sp) = Err e" and "sp_cmd sp = None"
  shows "is_panic (fst (run_calls (sp_call x lib Term isPty) [CallInit, CallCleanup] (sp, k))) \<and>
    (\<exists>e' ls s. fst (sp_init x sp) = Err e' \<and> StartReturns (Err e') \<in> set ls \<and>
       run_path (session_step toy_env) (new_session []) ls s \<and> s_calls s = [CallInit, CallCleanup] \<and>
       s_crash s = Some CrashProcess)"
proof
  show "is_panic (fst (run_calls (sp_call x lib Term isPty) [CallInit, CallCleanup] (sp, k)))"
    using assms by (simp add: sp_init_def sp_cleanup_def Let_def split: prod.splits)
  obtain e' where e': "fst (sp_init x sp) = Err e'" using assms by (simp add: sp_init_def)
  obtain s where "session_exec toy_env (failed_schedule e') (new_session []) = Some s"
      "s_calls s = [CallInit, CallCleanup]" "s_crash s = Some CrashProcess"
    using failed_exec by blast
  moreover have "StartReturns (Err e') \<in> set (failed_schedule e')" by (simp add: failed_schedule_def)
  ultimately show "\<exists>e' ls s. fst (sp_init x sp) = Err e' \<and> StartReturns (Err e') \<in> set ls \<and>
       run_path (session_step toy_env) (new_session []) ls s \<and> s_calls s = [CallInit, CallCleanup] \<and>
       s_crash s = Some CrashProcess"
    using e' by (auto simp: session_exec_run)
qed

theorem missing_shell_crashes_server_witness:
  "is_panic (fst (run_calls (sp_call toy_exec toy_tty ''xterm'' False) [CallInit, CallCleanup]
     (new_system_process ''zsh'' [], toy_os)))"
  using missing_shell_crashes_server [of toy_exec "new_system_process ''zsh'' []"]
  by (simp add: toy_exec_def new_system_process_def)

text \<open>
  When the shell is found, no schedule of a session makes a method of its process panic:
  not a failing pipe, a failing start, a failing kill, or a cleanup that comes before the start.
\<close>

theorem system_session_never_panics:
  assumes "run_path (session_step env) (new_session lg) ls s" and "exec_safe x"
    and "LookPath x (sp_command sp) = Ok exe"
  shows "\<not> is_panic (fst (run_calls (sp_call x lib Term isPty) (s_calls s) (sp, k)))"
proof -
  have "findable x sp" using assms(2,3) by (simp add: findable_def)
  then show ?thesis by (intro system.session_safe [OF assms(1)]) simp
qed

theorem system_session_never_panics_witness:
  "\<exists>s. session_exec toy_env normal_schedule (new_session []) = Some s \<and> length (s_calls s) = 7 \<and>
     \<not> is_panic (fst (run_calls (sp_call toy_exec toy_tty ''xterm'' False) (s_calls s)
        (new_system_process ''sh'' [], toy_os)))"
proof -
  obtain s where run: "run_path (session_step toy_env) (new_session []) normal_schedule s"
    and "s_calls s = [CallInit, CallStdout, CallStderr, CallStdin, CallStart, CallWait, CallCleanup]"
    by (rule normal_run)
  moreover have "exec_safe toy_exec" by (simp add: exec_safe_def toy_exec_def)
  ultimately show ?thesis
    using system_session_never_panics [OF run, of toy_exec "new_system_process ''sh'' []" "''/bin/sh''"]
    by (auto simp: session_exec_run toy_exec_def new_system_process_def)
qed

end
