(* ===== verification/Docker.thy ===== *)
theory Docker
  imports Handle
begin

text \<open>
  \<open>config/dockerexec\<close>, the part that decides who may enter which container:
  \<open>find.go\<close>, \<open>keys.go\<close> and the \<open>Apply\<close> and \<open>Handle\<close> methods of \<open>config.go\<close>.

  The docker client and \<open>ssh.ParseAuthorizedKey\<close> are parameters.  What the daemon answers
  depends on its state, of type \<open>'d\<close>, at the time of the call: every definition that calls
  it takes that state, so that the containers can change between two callbacks of the same
  connection.
\<close>

section \<open>Containers\<close>

record container =
  c_ID :: string
  c_Labels :: "string \<rightharpoonup> string"

text \<open>A call of the client returns an error (left) or a result (right).\<close>

record 'd docker =
  ContainerList :: "(string \<times> string) list \<Rightarrow> 'd \<Rightarrow> go_error + container list"
  CopyFromContainer :: "string \<Rightarrow> string \<Rightarrow> 'd \<Rightarrow> go_error + (go_error + string)"

text \<open>
  \<open>CopyFromContainer\<close> opens a stream, and reading all of it may fail in turn.
\<close>

definition ErrContainerNotUnique :: go_error where
  "ErrContainerNotUnique = ErrNew ''No unique container found''"

definition find_unique_container :: "'d docker \<Rightarrow> string \<Rightarrow> string \<Rightarrow> 'd \<Rightarrow> container go" where
  "find_unique_container cli key val d =
     (case ContainerList cli [(''label'', sprintf ''%s=%s'' [FStr key, FStr val]), (''status'', ''running'')] d of
        Inl e \<Rightarrow> Err (ErrWrap e ''Unable to list containers'')
      | Inr containers \<Rightarrow>
          if length containers \<noteq> 1 then Err ErrContainerNotUnique else Ok (containers ! 0))"

section \<open>Keys\<close>

type_synonym key_parser = "string \<Rightarrow> go_error + public_key \<times> string"

text \<open>The loop ends when the parser fails; None is a loop that does not end.\<close>

partial_function (option) parse_all_keys :: "key_parser \<Rightarrow> string \<Rightarrow> public_key list option" where
  "parse_all_keys parse bytes =
     (case parse bytes of
        Inl e \<Rightarrow> Some []
      | Inr (key, rest) \<Rightarrow>
          Option.bind (parse_all_keys parse rest) (\<lambda>keys. Some (key # keys)))"

record ssh_auth_options =
  LabelKey :: string
  LabelFile :: string

text \<open>The loop over the paths; a file that cannot be opened or read is skipped.\<close>

fun collect_file_keys ::
  "key_parser \<Rightarrow> 'd docker \<Rightarrow> 'd \<Rightarrow> string \<Rightarrow> string list \<Rightarrow> public_key list \<Rightarrow> public_key list option" where
  "collect_file_keys parse cli d cid [] keys = Some keys"
| "collect_file_keys parse cli d cid (path # paths) keys =
     (case CopyFromContainer cli cid path d of
        Inl e \<Rightarrow> collect_file_keys parse cli d cid paths keys
      | Inr (Inl e) \<Rightarrow> collect_file_keys parse cli d cid paths keys
      | Inr (Inr bytes) \<Rightarrow>
          (case parse_all_keys parse bytes of
             None \<Rightarrow> None
           | Some ks \<Rightarrow> collect_file_keys parse cli d cid paths (keys @ ks)))"

definition find_container_keys ::
  "key_parser \<Rightarrow> 'd docker \<Rightarrow> container \<Rightarrow> ssh_auth_options \<Rightarrow> 'd \<Rightarrow> public_key list option" where
  "find_container_keys parse cli c opts d =
     (case (case c_Labels c (LabelKey opts) of
              Some keyString \<Rightarrow> if keyString \<noteq> [] then parse_all_keys parse keyString else Some []
            | None \<Rightarrow> Some []) of
        None \<Rightarrow> None
      | Some keys \<Rightarrow>
          (case c_Labels c (LabelFile opts) of
             None \<Rightarrow> Some keys
           | Some filePath \<Rightarrow>
               if filePath = [] then Some keys
               else collect_file_keys parse cli d (c_ID c) (go_split filePath CHR '','') keys))"

section \<open>The configuration\<close>

record 'd container_exec_config =
  Client :: "'d docker option"
  DockerLabelUser :: string
  DockerLabelAuthFile :: string
  DockerLabelKey :: string
  ContainerShell :: string

text \<open>
  What can be stored in a context: a container, or a value of some other package.  The
  key is a type of its own in the code; here it is an integer that no one else uses.
\<close>

datatype ctx_value = CtxContainer container | CtxOther string

definition containerContextKey :: int where
  "containerContextKey = 0"

definition find_container ::
  "'d container_exec_config \<Rightarrow> 'd \<Rightarrow> ctx_value ssh_ctx \<Rightarrow> container go \<times> ctx_value ssh_ctx" where
  "find_container cfg d ctx =
     (case ctx_values ctx containerContextKey of
        Some (CtxContainer c) \<Rightarrow> (Ok c, ctx)
      | _ \<Rightarrow>
          (case Client cfg of
             None \<Rightarrow> (Panic ''nil pointer dereference'', ctx)
           | Some cli \<Rightarrow>
               (case find_unique_container cli (DockerLabelUser cfg) (peer_user (ctx_peer ctx)) d of
                  Ok c \<Rightarrow> (Ok c, ctx\<lparr>ctx_values := (ctx_values ctx)(containerContextKey \<mapsto> CtxContainer c)\<rparr>)
                | Err e \<Rightarrow> (Err e, ctx)
                | Panic m \<Rightarrow> (Panic m, ctx))))"

text \<open>
  The key finder that \<open>Apply\<close> gives to \<open>AuthorizeKeys\<close>.  A search that does not end (None)
  is given as a panic: like one, it lets nobody in.
\<close>

definition docker_keyfinder :: "key_parser \<Rightarrow> 'd container_exec_config \<Rightarrow> 'd \<Rightarrow> ctx_value keyfinder" where
  "docker_keyfinder parse cfg d ctx =
     (case find_container cfg d ctx of
        (Ok c, ctx') \<Rightarrow>
          (case Client cfg of
             None \<Rightarrow> (Panic ''nil pointer dereference'', ctx')
           | Some cli \<Rightarrow>
               (case find_container_keys parse cli c \<lparr>LabelKey = [], LabelFile = DockerLabelAuthFile cfg\<rparr> d of
                  None \<Rightarrow> (Panic ''no result'', ctx')
                | Some keys \<Rightarrow> (Ok keys, ctx')))
      | (Err e, ctx') \<Rightarrow> (Err e, ctx')
      | (Panic m, ctx') \<Rightarrow> (Panic m, ctx'))"

text \<open>What the configuration uses of other packages.\<close>

record auth_lib =
  al_err_text :: "go_error \<Rightarrow> string"
  al_KeysEqual :: "public_key \<Rightarrow> public_key \<Rightarrow> bool"
  al_parse :: key_parser

definition docker_key_handler :: "auth_lib \<Rightarrow> 'd container_exec_config \<Rightarrow> 'd \<Rightarrow> ctx_value public_key_handler" where
  "docker_key_handler lib cfg d =
     authorize_keys (al_err_text lib) (al_KeysEqual lib) (docker_keyfinder (al_parse lib) cfg d)"

definition docker_apply ::
  "auth_lib \<Rightarrow> 'd container_exec_config \<Rightarrow> 'd \<Rightarrow> (ctx_value, 'h) ssh_server \<Rightarrow> world
     \<Rightarrow> unit go \<times> (ctx_value, 'h) ssh_server \<times> world" where
  "docker_apply lib cfg d server w = (Ok (), server\<lparr>PublicKeyHandler := Some (docker_key_handler lib cfg d)\<rparr>, w)"

interpretation docker_cfg: handler_neutral "docker_apply lib cfg d" for lib cfg d
  by unfold_locales (auto simp: docker_apply_def)

text \<open>The container and the command of the process that \<open>Handle\<close> makes (theory \<open>DockerExec\<close>).\<close>

definition docker_handle ::
  "'d container_exec_config \<Rightarrow> string list \<Rightarrow> 'd \<Rightarrow> ctx_value ssh_ctx \<Rightarrow> (string \<times> string list) go \<times> ctx_value ssh_ctx" where
  "docker_handle cfg userCommand d ctx =
     (let command = [ContainerShell cfg] @ (if length userCommand > 0 then [''-c'', go_join userCommand '' ''] else [])
      in case find_container cfg d ctx of
           (Ok c, ctx') \<Rightarrow> (Ok (c_ID c, command), ctx')
         | (Err e, ctx') \<Rightarrow> (Err e, ctx')
         | (Panic m, ctx') \<Rightarrow> (Panic m, ctx'))"

section \<open>A connection\<close>

text \<open>
  One attempt to authenticate: the user name and the key that the client offers, and the
  state of the daemon then.  The attempts of a connection share its context; after the first
  that succeeds, sessions are handled.
\<close>

record 'd attempt =
  at_user :: string
  at_key :: public_key
  at_daemon :: 'd

definition with_user :: "string \<Rightarrow> 'v ssh_ctx \<Rightarrow> 'v ssh_ctx" where
  "with_user u ctx = ctx\<lparr>ctx_peer := (ctx_peer ctx)\<lparr>peer_user := u\<rparr>\<rparr>"

fun authenticate ::
  "auth_lib \<Rightarrow> 'd container_exec_config \<Rightarrow> 'd attempt list \<Rightarrow> ctx_value ssh_ctx \<Rightarrow> log
     \<Rightarrow> 'd attempt option \<times> ctx_value ssh_ctx" where
  "authenticate lib cfg [] ctx lg = (None, ctx)"
| "authenticate lib cfg (a # as) ctx lg =
     (case docker_key_handler lib cfg (at_daemon a) (with_user (at_user a) ctx) (at_key a) lg of
        (Ok True, ctx', lg') \<Rightarrow> (Some a, ctx')
      | (r, ctx', lg') \<Rightarrow> authenticate lib cfg as ctx' lg')"

section \<open>Lemmas\<close>

text \<open>
  The documented behaviour of \<open>ssh.ParseAuthorizedKey\<close> that the loop relies on: what is
  left after a key is shorter than what it was given.
\<close>

definition parse_shrinks :: "key_parser \<Rightarrow> bool" where
  "parse_shrinks parse \<longleftrightarrow> (\<forall>b key rest. parse b = Inr (key, rest) \<longrightarrow> length rest < length b)"

lemma parse_all_keys_total:
  assumes "parse_shrinks parse"
  shows "\<exists>keys. parse_all_keys parse bytes = Some keys \<and> length keys \<le> length bytes"
proof (induction "length bytes" arbitrary: bytes rule: less_induct)
  case less
  show ?case
  proof (cases "parse bytes")
    case (Inl e)
    then show ?thesis by (simp add: parse_all_keys.simps [of parse bytes])
  next
    case (Inr kr)
    obtain key rest where kr: "kr = (key, rest)" by (metis prod.exhaust)
    with Inr assms have "length rest < length bytes" by (auto simp: parse_shrinks_def)
    with less [of rest] obtain keys where "parse_all_keys parse rest = Some keys" "length keys \<le> length rest"
      by auto
    with Inr kr \<open>length rest < length bytes\<close> show ?thesis
      by (simp add: parse_all_keys.simps [of parse bytes])
  qed
qed

text \<open>The keys of one file: none, if it cannot be read.\<close>

definition file_keys :: "key_parser \<Rightarrow> 'd docker \<Rightarrow> 'd \<Rightarrow> string \<Rightarrow> string \<Rightarrow> public_key list" where
  "file_keys parse cli d cid path =
     (case CopyFromContainer cli cid path d of
        Inr (Inr bytes) \<Rightarrow> the (parse_all_keys parse bytes)
      | _ \<Rightarrow> [])"

lemma collect_file_keys_eq:
  assumes "parse_shrinks parse"
  shows "collect_file_keys parse cli d cid paths keys = Some (keys @ concat (map (file_keys parse cli d cid) paths))"
proof (induction paths arbitrary: keys)
  case (Cons path paths)
  have "\<exists>ks. parse_all_keys parse b = Some ks" for b using parse_all_keys_total [OF assms, of b] by blast
  with Cons show ?case
    by (auto simp: file_keys_def split: sum.splits option.splits) (metis option.distinct(1))
qed simp

definition label_keys :: "key_parser \<Rightarrow> container \<Rightarrow> string \<Rightarrow> public_key list" where
  "label_keys parse c label =
     (case c_Labels c label of None \<Rightarrow> [] | Some s \<Rightarrow> if s = [] then [] else the (parse_all_keys parse s))"

lemma find_container_keys_eq:
  assumes "parse_shrinks parse"
  shows "find_container_keys parse cli c opts d =
    Some (label_keys parse c (LabelKey opts) @
      (case c_Labels c (LabelFile opts) of
         None \<Rightarrow> []
       | Some paths \<Rightarrow> if paths = [] then []
           else concat (map (file_keys parse cli d (c_ID c)) (go_split paths CHR '',''))))"
proof -
  have first: "(case c_Labels c (LabelKey opts) of
              Some keyString \<Rightarrow> if keyString \<noteq> [] then parse_all_keys parse keyString else Some []
            | None \<Rightarrow> Some []) = Some (label_keys parse c (LabelKey opts))"
    using parse_all_keys_total [OF assms, of "the (c_Labels c (LabelKey opts))"]
    by (auto simp: label_keys_def split: option.splits)
  show ?thesis unfolding find_container_keys_def first
    by (auto simp: collect_file_keys_eq [OF assms] split: option.splits)
qed

text \<open>Which container a context can hold: one that was found for some attempt.\<close>

definition found_in :: "'d container_exec_config \<Rightarrow> 'd attempt list \<Rightarrow> container \<Rightarrow> bool" where
  "found_in cfg as c \<longleftrightarrow> (\<exists>a \<in> set as. \<exists>cli. Client cfg = Some cli \<and>
     find_unique_container cli (DockerLabelUser cfg) (at_user a) (at_daemon a) = Ok c)"

definition ctx_ok :: "'d container_exec_config \<Rightarrow> 'd attempt list \<Rightarrow> ctx_value ssh_ctx \<Rightarrow> bool" where
  "ctx_ok cfg as ctx \<longleftrightarrow> (\<forall>c. ctx_values ctx containerContextKey = Some (CtxContainer c) \<longrightarrow> found_in cfg as c)"

lemma found_in_append: "found_in cfg as c \<Longrightarrow> found_in cfg (as @ bs) c"
  by (auto simp: found_in_def)

lemma find_container_cached:
  "ctx_values ctx containerContextKey = Some (CtxContainer c) \<Longrightarrow> find_container cfg d ctx = (Ok c, ctx)"
  by (simp add: find_container_def)

lemma find_container_Ok:
  assumes "find_container cfg d ctx = (Ok c, ctx')"
  shows "ctx_values ctx' containerContextKey = Some (CtxContainer c)"
    and "ctx_values ctx containerContextKey = Some (CtxContainer c) \<or>
      (\<exists>cli. Client cfg = Some cli \<and> find_unique_container cli (DockerLabelUser cfg) (peer_user (ctx_peer ctx)) d = Ok c)"
  using assms by (auto simp: find_container_def split: option.splits ctx_value.splits go.splits)

lemma find_container_other:
  assumes "find_container cfg d ctx = (r, ctx')" and "\<not> is_ok r"
  shows "ctx' = ctx"
  using assms by (cases r) (auto simp: find_container_def split: option.splits ctx_value.splits go.splits)

lemma find_container_ctx_ok:
  assumes "find_container cfg (at_daemon a) (with_user (at_user a) ctx) = (r, ctx')" and "ctx_ok cfg bs ctx"
  shows "ctx_ok cfg (bs @ [a]) ctx'"
proof (cases r)
  case (Ok c)
  with find_container_Ok [OF assms(1) [unfolded Ok]] assms(2) show ?thesis
    by (auto simp: ctx_ok_def found_in_def with_user_def)
next
  case (Err e)
  with find_container_other [OF assms(1)] assms(2) show ?thesis
    by (auto simp: ctx_ok_def with_user_def intro: found_in_append)
next
  case (Panic m)
  with find_container_other [OF assms(1)] assms(2) show ?thesis
    by (auto simp: ctx_ok_def with_user_def intro: found_in_append)
qed

lemma docker_key_handler_ctx:
  assumes "docker_key_handler lib cfg d ctx key lg = (r, ctx', lg')"
  shows "ctx' = snd (find_container cfg d ctx)"
  using assms
  by (auto simp: docker_key_handler_def authorize_keys_def docker_keyfinder_def
      split: prod.splits go.splits option.splits)

lemma docker_key_handler_True:
  assumes "docker_key_handler lib cfg d ctx key lg = (Ok True, ctx', lg')"
  shows "\<exists>c cli keys. find_container cfg d ctx = (Ok c, ctx') \<and> Client cfg = Some cli \<and>
    find_container_keys (al_parse lib) cli c \<lparr>LabelKey = [], LabelFile = DockerLabelAuthFile cfg\<rparr> d = Some keys \<and>
    (\<exists>k \<in> set keys. al_KeysEqual lib k key)"
  using assms
  by (auto simp: docker_key_handler_def authorize_keys_def docker_keyfinder_def authorize_loop_eq
      split: prod.splits go.splits option.splits)

definition key_authorized :: "auth_lib \<Rightarrow> 'd container_exec_config \<Rightarrow> container \<Rightarrow> 'd attempt \<Rightarrow> bool" where
  "key_authorized lib cfg c a \<longleftrightarrow> (\<exists>cli keys. Client cfg = Some cli \<and>
     find_container_keys (al_parse lib) cli c \<lparr>LabelKey = [], LabelFile = DockerLabelAuthFile cfg\<rparr> (at_daemon a) = Some keys \<and>
     (\<exists>k \<in> set keys. al_KeysEqual lib k (at_key a)))"

lemma authenticate_sound:
  "authenticate lib cfg as ctx lg = (Some a, ctx') \<Longrightarrow> ctx_ok cfg bs ctx \<Longrightarrow>
     \<exists>c. ctx_values ctx' containerContextKey = Some (CtxContainer c) \<and> found_in cfg (bs @ as) c \<and>
       a \<in> set as \<and> key_authorized lib cfg c a"
proof (induction as arbitrary: ctx lg bs)
  case (Cons x as)
  obtain r ctx1 lg1 where h: "docker_key_handler lib cfg (at_daemon x) (with_user (at_user x) ctx) (at_key x) lg = (r, ctx1, lg1)"
    by (metis prod.exhaust)
  obtain q where fc: "find_container cfg (at_daemon x) (with_user (at_user x) ctx) = (q, ctx1)"
    using docker_key_handler_ctx [OF h] by (metis prod.collapse)
  note ok1 = find_container_ctx_ok [OF fc Cons.prems(2)]
  show ?case
  proof (cases "r = Ok True")
    case True
    with Cons.prems(1) h have a: "a = x" "ctx' = ctx1" by auto
    from docker_key_handler_True [OF h [unfolded True]] fc obtain c cli keys where
        c: "q = Ok c" "Client cfg = Some cli" "find_container_keys (al_parse lib) cli c
          \<lparr>LabelKey = [], LabelFile = DockerLabelAuthFile cfg\<rparr> (at_daemon x) = Some keys"
        "\<exists>k \<in> set keys. al_KeysEqual lib k (at_key x)"
      by auto
    have held: "ctx_values ctx1 containerContextKey = Some (CtxContainer c)"
      using find_container_Ok(1) [OF fc [unfolded c(1)]] .
    with ok1 have "found_in cfg (bs @ [x]) c" by (simp add: ctx_ok_def)
    then have "found_in cfg (bs @ x # as) c" using found_in_append [of cfg "bs @ [x]" c as] by simp
    with held c a show ?thesis by (auto simp: key_authorized_def)
  next
    case False
    with Cons.prems(1) h have "authenticate lib cfg as ctx1 lg1 = (Some a, ctx')"
      by (auto split: go.splits bool.splits)
    from Cons.IH [OF this ok1] show ?thesis by auto
  qed
qed simp

section \<open>Properties\<close>

text \<open>
  A parser, a daemon whose state is the containers it runs, and a configuration, for the
  examples: a key is one byte, and the keys of a file are its bytes.
\<close>

definition toy_parse :: key_parser where
  "toy_parse b = (case b of [] \<Rightarrow> Inl (ErrForeign ''no key found'') | k # rest \<Rightarrow> Inr ([k], rest))"

definition toy_docker :: "container list docker" where
  "toy_docker =
     \<lparr>ContainerList = (\<lambda>fs d. Inr (filter (\<lambda>c. c_Labels c ''user'' = Some (drop 5 (snd (hd fs)))) d)),
      CopyFromContainer = (\<lambda>cid path d. if path = ''/keys'' then Inr (Inr ''AB'') else Inl (ErrForeign ''no such file''))\<rparr>"

definition toy_container :: container where
  "toy_container = \<lparr>c_ID = ''c1'', c_Labels = [''user'' \<mapsto> ''u'', ''auth'' \<mapsto> ''/none,/keys'']\<rparr>"

definition toy_exec_config :: "container list container_exec_config" where
  "toy_exec_config = \<lparr>Client = Some toy_docker, DockerLabelUser = ''user'', DockerLabelAuthFile = ''auth'',
     DockerLabelKey = [], ContainerShell = ''/bin/sh''\<rparr>"

definition toy_auth :: auth_lib where
  "toy_auth = \<lparr>al_err_text = (\<lambda>e. ''error''), al_KeysEqual = (=), al_parse = toy_parse\<rparr>"

definition toy_ctx :: "ctx_value ssh_ctx" where
  "toy_ctx = \<lparr>ctx_peer = \<lparr>peer_user = [], peer_addr = ''a''\<rparr>, ctx_values = Map.empty\<rparr>"

definition toy_attempts :: "container list attempt list" where
  "toy_attempts = [\<lparr>at_user = ''x'', at_key = ''A'', at_daemon = [toy_container]\<rparr>,
     \<lparr>at_user = ''u'', at_key = ''B'', at_daemon = [toy_container]\<rparr>]"

lemma toy_parse_shrinks: "parse_shrinks toy_parse"
  by (auto simp: parse_shrinks_def toy_parse_def split: list.splits)

lemma toy_keys: "parse_all_keys toy_parse ''AB'' = Some [''A'', ''B'']"
  by (subst parse_all_keys.simps, simp add: toy_parse_def, subst parse_all_keys.simps, simp add: toy_parse_def,
      subst parse_all_keys.simps, simp add: toy_parse_def)

lemma toy_find:
  "find_unique_container toy_docker ''user'' ''x'' [toy_container] = Err ErrContainerNotUnique"
  "find_unique_container toy_docker ''user'' ''u'' [toy_container] = Ok toy_container"
  by (simp_all add: find_unique_container_def toy_docker_def toy_container_def fmt_verb_def fmt_extra_def)

lemma toy_authenticate:
  "\<exists>a ctx'. authenticate toy_auth toy_exec_config toy_attempts toy_ctx [] = (Some a, ctx') \<and> at_key a = ''B''"
proof -
  have keys: "find_container_keys toy_parse toy_docker toy_container \<lparr>LabelKey = [], LabelFile = ''auth''\<rparr> d = Some [''A'', ''B'']" for d
    by (simp add: find_container_keys_eq [OF toy_parse_shrinks] label_keys_def toy_container_def toy_docker_def
        file_keys_def toy_keys)
  have lab: "DockerLabelAuthFile toy_exec_config = ''auth''" "Client toy_exec_config = Some toy_docker"
      "DockerLabelUser toy_exec_config = ''user''" by (simp_all add: toy_exec_config_def)
  show ?thesis
    by (simp add: toy_attempts_def docker_key_handler_def authorize_keys_def docker_keyfinder_def find_container_def
        with_user_def toy_ctx_def lab toy_find keys toy_auth_def)
qed

text \<open>
  C2.  A session runs in the container that authorized it: when a connection has authenticated,
  after any number of attempts with any user names and keys while containers come and go, its
  sessions run in one container, whatever the daemon answers by then; that container was the
  only running one with the user label of one of the attempts, and the accepted key was one
  of its keys when it was offered.
\<close>

theorem session_container_authorized:
  assumes "ctx_values ctx containerContextKey = None"
    and "authenticate lib cfg as ctx lg = (Some a, ctx')"
  shows "\<exists>c. a \<in> set as \<and> key_authorized lib cfg c a \<and>
    (\<exists>b \<in> set as. \<exists>cli. Client cfg = Some cli \<and>
       find_unique_container cli (DockerLabelUser cfg) (at_user b) (at_daemon b) = Ok c) \<and>
    (\<forall>userCommand d u. docker_handle cfg userCommand d (with_user u ctx') =
       (Ok (c_ID c, ContainerShell cfg # (if userCommand = [] then [] else [''-c'', go_join userCommand '' ''])),
        with_user u ctx'))"
proof -
  have "ctx_ok cfg [] ctx" using assms(1) by (simp add: ctx_ok_def)
  from authenticate_sound [OF assms(2) this] obtain c where
      held: "ctx_values ctx' containerContextKey = Some (CtxContainer c)"
    and c: "found_in cfg as c" "a \<in> set as" "key_authorized lib cfg c a" by auto
  have "find_container cfg d (with_user u ctx') = (Ok c, with_user u ctx')" for d u
    using held by (intro find_container_cached) (simp add: with_user_def)
  then show ?thesis using c by (intro exI [of _ c]) (auto simp: docker_handle_def found_in_def)
qed

theorem session_container_authorized_witness:
  "\<exists>a ctx'. authenticate toy_auth toy_exec_config toy_attempts toy_ctx [] = (Some a, ctx') \<and> at_key a = ''B'' \<and>
     fst (docker_handle toy_exec_config [''id''] [] (with_user ''y'' ctx')) = Ok (''c1'', [''/bin/sh'', ''-c'', ''id''])"
proof -
  obtain a ctx' where run: "authenticate toy_auth toy_exec_config toy_attempts toy_ctx [] = (Some a, ctx')" and a: "at_key a = ''B''"
    using toy_authenticate by blast
  have none: "ctx_values toy_ctx containerContextKey = None" by (simp add: toy_ctx_def)
  from session_container_authorized [OF none run] obtain b cli c where
      "b \<in> set toy_attempts" "Client toy_exec_config = Some cli"
      "find_unique_container cli (DockerLabelUser toy_exec_config) (at_user b) (at_daemon b) = Ok c"
    and handle: "docker_handle toy_exec_config [''id''] [] (with_user ''y'' ctx') =
       (Ok (c_ID c, [ContainerShell toy_exec_config, ''-c'', go_join [''id''] '' '']), with_user ''y'' ctx')"
    by auto
  then have "c = toy_container"
    by (auto simp: toy_attempts_def toy_exec_config_def toy_find)
  with handle run a show ?thesis by (simp add: toy_container_def toy_exec_config_def)
qed

text \<open>
  Finding the keys of a container always ends, and gives the keys of the key label
  followed by the keys of every file that the file label lists, in order; a file that cannot
  be opened or read is skipped and does not hide the files after it.
\<close>

theorem find_container_keys_collects:
  assumes "parse_shrinks parse"
  shows "find_container_keys parse cli c opts d =
    Some (label_keys parse c (LabelKey opts) @
      (case c_Labels c (LabelFile opts) of
         None \<Rightarrow> []
       | Some paths \<Rightarrow> if paths = [] then []
           else concat (map (file_keys parse cli d (c_ID c)) (go_split paths CHR '',''))))"
  by (rule find_container_keys_eq [OF assms])

theorem find_container_keys_collects_witness:
  "find_container_keys toy_parse toy_docker toy_container \<lparr>LabelKey = [], LabelFile = ''auth''\<rparr> [] = Some [''A'', ''B'']"
  using find_container_keys_collects [OF toy_parse_shrinks, of toy_docker toy_container "\<lparr>LabelKey = [], LabelFile = ''auth''\<rparr>" "[]"]
  by (simp add: label_keys_def toy_container_def toy_docker_def file_keys_def toy_keys)

text \<open>
  Reading all keys of a file ends after at most as many keys as the file has bytes.
\<close>

theorem parse_all_keys_ends:
  assumes "parse_shrinks parse"
  shows "\<exists>keys. parse_all_keys parse bytes = Some keys \<and> length keys \<le> length bytes"
  by (rule parse_all_keys_total [OF assms])

theorem parse_all_keys_ends_witness:
  "\<exists>keys. parse_all_keys toy_parse ''AB'' = Some keys \<and> length keys \<le> length ''AB''"
  using parse_all_keys_ends [OF toy_parse_shrinks, of "''AB''"] .

text \<open>
  The label for keys that the configuration names is never read: whatever it is, the
  key handler that \<open>Apply\<close> installs is the same.
\<close>

theorem docker_label_key_ignored:
  "docker_apply lib (cfg\<lparr>DockerLabelKey := label\<rparr>) d server w = docker_apply lib cfg d server w"
proof -
  have "find_container (cfg\<lparr>DockerLabelKey := label\<rparr>) d = find_container cfg d"
    by (rule ext) (simp add: find_container_def split: option.splits ctx_value.splits go.splits)
  then have "docker_keyfinder parse (cfg\<lparr>DockerLabelKey := label\<rparr>) d = docker_keyfinder parse cfg d" for parse
    by (intro ext) (simp add: docker_keyfinder_def split: option.splits go.splits prod.splits)
  then show ?thesis by (simp add: docker_apply_def docker_key_handler_def)
qed

end
