(* ===== verification/Commands.thy ===== *)
theory Commands
  imports Flags Repl OsExec Docker
begin

text \<open>
  The three programs: \<open>cmd/dockersshd/main.go\<close>, \<open>cmd/exposshed/main.go\<close> and
  \<open>cmd/simplesshd/main.go\<close>, with the flags of the configurations they use
  (\<open>RegisterFlags\<close> in \<open>config/dockerexec/config.go\<close>, \<open>config/osexec/config.go\<close> and
  \<open>config/terminal/config.go\<close>).

  A program is its initial options and configuration, its \<open>init\<close> functions, and its
  \<open>main\<close>, up to the point where \<open>ListenAndServe\<close> is called.  The program's packages register
  no flags of their own.  Parameters: those of the configurations, the Docker client that the
  environment describes, and what \<open>ListenAndServe\<close> returns.
\<close>

section \<open>Flags of the configurations\<close>

definition userlabel_flag :: "'d container_exec_config program flag" where
  "userlabel_flag = string_flag ''userlabel'' (\<lambda>v. put_config (\<lambda>c. c\<lparr>DockerLabelUser := v\<rparr>))"

definition keylabel_flag :: "'d container_exec_config program flag" where
  "keylabel_flag = string_flag ''keylabel'' (\<lambda>v. put_config (\<lambda>c. c\<lparr>DockerLabelAuthFile := v\<rparr>))"

definition container_shell_flag :: "'d container_exec_config program flag" where
  "container_shell_flag = string_flag ''shell'' (\<lambda>v. put_config (\<lambda>c. c\<lparr>ContainerShell := v\<rparr>))"

definition docker_register_flags ::
  "nat option \<Rightarrow> 'd container_exec_config program \<times> 'd container_exec_config program flagsets
     \<Rightarrow> unit go \<times> 'd container_exec_config program \<times> 'd container_exec_config program flagsets" where
  "docker_register_flags flagset st =
     (let r = flagset_or_default flagset
      in go_then (register r userlabel_flag st) (\<lambda>u st1.
         go_then (register r keylabel_flag st1) (\<lambda>u st2.
         register r container_shell_flag st2)))"

text \<open>The flag set is determined, and then the flag is registered with \<open>flag.StringVar\<close>.\<close>

definition shell_flag :: "system_exec_config program flag" where
  "shell_flag = string_flag ''shell'' (\<lambda>v. put_config (\<lambda>c. c\<lparr>Shell := v\<rparr>))"

definition system_register_flags ::
  "nat option \<Rightarrow> system_exec_config program \<times> system_exec_config program flagsets
     \<Rightarrow> unit go \<times> system_exec_config program \<times> system_exec_config program flagsets" where
  "system_register_flags flagset st =
     (let r = flagset_or_default flagset in register CommandLine shell_flag st)"

definition repl_register_flags :: "nat option \<Rightarrow> 'p \<times> 's flagsets \<Rightarrow> unit go \<times> 'p \<times> 's flagsets" where
  "repl_register_flags flagset st = (Ok (), st)"

section \<open>Starting\<close>

record cmd_env =
  ce_parseDuration :: "string \<Rightarrow> int go"
  ce_notices :: string
  ce_platform :: platform
  ce_err_text :: "go_error \<Rightarrow> string"

datatype 'p init_result = Started 'p | InitPanic string | InitExit int string

text \<open>
  The first \<open>init\<close> function: the flags are registered, and then, also when that has panicked,
  the arguments parsed.
\<close>

definition init_flags ::
  "cmd_env \<Rightarrow> bool
     \<Rightarrow> (nat option \<Rightarrow> 'c program \<times> 'c program flagsets \<Rightarrow> unit go \<times> 'c program \<times> 'c program flagsets)
     \<Rightarrow> string list \<Rightarrow> 'c program \<Rightarrow> 'c program init_result" where
  "init_flags env addUnsafeFlags config_register_flags args p =
     (let (q, p1, sets) =
            go_then (legal_register_flag (ce_notices env) None (p, \<lambda>r. [])) (\<lambda>u st1.
            go_then (options_register_flags (ce_parseDuration env) None addUnsafeFlags st1) (\<lambda>u st2.
            config_register_flags None st2));
          (parsed, p2) = parse_flags (sets CommandLine) args p1
      in case parsed of
           ParsePanicked m \<Rightarrow> InitPanic m
         | ParseExited code out \<Rightarrow> InitExit code out
         | Parsed rest \<Rightarrow> (case q of Panic m \<Rightarrow> InitPanic m | _ \<Rightarrow> Started p2))"

text \<open>
  \<open>main\<close>: the program exits (with what it has printed), panics, or calls \<open>ListenAndServe\<close>, of
  which it logs the error and exits.
\<close>

datatype ('v, 'h) run_result =
    RunExits int string world | RunPanics string world | RunServes "('v, 'h) ssh_server" world

definition run_server ::
  "cmd_env \<Rightarrow> options \<Rightarrow> ('v, 'h) configuration \<Rightarrow> world \<Rightarrow> ('v, 'h) run_result" where
  "run_server env opts config w =
     (case new_server (ce_platform env) opts [Some config] w of
        (Ok server, w1) \<Rightarrow> RunServes server (log_line (''Listening on '' @ ListenAddress opts) w1)
      | (Err e, w1) \<Rightarrow> RunExits 1 [] (log_line (''Failed to initialize server: '' @ ce_err_text env e) w1)
      | (Panic m, w1) \<Rightarrow> RunPanics m w1)"

definition serve_ended :: "cmd_env \<Rightarrow> go_error \<Rightarrow> world \<Rightarrow> ('v, 'h) run_result" where
  "serve_ended env e w = RunExits 1 [] (log_line (ce_err_text env e) w)"

text \<open>Durations are nanoseconds.\<close>

definition time_Hour :: int where
  "time_Hour = 3600000000000"

section \<open>dockersshd\<close>

definition docker_options :: options where
  "docker_options =
     \<lparr>ListenAddress = '':2222'', HostKeyPath = ''hostkey.pem'', HostKeyAlgorithms = None,
      DisableAuthentication = False, ForwardAddresses = None, ReverseAddresses = None,
      opt_IdleTimeout = time_Hour\<rparr>"

definition docker_config :: "'d container_exec_config" where
  "docker_config =
     \<lparr>Client = None, DockerLabelUser = ''de.tkw1536.proxyssh.user'',
      DockerLabelAuthFile = ''de.tkw1536.proxyssh.authfile'', DockerLabelKey = [],
      ContainerShell = ''/bin/sh''\<rparr>"

type_synonym 'd docker_session_handler =
  "string list \<Rightarrow> 'd \<Rightarrow> ctx_value ssh_ctx \<Rightarrow> (string \<times> string list) go \<times> ctx_value ssh_ctx"

text \<open>\<open>newEnvClient\<close> is the client that the environment describes, with the negotiated version.\<close>

definition dockersshd ::
  "cmd_env \<Rightarrow> auth_lib \<Rightarrow> 'd docker go \<Rightarrow> 'd \<Rightarrow> string list \<Rightarrow> world
     \<Rightarrow> (ctx_value, 'd docker_session_handler) run_result" where
  "dockersshd env lib newEnvClient d args w =
     (case init_flags env True docker_register_flags args \<lparr>pg_options = docker_options, pg_config = docker_config\<rparr> of
        InitPanic m \<Rightarrow> RunPanics m w
      | InitExit code out \<Rightarrow> RunExits code out w
      | Started p \<Rightarrow>
          (case newEnvClient of
             Err e \<Rightarrow> RunPanics (ce_err_text env e) w
           | Panic m \<Rightarrow> RunPanics m w
           | Ok client \<Rightarrow>
               (let config = (pg_config p)\<lparr>Client := Some client\<rparr>
                in run_server env (pg_options p)
                     \<lparr>cfg_apply = docker_apply lib config d, cfg_handler = Some (docker_handle config)\<rparr> w)))"

section \<open>exposshed\<close>

definition expose_options :: options where
  "expose_options =
     \<lparr>ListenAddress = '':2222'', HostKeyPath = ''hostkey.pem'', HostKeyAlgorithms = None,
      DisableAuthentication = True, ForwardAddresses = None, ReverseAddresses = None,
      opt_IdleTimeout = 12 * time_Hour\<rparr>"

definition expose_config :: repl_config where
  "expose_config = \<lparr>rc_welcome = [], rc_prompt = [], rc_loop = None\<rparr>"

definition exposshed :: "cmd_env \<Rightarrow> string list \<Rightarrow> world \<Rightarrow> ('v, string list \<Rightarrow> 'm repl go) run_result" where
  "exposshed env args w =
     (case init_flags env False repl_register_flags args \<lparr>pg_options = expose_options, pg_config = expose_config\<rparr> of
        InitPanic m \<Rightarrow> RunPanics m w
      | InitExit code out \<Rightarrow> RunExits code out w
      | Started p \<Rightarrow>
          run_server env (pg_options p)
            \<lparr>cfg_apply = repl_apply (pg_config p), cfg_handler = Some (\<lambda>userCommand. repl_handle (pg_config p))\<rparr> w)"

section \<open>simplesshd\<close>

definition simple_options :: options where
  "simple_options =
     \<lparr>ListenAddress = '':2222'', HostKeyPath = ''hostkey.pem'', HostKeyAlgorithms = None,
      DisableAuthentication = False, ForwardAddresses = None, ReverseAddresses = None,
      opt_IdleTimeout = time_Hour\<rparr>"

definition simple_config :: system_exec_config where
  "simple_config = \<lparr>Shell = ''/bin/bash''\<rparr>"

definition simplesshd :: "cmd_env \<Rightarrow> string list \<Rightarrow> world \<Rightarrow> ('v, string list \<Rightarrow> 'm system_process go) run_result" where
  "simplesshd env args w =
     (case init_flags env False system_register_flags args \<lparr>pg_options = simple_options, pg_config = simple_config\<rparr> of
        InitPanic m \<Rightarrow> RunPanics m w
      | InitExit code out \<Rightarrow> RunExits code out w
      | Started p \<Rightarrow>
          run_server env (pg_options p)
            \<lparr>cfg_apply = system_apply (pg_config p), cfg_handler = Some (system_handle (pg_config p))\<rparr> w)"

section \<open>Lemmas\<close>

text \<open>The flags of each program, in the order of registration.\<close>

definition docker_flags :: "cmd_env \<Rightarrow> 'd container_exec_config program flag list" where
  "docker_flags env =
     [legal_flag (ce_notices env)] @ options_flags (ce_parseDuration env) True @
     [userlabel_flag, keylabel_flag, container_shell_flag]"

definition expose_flags :: "cmd_env \<Rightarrow> repl_config program flag list" where
  "expose_flags env = [legal_flag (ce_notices env)] @ options_flags (ce_parseDuration env) False"

definition simple_flags :: "cmd_env \<Rightarrow> system_exec_config program flag list" where
  "simple_flags env =
     [legal_flag (ce_notices env)] @ options_flags (ce_parseDuration env) False @ [shell_flag]"

lemma config_flag_names [simp]:
  "fl_name userlabel_flag = ''userlabel''" "fl_name keylabel_flag = ''keylabel''"
  "fl_name container_shell_flag = ''shell''" "fl_name shell_flag = ''shell''"
  by (simp_all add: userlabel_flag_def keylabel_flag_def container_shell_flag_def shell_flag_def string_flag_def)

definition parse_result :: "parsed \<times> 'p \<Rightarrow> 'p init_result" where
  "parse_result r =
     (case r of
        (ParsePanicked m, p) \<Rightarrow> InitPanic m
      | (ParseExited code out, p) \<Rightarrow> InitExit code out
      | (Parsed rest, p) \<Rightarrow> Started p)"

text \<open>No registration panics, and the command line has the flags.\<close>

lemma init_docker:
  "init_flags env True docker_register_flags args p = parse_result (parse_flags (docker_flags env) args (put_options with_lists p))"
  by (simp add: init_flags_def legal_register_flag_def register_Ok options_register_Ok docker_register_flags_def
      flagset_or_default_def CommandLine_def options_flags_def docker_flags_def parse_result_def split_beta
      split: parsed.splits)

lemma init_expose:
  "init_flags env False repl_register_flags args p = parse_result (parse_flags (expose_flags env) args (put_options with_lists p))"
  by (simp add: init_flags_def legal_register_flag_def register_Ok options_register_Ok repl_register_flags_def
      flagset_or_default_def CommandLine_def options_flags_def expose_flags_def parse_result_def split_beta
      split: parsed.splits)

lemma init_simple:
  "init_flags env False system_register_flags args p = parse_result (parse_flags (simple_flags env) args (put_options with_lists p))"
  by (simp add: init_flags_def legal_register_flag_def register_Ok options_register_Ok system_register_flags_def
      flagset_or_default_def CommandLine_def options_flags_def simple_flags_def parse_result_def split_beta
      split: parsed.splits)

lemma run_server_Serves:
  assumes "run_server env opts config w = RunServes server w'"
  obtains server1 w1 w2 where "apply_configuration (Some config) empty_server w = (Ok (), server1, w1)"
    and "options_apply (ce_platform env) opts server1 w1 = (Ok (), server, w2)"
proof -
  from assms obtain w2 where "new_server (ce_platform env) opts [Some config] w = (Ok server, w2)"
    by (auto simp: run_server_def split: prod.splits go.splits)
  then show ?thesis
  proof (rule new_server_Ok)
    fix server1 w1
    assume "apply_configurations [Some config] empty_server w = (Ok (), server1, w1)"
      and "options_apply (ce_platform env) opts server1 w1 = (Ok (), server, w2)"
    then show ?thesis by (intro that) (auto simp: go_then_Ok_iff)
  qed
qed

text \<open>A configuration with a handler, on a new server.\<close>

lemma served_handlers:
  assumes "run_server env opts \<lparr>cfg_apply = f, cfg_handler = Some h\<rparr> w = RunServes server w'"
    and "\<And>s. fst (f s w) = Ok () \<Longrightarrow> SessionHandler (fst (snd (f s w))) = SessionHandler s"
  shows "SessionHandler server = Some h"
    and "PublicKeyHandler server =
      (if DisableAuthentication opts then None else PublicKeyHandler (fst (snd (f empty_server w))))"
    and "Addr server = ListenAddress opts"
    and "LocalPortForwardingCallback server = Some (fst (allow_forward_to (slice (ForwardAddresses opts)) []))"
    and "ReversePortForwardingCallback server = Some (fst (allow_forward_from (slice (ReverseAddresses opts)) []))"
proof -
  obtain server1 w1 w2 where
    one: "apply_configuration (Some \<lparr>cfg_apply = f, cfg_handler = Some h\<rparr>) empty_server w = (Ok (), server1, w1)"
    and opts: "options_apply (ce_platform env) opts server1 w1 = (Ok (), server, w2)"
    using assms(1) by (rule run_server_Serves)
  from one obtain server0 where f: "f empty_server w = (Ok (), server0, w1)"
    and server1: "server1 = server0\<lparr>SessionHandler := Some h\<rparr>"
    by (auto simp: apply_configuration_def go_then_Ok_iff apply_handler_def split: if_splits)
  from options_apply_frame [OF opts] server1 f
  show "SessionHandler server = Some h"
    "PublicKeyHandler server =
      (if DisableAuthentication opts then None else PublicKeyHandler (fst (snd (f empty_server w))))"
    "Addr server = ListenAddress opts"
    "LocalPortForwardingCallback server = Some (fst (allow_forward_to (slice (ForwardAddresses opts)) []))"
    "ReversePortForwardingCallback server = Some (fst (allow_forward_from (slice (ReverseAddresses opts)) []))"
    by simp_all
qed

text \<open>Without the flag \<open>unsafe\<close> no argument turns authentication off.\<close>

lemmas flag_defs = port_flag_def timeout_flag_def L_flag_def R_flag_def hostkey_flag_def unsafe_flag_def
  legal_flag_def userlabel_flag_def keylabel_flag_def container_shell_flag_def shell_flag_def
  string_flag_def bool_flag_def duration_flag_def address_flag_def legal_set_def
  put_options_def put_config_def put_ForwardAddresses_def put_ReverseAddresses_def

interpretation docker_safe: flags_keep "docker_flags env" "\<lambda>n. n \<noteq> ''unsafe''"
    "\<lambda>p. \<not> DisableAuthentication (pg_options p)" for env
  by unfold_locales
    (auto simp: docker_flags_def options_flags_def flag_defs split: go.splits)

interpretation expose_repl: flags_keep "expose_flags env" "\<lambda>n. True" "\<lambda>p. pg_config p = expose_config" for env
  by unfold_locales
    (auto simp: expose_flags_def options_flags_def flag_defs split: go.splits)

text \<open>Whatever the arguments, exposshed gives its sessions the loop that has no shell.\<close>

lemma exposshed_no_shell:
  assumes "exposshed env args w = RunServes server w'"
  shows "SessionHandler server = Some (\<lambda>userCommand. repl_handle expose_config)"
proof -
  let ?p = "put_options with_lists \<lparr>pg_options = expose_options, pg_config = expose_config\<rparr>"
  from assms obtain p where
    started: "parse_result (parse_flags (expose_flags env) args ?p) = Started p"
    and run: "run_server env (pg_options p) \<lparr>cfg_apply = repl_apply (pg_config p),
      cfg_handler = Some (\<lambda>userCommand. repl_handle (pg_config p))\<rparr> w = RunServes server w'"
    by (auto simp: exposshed_def init_expose split: init_result.splits)
  from started obtain rest where "parse_flags (expose_flags env) args ?p = (Parsed rest, p)"
    by (auto simp: parse_result_def split: prod.splits parsed.splits)
  from expose_repl.parse_flags_keeps [OF this] have "pg_config p = expose_config" by simp
  with served_handlers(1) [OF run] show ?thesis by (simp add: repl_apply_def)
qed

lemma expose_args:
  assumes "list_all (\<lambda>a. bracket_free (Hostname a)) (ls @ rs)"
  shows "parse_flags (expose_flags env) (options_args port ls rs key) (put_options with_lists p) =
    (Parsed [], put_options (with_args port ls rs key) p)"
proof -
  have "set_names [legal_flag (ce_notices env)] \<inter>
      set_names (options_flags (ce_parseDuration env) True :: repl_config program flag list) = {}"
    by (simp add: options_flags_def)
  from parse_options_args [OF this assms, of False "[]"] show ?thesis by (simp add: expose_flags_def)
qed

lemma docker_started:
  assumes "dockersshd env lib newEnvClient d args w = RunServes server w'"
    and "\<forall>a \<in> set args. arg_name a \<noteq> ''unsafe''"
  obtains client config where "newEnvClient = Ok client" and "Client config = Some client"
    and "SessionHandler server = Some (docker_handle config)"
    and "PublicKeyHandler server = Some (docker_key_handler lib config d)"
proof -
  let ?p = "put_options with_lists \<lparr>pg_options = docker_options, pg_config = docker_config\<rparr>"
  from assms(1) obtain p client where
    started: "parse_result (parse_flags (docker_flags env) args ?p) = Started p"
    and client: "newEnvClient = Ok client"
    and run: "run_server env (pg_options p)
      \<lparr>cfg_apply = docker_apply lib ((pg_config p)\<lparr>Client := Some client\<rparr>) d,
       cfg_handler = Some (docker_handle ((pg_config p)\<lparr>Client := Some client\<rparr>))\<rparr> w = RunServes server w'"
    by (auto simp: dockersshd_def init_docker Let_def split: init_result.splits go.splits)
  from started obtain rest where "parse_flags (docker_flags env) args ?p = (Parsed rest, p)"
    by (auto simp: parse_result_def split: prod.splits parsed.splits)
  from docker_safe.parse_flags_keeps [OF this] assms(2) have "\<not> DisableAuthentication (pg_options p)"
    by (simp add: put_options_def with_lists_def docker_options_def)
  with served_handlers [OF run] client show ?thesis
    by (intro that [of client "(pg_config p)\<lparr>Client := Some client\<rparr>"]) (simp_all add: docker_apply_def)
qed

lemma parse_first_flag:
  "plain_name n \<Longrightarrow> lookup_flag fs n = Some f \<Longrightarrow> fl_bool f \<Longrightarrow> fl_set f ''true'' s = (SetExit c out, s') \<Longrightarrow>
     parse_flags fs ((CHR ''-'' # n) # args) s = (ParseExited c out, s')"
  using arg_parts [of n] by (subst parse_flags.simps) (simp add: parse_one_def set_flag_def)

lemma parse_unknown_flag:
  "plain_name n \<Longrightarrow> lookup_flag fs n = None \<Longrightarrow> n \<noteq> ''help'' \<Longrightarrow> n \<noteq> ''h'' \<Longrightarrow>
     parse_flags fs ((CHR ''-'' # n) # args) s = (ParseExited 2 [], s)"
  using arg_parts [of n] by (subst parse_flags.simps) (simp add: parse_one_def)

lemma more_plain_names [simp]: "plain_name ''legal''" "plain_name ''unsafe''"
  by (simp_all add: plain_name_def)

lemma legal_exits: "fl_bool (legal_flag notices)" "fl_set (legal_flag notices) ''true'' s = (print_and_exit notices, s)"
  by (simp_all add: legal_flag_def legal_set_def parse_bool_def)

definition legal_text :: "cmd_env \<Rightarrow> string" where
  "legal_text env =
     ''This executable contains code from several different go packages. '' @ [nl] @
     ''Some of these packages require licensing information to be made available to the end user. '' @ [nl] @
     ce_notices env @ [nl]"

lemma legal_first:
  "parse_flags (legal_flag notices # fs) (''-legal'' # args) s =
     (ParseExited 0 (''This executable contains code from several different go packages. '' @ [nl] @
        ''Some of these packages require licensing information to be made available to the end user. '' @ [nl] @
        notices @ [nl]), s)"
  by (rule parse_first_flag [where f = "legal_flag notices"])
    (simp_all add: legal_exits print_and_exit_def [symmetric], simp add: print_and_exit_def)

section \<open>Properties\<close>

text \<open>
  C38.  Two arguments end a program before it has opened anything: \<open>-legal\<close> prints the notices
  and exits with 0, whatever follows it, in all three programs; \<open>-unsafe\<close> is a flag of
  dockersshd only, and the two others exit with 2.
\<close>

theorem command_line_exits:
  "let legal = ''This executable contains code from several different go packages. '' @ [nl] @
         ''Some of these packages require licensing information to be made available to the end user. '' @ [nl] @
         ce_notices env @ [nl]
   in dockersshd env lib newEnvClient d (''-legal'' # args) w = RunExits 0 legal w \<and>
      exposshed env (''-legal'' # args) w = RunExits 0 legal w \<and>
      simplesshd env (''-legal'' # args) w = RunExits 0 legal w \<and>
      exposshed env (''-unsafe'' # args) w = RunExits 2 [] w \<and>
      simplesshd env (''-unsafe'' # args) w = RunExits 2 [] w"
proof -
  have unsafe: "parse_flags (expose_flags env) (''-unsafe'' # args) p = (ParseExited 2 [], p)"
    "parse_flags (simple_flags env) (''-unsafe'' # args) q = (ParseExited 2 [], q)" for p q
    by (rule parse_unknown_flag; simp add: expose_flags_def simple_flags_def options_flags_def)+
  note legal = legal_first [of "ce_notices env"]
  have "parse_flags (docker_flags env) (''-legal'' # args) (p :: 'a container_exec_config program) = (ParseExited 0 (legal_text env), p)"
    "parse_flags (expose_flags env) (''-legal'' # args) q = (ParseExited 0 (legal_text env), q)"
    "parse_flags (simple_flags env) (''-legal'' # args) r = (ParseExited 0 (legal_text env), r)" for p q r
    by (simp_all add: docker_flags_def expose_flags_def simple_flags_def legal_text_def legal)
  with unsafe show ?thesis
    unfolding legal_text_def [symmetric] Let_def
    by (simp add: dockersshd_def exposshed_def simplesshd_def init_docker init_expose init_simple parse_result_def)
qed

text \<open>
  \<open>RegisterFlags\<close> of the system configuration ignores the flag set it is given: it
  always registers the flag \<open>shell\<close> with the command line, so that the given flag set stays
  as it was, and doing the same for a second configuration panics, although its flag set is
  another one.
\<close>

theorem system_flags_ignore_flagset:
  "system_register_flags (Some r) (p, \<lambda>r. []) = (Ok (), p, (\<lambda>r. [])(CommandLine := [shell_flag])) \<and>
   go_then (system_register_flags (Some r) (p, \<lambda>r. [])) (\<lambda>u (p', sets). system_register_flags (Some r') (q, sets)) =
     (Panic ''flag redefined'', q, (\<lambda>r. [])(CommandLine := [shell_flag]))"
  by (simp add: system_register_flags_def register_Ok) (simp add: register_def flag_var_def)

end
