(* ===== verification/LeakStats.thy ===== *)
theory LeakStats
  imports Logging
begin

text \<open>
  The global half of \<open>logging/detector.go\<close>: the goroutine that \<open>Finish\<close> starts for
  every detector, the success and failure counters it reports to, and the functions that
  read and reset them while they hold the lock of the work group of ongoing
  \<open>Finish\<close> calls.

  A state holds any number of detectors, indexed by \<open>nat\<close>.  Each step is one atomic action:
  of the work group (a \<open>wg_step\<close>), of a detector (an \<open>Add\<close> or \<open>Done\<close> that does not
  panic), of a \<open>Finish\<close> goroutine, or of the goroutine inside a statistics function.
\<close>

record leak_stats =
  st_success :: "64 word"
  st_failure :: "64 word"

definition detector_unfire :: "peer \<Rightarrow> leak_stats \<Rightarrow> log \<Rightarrow> leak_stats \<times> log" where
  "detector_unfire s st lg =
     (st\<lparr>st_success := st_success st + 1\<rparr>, fmt_ssh_log s ''leak_ok'' [] lg)"

definition detector_fire :: "peer \<Rightarrow> leakdet \<Rightarrow> leak_stats \<Rightarrow> log \<Rightarrow> leak_stats \<times> log" where
  "detector_fire s d st lg =
     (st\<lparr>st_failure := st_failure st + 1\<rparr>,
      fmt_ssh_log s ''leak_fail'' [] lg @
        map (\<lambda>(k, v). sprintf ''Leak Detector: %s (%q)'' [FStr v, FStr k]) (ld_m d))"

text \<open>
  The points of a \<open>Finish\<close> call: inside \<open>workers.Add(1)\<close>, then the goroutine's
  \<open>select\<close> (its flags say whether \<open>waiter\<close> is closed and whether the timer has fired),
  then the deferred \<open>workers.Done()\<close>.  The points of the statistics functions: \<open>Lock\<close>,
  \<open>Wait\<close>, the two loads or the two stores, \<open>Unlock\<close>.
\<close>

datatype fin_pc =
    FinIdle | FinAdding | FinCounted
  | FinSelect (fin_waiter: bool) (fin_timer: bool)
  | FinReported | FinEnded

datatype stats_pc =
    StatsIdle | StatsLocking | StatsLocked | StatsWaited
  | StatsGot1 "64 word" | StatsGot "64 word" "64 word"
  | StatsReset1 | StatsReset

record leak_sys =
  ls_group :: workgroup
  ls_stats :: leak_stats
  ls_log :: log
  ls_det :: "nat \<Rightarrow> leakdet"
  ls_peer :: "nat \<Rightarrow> peer"
  ls_fin :: "nat \<Rightarrow> fin_pc"
  ls_client :: stats_pc
  ls_base :: "nat set"

text \<open>\<open>ls_base\<close> is no state of the program: it records which reports were reset.\<close>

definition init_leak_sys :: "(nat \<Rightarrow> peer) \<Rightarrow> leak_sys" where
  "init_leak_sys ps =
     \<lparr>ls_group = zero_workgroup, ls_stats = \<lparr>st_success = 0, st_failure = 0\<rparr>, ls_log = [],
      ls_det = (\<lambda>_. new_detector), ls_peer = ps, ls_fin = (\<lambda>_. FinIdle),
      ls_client = StatsIdle, ls_base = {}\<rparr>"

datatype leak_label = LDet nat det_op | LFinish nat | LReport nat bool | LStats

definition reported :: "leak_sys \<Rightarrow> nat set" where
  "reported s = {i. ls_fin s i = FinReported \<or> ls_fin s i = FinEnded}"

definition set_fin :: "nat \<Rightarrow> fin_pc \<Rightarrow> leak_sys \<Rightarrow> leak_sys" where
  "set_fin i p s = s\<lparr>ls_fin := (ls_fin s)(i := p)\<rparr>"

inductive leak_step :: "leak_sys \<Rightarrow> leak_label \<Rightarrow> leak_sys \<Rightarrow> bool" where
  det_call: "det_apply x (ls_det s i) = (Ok (), d) \<Longrightarrow>
     leak_step s (LDet i x) (s\<lparr>ls_det := (ls_det s)(i := d)\<rparr>)"
| finish_rlock: "ls_fin s i = FinIdle \<Longrightarrow> wg_step (ls_group s) (AddRLock i 1) g \<Longrightarrow>
     leak_step s (LFinish i) (set_fin i FinAdding (s\<lparr>ls_group := g\<rparr>))"
| finish_count: "ls_fin s i = FinAdding \<Longrightarrow> wg_step (ls_group s) (AddCount i) g \<Longrightarrow>
     leak_step s (LFinish i) (set_fin i FinCounted (s\<lparr>ls_group := g\<rparr>))"
| finish_runlock: "ls_fin s i = FinCounted \<Longrightarrow> wg_step (ls_group s) (AddRUnlock i) g \<Longrightarrow>
     leak_step s (LFinish i) (set_fin i (FinSelect False False) (s\<lparr>ls_group := g\<rparr>))"
| waiter_closed: "ls_fin s i = FinSelect w t \<Longrightarrow> ld_wg (ls_det s i) = 0 \<Longrightarrow>
     leak_step s (LFinish i) (set_fin i (FinSelect True t) s)"
| timer_fired: "ls_fin s i = FinSelect w t \<Longrightarrow>
     leak_step s (LFinish i) (set_fin i (FinSelect w True) s)"
| select_waiter: "ls_fin s i = FinSelect True t \<Longrightarrow>
     detector_unfire (ls_peer s i) (ls_stats s) (ls_log s) = (st, lg) \<Longrightarrow>
     leak_step s (LReport i True) (set_fin i FinReported (s\<lparr>ls_stats := st, ls_log := lg\<rparr>))"
| select_timer: "ls_fin s i = FinSelect w True \<Longrightarrow>
     detector_fire (ls_peer s i) (ls_det s i) (ls_stats s) (ls_log s) = (st, lg) \<Longrightarrow>
     leak_step s (LReport i False) (set_fin i FinReported (s\<lparr>ls_stats := st, ls_log := lg\<rparr>))"
| finish_done: "ls_fin s i = FinReported \<Longrightarrow> wg_step (ls_group s) WgDone g \<Longrightarrow>
     leak_step s (LFinish i) (set_fin i FinEnded (s\<lparr>ls_group := g\<rparr>))"
| stats_announce: "ls_client s = StatsIdle \<Longrightarrow> wg_step (ls_group s) LockAnnounce g \<Longrightarrow>
     leak_step s LStats (s\<lparr>ls_group := g, ls_client := StatsLocking\<rparr>)"
| stats_acquire: "ls_client s = StatsLocking \<Longrightarrow> wg_step (ls_group s) LockAcquire g \<Longrightarrow>
     leak_step s LStats (s\<lparr>ls_group := g, ls_client := StatsLocked\<rparr>)"
| stats_wait: "ls_client s = StatsLocked \<Longrightarrow> wg_step (ls_group s) WaitReturns g \<Longrightarrow>
     leak_step s LStats (s\<lparr>ls_group := g, ls_client := StatsWaited\<rparr>)"
| get_success: "ls_client s = StatsWaited \<Longrightarrow>
     leak_step s LStats (s\<lparr>ls_client := StatsGot1 (st_success (ls_stats s))\<rparr>)"
| get_failure: "ls_client s = StatsGot1 a \<Longrightarrow>
     leak_step s LStats (s\<lparr>ls_client := StatsGot a (st_failure (ls_stats s))\<rparr>)"
| get_unlock: "ls_client s = StatsGot a b \<Longrightarrow> wg_step (ls_group s) Unlock g \<Longrightarrow>
     leak_step s LStats (s\<lparr>ls_group := g, ls_client := StatsIdle\<rparr>)"
| reset_success: "ls_client s = StatsWaited \<Longrightarrow>
     leak_step s LStats (s\<lparr>ls_stats := (ls_stats s)\<lparr>st_success := 0\<rparr>, ls_client := StatsReset1\<rparr>)"
| reset_failure: "ls_client s = StatsReset1 \<Longrightarrow>
     leak_step s LStats
       (s\<lparr>ls_stats := (ls_stats s)\<lparr>st_failure := 0\<rparr>, ls_client := StatsReset, ls_base := reported s\<rparr>)"
| reset_unlock: "ls_client s = StatsReset \<Longrightarrow> wg_step (ls_group s) Unlock g \<Longrightarrow>
     leak_step s LStats (s\<lparr>ls_group := g, ls_client := StatsIdle\<rparr>)"

section \<open>The invariant\<close>

fun fin_active :: "fin_pc \<Rightarrow> bool" where
  "fin_active FinIdle = False"
| "fin_active FinAdding = False"
| "fin_active FinCounted = True"
| "fin_active (FinSelect w t) = True"
| "fin_active FinReported = True"
| "fin_active FinEnded = False"

fun adder_of :: "fin_pc \<Rightarrow> add_pc" where
  "adder_of FinAdding = AddLocked 1"
| "adder_of FinCounted = AddCounted"
| "adder_of p = AddIdle"

fun writer_of :: "stats_pc \<Rightarrow> writer" where
  "writer_of StatsIdle = NoWriter"
| "writer_of StatsLocking = Announced"
| "writer_of p = Held"

fun has_waited :: "stats_pc \<Rightarrow> bool" where
  "has_waited StatsIdle = False"
| "has_waited StatsLocking = False"
| "has_waited StatsLocked = False"
| "has_waited p = True"

definition active :: "leak_sys \<Rightarrow> nat set" where
  "active s = {i. fin_active (ls_fin s i)}"

definition started :: "leak_sys \<Rightarrow> nat set" where
  "started s = {i. ls_fin s i \<noteq> FinIdle}"

text \<open>
  The group is used by the \<open>Finish\<close> calls and the statistics functions only; its counter
  is the number of calls between their \<open>Add\<close> and their \<open>Done\<close>, and it is zero once a
  statistics function has waited.
\<close>

definition group_inv :: "leak_sys \<Rightarrow> bool" where
  "group_inv s \<longleftrightarrow>
     wg_inv (ls_group s) \<and> (\<forall>i. wg_adders (ls_group s) i = adder_of (ls_fin s i)) \<and>
     wg_writer (ls_group s) = writer_of (ls_client s) \<and>
     finite (started s) \<and> wg_count (ls_group s) = int (card (active s)) \<and>
     (has_waited (ls_client s) \<longrightarrow> active s = {})"

text \<open>The counters add up to the reports since the last reset, except inside a reset.\<close>

definition stats_inv :: "leak_sys \<Rightarrow> bool" where
  "stats_inv s \<longleftrightarrow>
     ls_base s \<subseteq> reported s \<and>
     (case ls_client s of
        StatsReset1 \<Rightarrow> st_success (ls_stats s) = 0
      | _ \<Rightarrow> st_success (ls_stats s) + st_failure (ls_stats s) = of_nat (card (reported s - ls_base s))) \<and>
     (case ls_client s of
        StatsGot1 a \<Rightarrow> a = st_success (ls_stats s)
      | StatsGot a b \<Rightarrow> a = st_success (ls_stats s) \<and> b = st_failure (ls_stats s)
      | _ \<Rightarrow> True)"

definition leak_inv :: "leak_sys \<Rightarrow> bool" where
  "leak_inv s \<longleftrightarrow> group_inv s \<and> stats_inv s"

lemma active_set_fin [simp]:
  "active (set_fin i p s) = (if fin_active p then insert i (active s) else active s - {i})"
  by (auto simp: active_def set_fin_def)

lemma reported_set_fin [simp]:
  "reported (set_fin i p s) =
     (if p = FinReported \<or> p = FinEnded then insert i (reported s) else reported s - {i})"
  by (auto simp: reported_def set_fin_def)

lemma started_set_fin [simp]:
  "started (set_fin i p s) = (if p = FinIdle then started s - {i} else insert i (started s))"
  by (auto simp: started_def set_fin_def)

lemma active_frame [simp]:
  "active (s\<lparr>ls_group := g\<rparr>) = active s" "active (s\<lparr>ls_client := c\<rparr>) = active s"
  "active (s\<lparr>ls_stats := st\<rparr>) = active s" "active (s\<lparr>ls_log := lg\<rparr>) = active s"
  "active (s\<lparr>ls_det := d\<rparr>) = active s" "active (s\<lparr>ls_base := b\<rparr>) = active s"
  by (simp_all add: active_def)

lemma reported_frame [simp]:
  "reported (s\<lparr>ls_group := g\<rparr>) = reported s" "reported (s\<lparr>ls_client := c\<rparr>) = reported s"
  "reported (s\<lparr>ls_stats := st\<rparr>) = reported s" "reported (s\<lparr>ls_log := lg\<rparr>) = reported s"
  "reported (s\<lparr>ls_det := d\<rparr>) = reported s" "reported (s\<lparr>ls_base := b\<rparr>) = reported s"
  by (simp_all add: reported_def)

lemma started_frame [simp]:
  "started (s\<lparr>ls_group := g\<rparr>) = started s" "started (s\<lparr>ls_client := c\<rparr>) = started s"
  "started (s\<lparr>ls_stats := st\<rparr>) = started s" "started (s\<lparr>ls_log := lg\<rparr>) = started s"
  "started (s\<lparr>ls_det := d\<rparr>) = started s" "started (s\<lparr>ls_base := b\<rparr>) = started s"
  by (simp_all add: started_def)

lemma set_fin_fields [simp]:
  "ls_group (set_fin i p s) = ls_group s" "ls_stats (set_fin i p s) = ls_stats s"
  "ls_client (set_fin i p s) = ls_client s" "ls_base (set_fin i p s) = ls_base s"
  "ls_det (set_fin i p s) = ls_det s" "ls_fin (set_fin i p s) = (ls_fin s)(i := p)"
  by (simp_all add: set_fin_def)

lemma waitgroup_add_fields [simp]:
  "wg_writer (waitgroup_add n g) = wg_writer g" "wg_adders (waitgroup_add n g) = wg_adders g"
  "wg_count (waitgroup_add n g) = wg_count g + n"
  by (simp_all add: waitgroup_add_def)

lemma group_inv_finite:
  assumes "group_inv s"
  shows "finite (active s)" "finite (reported s)"
proof -
  from assms have fin: "finite (started s)" by (simp add: group_inv_def)
  show "finite (active s)"
    by (rule finite_subset [OF _ fin]) (auto simp: active_def started_def)
  show "finite (reported s)"
    by (rule finite_subset [OF _ fin]) (auto simp: reported_def started_def)
qed

lemma group_inv_not_adding:
  assumes "group_inv s" and "has_waited (ls_client s)"
  shows "ls_fin s i = FinIdle \<or> ls_fin s i = FinEnded"
proof -
  from assms have "wg_writer (ls_group s) = Held"
    by (cases "ls_client s") (auto simp: group_inv_def)
  with assms(1) have "adder_of (ls_fin s i) = AddIdle"
    by (auto simp: group_inv_def wg_inv_def)
  moreover from assms have "\<not> fin_active (ls_fin s i)"
    by (auto simp: group_inv_def active_def)
  ultimately show ?thesis by (cases "ls_fin s i") auto
qed

lemma group_inv_wg:
  "group_inv s \<Longrightarrow> wg_step (ls_group s) l g \<Longrightarrow> wg_inv g"
  by (auto simp: group_inv_def intro: wg_step_inv)

text \<open>A step of a \<open>Finish\<close> goroutine that leaves it active changes no count.\<close>

lemma group_inv_active:
  assumes "group_inv s" and "i \<in> active s" and "fin_active p"
    and "adder_of p = adder_of (ls_fin s i)"
  shows "group_inv (set_fin i p s)"
  using assms by (auto simp: group_inv_def insert_absorb)

lemma group_inv_frame:
  "group_inv (s\<lparr>ls_stats := st\<rparr>) = group_inv s" "group_inv (s\<lparr>ls_log := lg\<rparr>) = group_inv s"
  "group_inv (s\<lparr>ls_det := d\<rparr>) = group_inv s" "group_inv (s\<lparr>ls_base := b\<rparr>) = group_inv s"
  by (simp_all add: group_inv_def)

lemma group_inv_step [go_inv]:
  assumes "leak_step s l s'" and "group_inv s"
  shows "group_inv s'"
  using assms
proof (induction rule: leak_step.induct)
  case (finish_rlock s i g)
  moreover have "i \<notin> active s" using finish_rlock by (simp add: active_def)
  ultimately show ?case
    using wg_step_effect [OF finish_rlock(2)] group_inv_wg [OF finish_rlock(3,2)]
    by (auto simp: group_inv_def)
next
  case (finish_count s i g)
  moreover have "i \<notin> active s" using finish_count by (simp add: active_def)
  moreover have "\<not> has_waited (ls_client s)"
    using finish_count group_inv_not_adding [of s i] by auto
  moreover have "wg_adders (ls_group s) i = AddLocked 1"
    using finish_count by (simp add: group_inv_def)
  ultimately show ?case
    using wg_step_effect [OF finish_count(2)] group_inv_wg [OF finish_count(3,2)]
      group_inv_finite(1) [OF finish_count(3)]
    by (auto simp: group_inv_def)
next
  case (finish_runlock s i g)
  moreover have "i \<in> active s" using finish_runlock by (simp add: active_def)
  ultimately show ?case
    using wg_step_effect [OF finish_runlock(2)] group_inv_wg [OF finish_runlock(3,2)]
    by (auto simp: group_inv_def insert_absorb)
next
  case (finish_done s i g)
  moreover have act: "i \<in> active s" using finish_done by (simp add: active_def)
  moreover have "int (card (active s - {i})) = int (card (active s)) - 1"
    using act group_inv_finite(1) [OF finish_done(3)] card_Suc_Diff1 [of "active s" i] by linarith
  ultimately show ?case
    using wg_step_effect [OF finish_done(2)] group_inv_wg [OF finish_done(3,2)]
    by (auto simp: group_inv_def)
next
  case (stats_wait s g)
  then have "card (active s) = 0" using wg_step_effect [OF stats_wait(2)] by (auto simp: group_inv_def)
  then have "active s = {}" using group_inv_finite(1) [of s] stats_wait by simp
  then show ?case
    using stats_wait wg_step_effect [OF stats_wait(2)] group_inv_wg [OF stats_wait(3,2)]
    by (auto simp: group_inv_def)
next
  case (stats_announce s g)
  then show ?case
    using wg_step_effect [OF stats_announce(2)] group_inv_wg [OF stats_announce(3,2)]
    by (auto simp: group_inv_def)
next
  case (stats_acquire s g)
  then show ?case
    using wg_step_effect [OF stats_acquire(2)] group_inv_wg [OF stats_acquire(3,2)]
    by (auto simp: group_inv_def)
next
  case (get_unlock s a b g)
  then show ?case
    using wg_step_effect [OF get_unlock(2)] group_inv_wg [OF get_unlock(3,2)]
    by (auto simp: group_inv_def)
next
  case (reset_unlock s g)
  then show ?case
    using wg_step_effect [OF reset_unlock(2)] group_inv_wg [OF reset_unlock(3,2)]
    by (auto simp: group_inv_def)
next
  case (waiter_closed s i w t)
  then show ?case by (intro group_inv_active) (auto simp: active_def)
next
  case (timer_fired s i w t)
  then show ?case by (intro group_inv_active) (auto simp: active_def)
next
  case (select_waiter s i t st lg)
  then show ?case by (intro group_inv_active) (auto simp: active_def group_inv_frame)
next
  case (select_timer s i w st lg)
  then show ?case by (intro group_inv_active) (auto simp: active_def group_inv_frame)
qed (auto simp: group_inv_def)

lemma stats_inv_frame [simp]:
  "stats_inv (s\<lparr>ls_group := g\<rparr>) = stats_inv s" "stats_inv (s\<lparr>ls_log := lg\<rparr>) = stats_inv s"
  "stats_inv (s\<lparr>ls_det := d\<rparr>) = stats_inv s"
  by (cases "ls_client s"; simp add: stats_inv_def)+

lemma stats_inv_set_fin:
  assumes "stats_inv s" and "i \<in> reported s \<longleftrightarrow> p = FinReported \<or> p = FinEnded"
  shows "stats_inv (set_fin i p s)"
proof -
  from assms(2) have "reported (set_fin i p s) = reported s" by auto
  with assms(1) show ?thesis by (cases "ls_client s") (simp_all add: stats_inv_def)
qed

lemma stats_inv_report:
  assumes "leak_inv s" and "i \<in> active s" and "i \<notin> reported s"
    and "st_success st + st_failure st = st_success (ls_stats s) + st_failure (ls_stats s) + 1"
  shows "stats_inv (set_fin i FinReported (s\<lparr>ls_stats := st, ls_log := lg\<rparr>))"
proof -
  from assms(1) have g: "group_inv s" and s: "stats_inv s" by (auto simp: leak_inv_def)
  from g assms(2) have idle: "\<not> has_waited (ls_client s)" by (auto simp: group_inv_def)
  from s have base: "ls_base s \<subseteq> reported s" by (simp add: stats_inv_def)
  have "insert i (reported s) - ls_base s = insert i (reported s - ls_base s)"
    using base assms(3) by auto
  then have "card (insert i (reported s) - ls_base s) = Suc (card (reported s - ls_base s))"
    using group_inv_finite(2) [OF g] assms(3) by simp
  then show ?thesis using s assms(4) idle
    by (cases "ls_client s") (auto simp: stats_inv_def)
qed

lemma stats_inv_step [go_inv]:
  assumes "leak_step s l s'" and "leak_inv s"
  shows "stats_inv s'"
  using assms
proof (induction rule: leak_step.induct)
  case (finish_rlock s i g)
  then show ?case by (intro stats_inv_set_fin) (auto simp: leak_inv_def reported_def)
next
  case (finish_count s i g)
  then show ?case by (intro stats_inv_set_fin) (auto simp: leak_inv_def reported_def)
next
  case (finish_runlock s i g)
  then show ?case by (intro stats_inv_set_fin) (auto simp: leak_inv_def reported_def)
next
  case (waiter_closed s i w t)
  then show ?case by (intro stats_inv_set_fin) (auto simp: leak_inv_def reported_def)
next
  case (timer_fired s i w t)
  then show ?case by (intro stats_inv_set_fin) (auto simp: leak_inv_def reported_def)
next
  case (select_waiter s i t st lg)
  then show ?case
    by (intro stats_inv_report) (auto simp: active_def reported_def detector_unfire_def)
next
  case (select_timer s i w st lg)
  then show ?case
    by (intro stats_inv_report) (auto simp: active_def reported_def detector_fire_def)
next
  case (finish_done s i g)
  then show ?case by (intro stats_inv_set_fin) (auto simp: leak_inv_def reported_def)
next
  case (det_call x s i d)
  then show ?case by (simp add: leak_inv_def)
next
  case (get_success s)
  then show ?case by (simp add: leak_inv_def stats_inv_def)
next
  case (get_failure s a)
  then show ?case by (simp add: leak_inv_def stats_inv_def)
qed (auto simp: leak_inv_def stats_inv_def)

lemma leak_inv_init: "leak_inv (init_leak_sys ps)"
  by (auto simp: leak_inv_def group_inv_def stats_inv_def init_leak_sys_def started_def active_def
      reported_def) (simp_all add: zero_workgroup_def)

interpretation stats: step_invariant leak_step leak_inv
  by unfold_locales (auto simp: leak_inv_def intro: go_inv)

section \<open>Properties\<close>


text \<open>A session whose actions have all ended, and then a call of the statistics function.\<close>

lemma stats_example:
  "\<exists>s. run_path leak_step (init_leak_sys ps)
     [LFinish 0, LFinish 0, LFinish 0, LFinish 0, LReport 0 True, LFinish 0,
      LStats, LStats, LStats, LStats, LStats] s \<and> ls_client s = StatsGot 1 0"
  unfolding init_leak_sys_def zero_workgroup_def
  apply (rule exI, rule conjI)
   apply (rule run_cons, rule finish_rlock, simp, rule add_rlock, simp, simp)
   apply (rule run_cons, rule finish_count, simp, rule add_count, simp)
   apply (rule run_cons, rule finish_runlock, simp, rule add_runlock, simp)
   apply (rule run_cons, rule waiter_closed [where w = False and t = False], simp, simp add: new_detector_def)
   apply (rule run_cons, rule select_waiter [where t = False], simp, simp only: detector_unfire_def)
   apply (rule run_cons, rule finish_done, simp, rule wg_done)
   apply (rule run_cons, rule stats_announce, simp, rule lock_announce, simp)
   apply (rule run_cons, rule stats_acquire, simp, rule lock_acquire, simp, simp add: waitgroup_add_def)
   apply (rule run_cons, rule stats_wait, simp, rule wait_returns, simp)
   apply (rule run_cons, rule get_success, simp)
   apply (rule run_cons, rule get_failure, simp)
   apply (rule run_nil)
  apply simp
  done


text \<open>An \<open>Add\<close> that is never undone keeps its name outstanding.\<close>

lemma det_op_keeps:
  assumes "det_inv d" and "n \<in> outstanding d" and "det_apply x d = (Ok (), d')" and "x \<noteq> DetDone n"
  shows "det_inv d' \<and> n \<in> outstanding d'"
proof -
  from assms(1,3) obtain A where "spec_op x (outstanding d) = Some A" "det_inv d'" "outstanding d' = A"
    using det_apply_spec [of d x] by (cases "spec_op x (outstanding d)") auto
  moreover from this(1) assms(2,4) have "n \<in> A"
    by (cases x) (auto split: if_splits)
  ultimately show ?thesis by simp
qed

definition leaking :: "nat \<Rightarrow> string \<Rightarrow> leak_sys \<Rightarrow> bool" where
  "leaking i n s \<longleftrightarrow> det_inv (ls_det s i) \<and> n \<in> outstanding (ls_det s i) \<and>
     (\<forall>t. ls_fin s i \<noteq> FinSelect True t)"

lemma leaking_step:
  assumes "leak_step s l s'" and "leaking i n s" and "l \<noteq> LDet i (DetDone n)"
  shows "leaking i n s' \<and> l \<noteq> LReport i True"
  using assms
proof (induction rule: leak_step.induct)
  case (det_call x s j d)
  then show ?case by (auto simp: leaking_def dest: det_op_keeps)
next
  case (waiter_closed s j w t)
  have "finite (outstanding (ls_det s i))" by (simp add: outstanding_def)
  with waiter_closed have "ld_wg (ls_det s i) \<noteq> 0"
    by (auto simp: leaking_def det_inv_wg)
  with waiter_closed show ?case by (auto simp: leaking_def)
qed (auto simp: leaking_def)

text \<open>
  C25.  The detector reports no false success: from the moment an action is outstanding in a
  detector whose \<open>Finish\<close> call has not seen the counter at zero, and as long as no
  \<open>Done\<close> call for it is made, that detector's \<open>Finish\<close> never reports \<open>leak_ok\<close>,
  whatever else happens to it or to other detectors.
\<close>

theorem leak_never_reported_ok:
  assumes "run_path leak_step s ls s'" and "leaking i n s" and "LDet i (DetDone n) \<notin> set ls"
  shows "leaking i n s' \<and> LReport i True \<notin> set ls"
  using assms by (induction rule: run_path.induct) (auto dest: leaking_step)

text \<open>A session that finishes with its input loop still outstanding: the timer decides.\<close>

definition leaking_sys :: leak_sys where
  "leaking_sys = (init_leak_sys (\<lambda>_. \<lparr>peer_user = ''u'', peer_addr = ''a''\<rparr>))
     \<lparr>ls_det := (\<lambda>_. snd (det_run [DetAdd ''session: stdin'' ''start''] new_detector)),
      ls_fin := (\<lambda>_. FinSelect False True)\<rparr>"

theorem leak_never_reported_ok_witness:
  "\<exists>s'. run_path leak_step leaking_sys [LReport 0 False] s' \<and>
     leaking 0 ''session: stdin'' s' \<and> LReport 0 True \<notin> set [LReport 0 False]"
proof -
  have "leaking 0 ''session: stdin'' leaking_sys"
    by (simp add: leaking_def leaking_sys_def det_inv_def outstanding_def new_detector_def
        detector_add_def detector_wg_add_def Let_def)
  moreover obtain s' where "run_path leak_step leaking_sys [LReport 0 False] s'"
    using run_cons [of leak_step, OF select_timer run_nil, of leaking_sys 0 False]
    by (auto simp: leaking_sys_def detector_fire_def)
  ultimately show ?thesis
    using leak_never_reported_ok [of leaking_sys "[LReport 0 False]" s' 0 "''session: stdin''"]
    by auto
qed

end
