(* ===== verification/TestUtils.thy ===== *)
theory TestUtils
  imports AsyncIO Flags LeakStats
begin

text \<open>
  The helpers of the test suite: \<open>internal/testutils\<close>, and the key, the logger and the server of
  \<open>internal/integrationtest\<close>.

  What the kernel, the ssh client and the random source do are parameters, as functions on a
  state \<open>'s\<close> that they share.  A helper that gives up calls \<open>panic\<close> with the error: \<open>panic_err\<close>.
\<close>

definition panic_err :: "(go_error \<Rightarrow> string) \<Rightarrow> go_error \<Rightarrow> 'a go" where
  "panic_err err_text e = Panic (err_text e)"

section \<open>Slices and readers\<close>

fun SliceContainsString :: "string list \<Rightarrow> string \<Rightarrow> bool" where
  "SliceContainsString [] needle = False"
| "SliceContainsString (s # haystack) needle = (if s = needle then True else SliceContainsString haystack needle)"

text \<open>\<open>Intercept\<close> gets a copy of the bytes that were read; a nil function is \<open>None\<close>.\<close>

definition intercept_read :: "(string \<Rightarrow> go_error option \<Rightarrow> 's \<Rightarrow> 's) option \<Rightarrow> 's reader \<Rightarrow> 's reader" where
  "intercept_read intercept read s =
     (let ((p, err), s1) = read s
      in ((p, err), case intercept of None \<Rightarrow> s1 | Some f \<Rightarrow> f p err s1))"

text \<open>\<open>%v\<close> of a byte slice and of an error.\<close>

definition fmt_bytes :: "string \<Rightarrow> string" where
  "fmt_bytes p = ''['' @ go_join (map (\<lambda>c. format_nat (of_char c)) p) '' '' @ '']''"

definition fmt_err :: "(go_error \<Rightarrow> string) \<Rightarrow> go_error option \<Rightarrow> string" where
  "fmt_err err_text err = (case err of None \<Rightarrow> ''<nil>'' | Some e \<Rightarrow> err_text e)"

definition intercept_and_log ::
  "(go_error \<Rightarrow> string) \<Rightarrow> (string \<Rightarrow> 's \<Rightarrow> 's) \<Rightarrow> 's reader \<Rightarrow> string \<Rightarrow> 's reader" where
  "intercept_and_log err_text log_print read s =
     intercept_read
       (Some (\<lambda>p err. log_print (''InterceptPrint: '' @ s @ '' '' @ fmt_err err_text err @ '' '' @ fmt_bytes p @ [nl])))
       read"

section \<open>Listeners\<close>

record 's net_lib =
  ResolveTCPAddr :: "string \<Rightarrow> 's \<Rightarrow> string go \<times> 's"
  ListenTCP :: "string \<Rightarrow> 's \<Rightarrow> (string \<times> nat) go \<times> 's"
  listener_Close :: "'s \<Rightarrow> 's"

text \<open>The IP address and port of the listener are read, and it is closed.\<close>

definition new_test_listen_address :: "(go_error \<Rightarrow> string) \<Rightarrow> 's net_lib \<Rightarrow> 's \<Rightarrow> string go \<times> 's" where
  "new_test_listen_address err_text lib s =
     (case ResolveTCPAddr lib ''127.0.0.1:0'' s of
        (Err e, s1) \<Rightarrow> (panic_err err_text e, s1)
      | (Panic m, s1) \<Rightarrow> (Panic m, s1)
      | (Ok addr, s1) \<Rightarrow>
          (case ListenTCP lib addr s1 of
             (Err e, s2) \<Rightarrow> (panic_err err_text e, s2)
           | (Panic m, s2) \<Rightarrow> (Panic m, s2)
           | (Ok (ip, port), s2) \<Rightarrow> (Ok (join_host_port ip (format_nat port)), listener_Close lib s2)))"

text \<open>
  The loop of \<open>TCPConstantTestResponse\<close> never ends; this is what it does for the results of
  \<open>Accept\<close> so far: every client gets the response and is closed, errors are skipped.
\<close>

fun tcp_constant_test_response :: "string \<Rightarrow> nat option list \<Rightarrow> (nat \<times> string) list" where
  "tcp_constant_test_response response [] = []"
| "tcp_constant_test_response response (client # accepts) =
     (case client of
        None \<Rightarrow> tcp_constant_test_response response accepts
      | Some c \<Rightarrow> (c, response) # tcp_constant_test_response response accepts)"

section \<open>Processes\<close>

text \<open>\<open>strings.TrimSpace\<close> for ASCII, and \<open>strconv.ParseInt(s, 10, bits)\<close>.\<close>

definition is_space :: "char \<Rightarrow> bool" where
  "is_space c \<longleftrightarrow> c \<in> {CHR 0x09, CHR 0x0A, CHR 0x0B, CHR 0x0C, CHR 0x0D, CHR '' ''}"

definition trim_space :: "string \<Rightarrow> string" where
  "trim_space s = rev (dropWhile is_space (rev (dropWhile is_space s)))"

definition parse_int :: "string \<Rightarrow> nat \<Rightarrow> int go" where
  "parse_int s bits =
     (let neg = (take 1 s = ''-'');
          digits = (if take 1 s = ''-'' \<or> take 1 s = ''+'' then drop 1 s else s)
      in case parse_uint digits bits of
           Err e \<Rightarrow> Err e
         | Panic m \<Rightarrow> Panic m
         | Ok un \<Rightarrow>
             if \<not> neg \<and> 2 ^ (bits - 1) \<le> un then Err errRange
             else if neg \<and> 2 ^ (bits - 1) < un then Err errRange
             else Ok (if neg then - int un else int un))"

record ('s, 'p) process_lib =
  session_Output :: "string \<Rightarrow> 's \<Rightarrow> string go \<times> 's"
  FindProcess :: "int \<Rightarrow> 's \<Rightarrow> 'p go \<times> 's"
  process_Signal :: "'p \<Rightarrow> int \<Rightarrow> 's \<Rightarrow> unit go \<times> 's"

definition get_test_session_process :: "(go_error \<Rightarrow> string) \<Rightarrow> ('s, 'p) process_lib \<Rightarrow> 's \<Rightarrow> 'p go \<times> 's" where
  "get_test_session_process err_text lib s =
     (case session_Output lib ''echo $$'' s of
        (Err e, s1) \<Rightarrow> (panic_err err_text (ErrWrap e ''Unable to get pid via session''), s1)
      | (Panic m, s1) \<Rightarrow> (Panic m, s1)
      | (Ok pidBytes, s1) \<Rightarrow>
          (case parse_int (trim_space pidBytes) 32 of
             Err e \<Rightarrow> (panic_err err_text (ErrWrap e ''pid was not an int''), s1)
           | Panic m \<Rightarrow> (Panic m, s1)
           | Ok pid \<Rightarrow>
               (case FindProcess lib pid s1 of
                  (Err e, s2) \<Rightarrow> (panic_err err_text (ErrWrap e ''Can not find process''), s2)
                | (Panic m, s2) \<Rightarrow> (Panic m, s2)
                | (Ok proc, s2) \<Rightarrow> (Ok proc, s2))))"

text \<open>A panic of \<open>Signal\<close> is recovered, and the result is then false.\<close>

definition is_process_alive :: "string \<Rightarrow> ('s, 'p) process_lib \<Rightarrow> 'p \<Rightarrow> 's \<Rightarrow> bool go \<times> 's" where
  "is_process_alive GOOS lib proc s =
     (if GOOS = ''windows'' \<or> GOOS = ''plan9'' then (Panic ''GOOS unsupported'', s)
      else (case process_Signal lib proc 0 s of
              (Ok u, s1) \<Rightarrow> (Ok True, s1)
            | (Err e, s1) \<Rightarrow> (Ok False, s1)
            | (Panic m, s1) \<Rightarrow> (Ok False, s1)))"

section \<open>Temporary files\<close>

record 's tmp_lib =
  CreateTemp :: "string \<Rightarrow> 's \<Rightarrow> string go \<times> 's"
  tmp_Write :: "string \<Rightarrow> string \<Rightarrow> 's \<Rightarrow> unit go \<times> 's"
  tmp_Close :: "string \<Rightarrow> 's \<Rightarrow> 's"
  tmp_Remove :: "string \<Rightarrow> 's \<Rightarrow> 's"

text \<open>The result is the path of the file and the cleanup function.\<close>

definition write_temp_file ::
  "(go_error \<Rightarrow> string) \<Rightarrow> 's tmp_lib \<Rightarrow> string \<Rightarrow> string \<Rightarrow> 's \<Rightarrow> (string \<times> ('s \<Rightarrow> 's)) go \<times> 's" where
  "write_temp_file err_text lib pattern content s =
     (case CreateTemp lib pattern s of
        (Err e, s1) \<Rightarrow> (panic_err err_text e, s1)
      | (Panic m, s1) \<Rightarrow> (Panic m, s1)
      | (Ok filepath, s1) \<Rightarrow>
          (let cleanup = tmp_Remove lib filepath;
               (r, s2) = (if content \<noteq> [] then tmp_Write lib filepath content s1 else (Ok (), s1))
           in case r of
                Err e \<Rightarrow> (panic_err err_text e, cleanup (tmp_Close lib filepath s2))
              | Panic m \<Rightarrow> (Panic m, s2)
              | Ok u \<Rightarrow> (Ok (filepath, cleanup), tmp_Close lib filepath s2)))"

section \<open>Keys\<close>

text \<open>Base 64 with padding, three bytes at a time.\<close>

definition base64_char :: "nat \<Rightarrow> char" where
  "base64_char n = (''ABCDEFGHIJKLMNOPQRSTUVWXYZabcdefghijklmnopqrstuvwxyz0123456789+/'') ! (n mod 64)"

fun base64_encode :: "string \<Rightarrow> string" where
  "base64_encode [] = []"
| "base64_encode [a] =
     (let n = of_char a * 16
      in [base64_char (n div 64), base64_char n, CHR ''='', CHR ''=''])"
| "base64_encode [a, b] =
     (let n = (of_char a * 256 + of_char b) * 4
      in [base64_char (n div 4096), base64_char (n div 64), base64_char n, CHR ''=''])"
| "base64_encode (a # b # c # cs) =
     (let n = (of_char a * 256 + of_char b) * 256 + of_char c
      in [base64_char (n div 262144), base64_char (n div 4096), base64_char (n div 64), base64_char n] @ base64_encode cs)"

text \<open>A public key is its type and its wire format; writing to a buffer does not fail.\<close>

definition authorized_keys_string :: "string \<Rightarrow> string \<Rightarrow> string" where
  "authorized_keys_string key_type key_bytes = key_type @ '' '' @ base64_encode key_bytes"

definition rsaTestKeyPairSize :: nat where
  "rsaTestKeyPairSize = 2048"

definition generate_rsa_test_key_pair ::
  "(go_error \<Rightarrow> string) \<Rightarrow> (nat \<Rightarrow> 's \<Rightarrow> 'k go \<times> 's) \<Rightarrow> ('k \<Rightarrow> 'signer go) \<Rightarrow> ('signer \<Rightarrow> 'pub) \<Rightarrow> 's
     \<Rightarrow> ('signer \<times> 'pub) go \<times> 's" where
  "generate_rsa_test_key_pair err_text generateKey newSignerFromKey signerPublicKey s =
     (case generateKey rsaTestKeyPairSize s of
        (Err e, s1) \<Rightarrow> (panic_err err_text e, s1)
      | (Panic m, s1) \<Rightarrow> (Panic m, s1)
      | (Ok privkey, s1) \<Rightarrow>
          (case newSignerFromKey privkey of
             Err e \<Rightarrow> (panic_err err_text e, s1)
           | Panic m \<Rightarrow> (Panic m, s1)
           | Ok signer \<Rightarrow> (Ok (signer, signerPublicKey signer), s1)))"

text \<open>
  \<open>getTestKey\<close> and \<open>GetLogger\<close> fill a global variable on first use; the mutex makes a call
  atomic.  \<open>create\<close> is what they fill it with.
\<close>

definition once_made :: "('s \<Rightarrow> 'a go \<times> 's) \<Rightarrow> 'a option \<Rightarrow> 's \<Rightarrow> 'a go \<times> 'a option \<times> 's" where
  "once_made create var s =
     (case var of
        Some x \<Rightarrow> (Ok x, var, s)
      | None \<Rightarrow>
          (case create s of
             (Ok x, s1) \<Rightarrow> (Ok x, Some x, s1)
           | (r, s1) \<Rightarrow> (r, None, s1)))"

definition get_test_key ::
  "('s \<Rightarrow> ('signer \<times> 'pub) go \<times> 's) \<Rightarrow> 'signer option \<Rightarrow> 's \<Rightarrow> 'signer go \<times> 'signer option \<times> 's" where
  "get_test_key generate testKeyKey s =
     once_made (\<lambda>s. let (r, s1) = generate s in (go_bind r (\<lambda>(signer, pub). Ok signer), s1)) testKeyKey s"

definition get_logger :: "(string \<Rightarrow> 's \<Rightarrow> 'l \<times> 's) \<Rightarrow> 'l option \<Rightarrow> 's \<Rightarrow> 'l go \<times> 'l option \<times> 's" where
  "get_logger log_New testLogger s = once_made (\<lambda>s. let (l, s1) = log_New ''test'' s in (Ok l, s1)) testLogger s"

lemma once_made_again:
  assumes "once_made create var s = (Ok x, var', s')"
  shows "once_made create var' s'' = (Ok x, var', s'')"
  using assms by (auto simp: once_made_def split: option.splits prod.splits go.splits)

section \<open>Clients\<close>

text \<open>
  \<open>ssh.ClientConfig\<close>: the user, and the callback that checks host keys.  A command ends with
  nil, with an exit status, or with another error.
\<close>

type_synonym host_key_callback = "string \<Rightarrow> string \<Rightarrow> unit go"

record client_config =
  cc_User :: string
  cc_HostKeyCallback :: "host_key_callback option"

datatype run_end = RunOk | RunExit int | RunFailed go_error

record ('s, 'c) ssh_client_lib =
  ssh_Dial :: "string \<Rightarrow> client_config \<Rightarrow> 's \<Rightarrow> 'c go \<times> 's"
  conn_NewSession :: "'c \<Rightarrow> 's \<Rightarrow> nat go \<times> 's"
  conn_Close :: "'c \<Rightarrow> 's \<Rightarrow> 's"
  session_Run :: "nat \<Rightarrow> string \<Rightarrow> string \<Rightarrow> 's \<Rightarrow> (run_end \<times> string \<times> string) \<times> 's"
  session_Close :: "nat \<Rightarrow> 's \<Rightarrow> 's"

definition default_config :: "client_config \<Rightarrow> client_config" where
  "default_config opts =
     (let o1 = (if cc_HostKeyCallback opts = None then opts\<lparr>cc_HostKeyCallback := Some (\<lambda>hostname key. Ok ())\<rparr> else opts)
      in if cc_User o1 = [] then o1\<lparr>cc_User := ''user''\<rparr> else o1)"

definition new_test_server_session ::
  "('s, 'c) ssh_client_lib \<Rightarrow> string \<Rightarrow> client_config \<Rightarrow> 's \<Rightarrow> ('c \<times> nat) go \<times> 's" where
  "new_test_server_session lib address opts s =
     (case ssh_Dial lib address (default_config opts) s of
        (Err e, s1) \<Rightarrow> (Err e, s1)
      | (Panic m, s1) \<Rightarrow> (Panic m, s1)
      | (Ok conn, s1) \<Rightarrow>
          (case conn_NewSession lib conn s1 of
             (Err e, s2) \<Rightarrow> (Err e, conn_Close lib conn s2)
           | (Panic m, s2) \<Rightarrow> (Panic m, s2)
           | (Ok session, s2) \<Rightarrow> (Ok (conn, session), s2)))"

text \<open>
  \<open>session.Run\<close> gets the command and the standard input, and fills the two buffers; the
  result is (stdout, stderr, code) and the error.
\<close>

definition run_test_server_command ::
  "('s, 'c) ssh_client_lib \<Rightarrow> string \<Rightarrow> client_config \<Rightarrow> string \<Rightarrow> string \<Rightarrow> 's
     \<Rightarrow> ((string \<times> string \<times> int) \<times> go_error option) go \<times> 's" where
  "run_test_server_command lib address opts command stdin s =
     (case new_test_server_session lib address opts s of
        (Err e, s1) \<Rightarrow> (Ok (([], [], 0), Some e), s1)
      | (Panic m, s1) \<Rightarrow> (Panic m, s1)
      | (Ok (client, session), s1) \<Rightarrow>
          (let ((err, stdoutBuf, stderrBuf), s2) = session_Run lib session command stdin s1;
               s3 = session_Close lib session (conn_Close lib client s2)
           in case err of
                RunOk \<Rightarrow> (Ok ((stdoutBuf, stderrBuf, 0), None), s3)
              | RunExit status \<Rightarrow> (Ok ((stdoutBuf, stderrBuf, status), None), s3)
              | RunFailed e \<Rightarrow> (Ok (([], [], 0), Some e), s3)))"

section \<open>Test servers\<close>

definition zero_options :: options where
  "zero_options =
     \<lparr>ListenAddress = [], HostKeyPath = [], HostKeyAlgorithms = None, DisableAuthentication = False,
      ForwardAddresses = None, ReverseAddresses = None, opt_IdleTimeout = 0\<rparr>"

text \<open>
  \<open>NewServer\<close> of the package \<open>integrationtest\<close>: \<open>success_handler\<close> is the handler that answers
  with success, \<open>key\<close> the result of \<open>getTestKey\<close>, and \<open>addr\<close> and \<open>listen\<close> the results
  of \<open>NewTestListenAddress\<close> and \<open>net.Listen\<close>.  A nil list of signers is the empty list.  The
  statistics of the leak detector are reset before the server runs.
\<close>

definition test_new_server ::
  "platform \<Rightarrow> (go_error \<Rightarrow> string) \<Rightarrow> host_key go \<Rightarrow> 'h \<Rightarrow> string go \<Rightarrow> (string \<Rightarrow> unit go) \<Rightarrow> options option
     \<Rightarrow> ('v, 'h) configuration option list \<Rightarrow> world \<times> leak_stats \<Rightarrow> ('v, 'h) ssh_server go \<times> world \<times> leak_stats" where
  "test_new_server pf err_text key success_handler addr listen opts configurations s =
     (let (w, stats) = s;
          opts1 = (case opts of None \<Rightarrow> zero_options | Some opts \<Rightarrow> opts)
      in case new_server pf opts1 configurations w of
           (Err e, w1) \<Rightarrow> (panic_err err_text e, w1, stats)
         | (Panic m, w1) \<Rightarrow> (Panic m, w1, stats)
         | (Ok server, w1) \<Rightarrow>
             (case (if HostSigners server = []
                    then go_bind key (\<lambda>k. Ok (server\<lparr>HostSigners := HostSigners server @ [k]\<rparr>))
                    else Ok server) of
                Err e \<Rightarrow> (panic_err err_text e, w1, stats)
              | Panic m \<Rightarrow> (Panic m, w1, stats)
              | Ok server2 \<Rightarrow>
                  (let server3 = (if SessionHandler server2 = None
                                  then server2\<lparr>SessionHandler := Some success_handler\<rparr> else server2)
                   in case addr of
                        Err e \<Rightarrow> (panic_err err_text e, w1, stats)
                      | Panic m \<Rightarrow> (Panic m, w1, stats)
                      | Ok a \<Rightarrow>
                          (case listen a of
                             Err e \<Rightarrow> (panic_err err_text e, w1, stats)
                           | Panic m \<Rightarrow> (Panic m, w1, stats)
                           | Ok u \<Rightarrow> (Ok (server3\<lparr>Addr := a\<rparr>), w1, \<lparr>st_success = 0, st_failure = 0\<rparr>)))))"

text \<open>The cleanup function closes the server, and panics when this fails.\<close>

definition test_cleanup :: "(go_error \<Rightarrow> string) \<Rightarrow> ('s \<Rightarrow> unit go \<times> 's) \<Rightarrow> 's \<Rightarrow> unit go \<times> 's" where
  "test_cleanup err_text server_Close s =
     (case server_Close s of
        (Err e, s1) \<Rightarrow> (panic_err err_text e, s1)
      | (r, s1) \<Rightarrow> (r, s1))"

text \<open>The subtest is skipped, succeeds, or fails with a message.\<close>

datatype test_result = TestSkipped string | TestPassed | TestFailed string

definition assert_leak_detector :: "bool \<Rightarrow> leak_stats \<Rightarrow> int \<Rightarrow> test_result" where
  "assert_leak_detector enabled stats want =
     (if \<not> enabled then TestSkipped ''MemoryLeakEnabled = false, use the 'leak' tag to enable''
      else (let got = sint (st_success stats)
            in if got \<noteq> want
               then TestFailed (sprintf ''Leak Detector: wanted %d finished calls, received %d (and %d failures)''
                      [FInt want, FInt got, FInt (uint (st_failure stats))])
               else TestPassed))"

section \<open>Properties\<close>

text \<open>
  A temporary file does not outlive a failed write: when the content cannot be written, the
  helper panics after the file was closed and removed; when it can, the file is closed and the
  returned function removes it.  An empty content is not written.
\<close>

theorem write_temp_file_outcomes:
  assumes "CreateTemp lib pattern s = (Ok f, s1)"
  shows "write_temp_file err_text lib pattern content s =
    (if content = [] then (Ok (f, tmp_Remove lib f), tmp_Close lib f s1)
     else (case tmp_Write lib f content s1 of
             (Ok u, s2) \<Rightarrow> (Ok (f, tmp_Remove lib f), tmp_Close lib f s2)
           | (Err e, s2) \<Rightarrow> (Panic (err_text e), tmp_Remove lib f (tmp_Close lib f s2))
           | (Panic m, s2) \<Rightarrow> (Panic m, s2)))"
  using assms by (auto simp: write_temp_file_def panic_err_def Let_def split: prod.splits go.splits)

text \<open>
  A test client does not leak its connection: when no session can be made, it is closed.  The
  defaults never replace a user name or a callback that was given.
\<close>

theorem test_session_closes:
  assumes "ssh_Dial lib address (default_config opts) s = (Ok conn, s1)"
    and "conn_NewSession lib conn s1 = (Err e, s2)"
  shows "new_test_server_session lib address opts s = (Err e, conn_Close lib conn s2) \<and>
    (cc_User opts \<noteq> [] \<longrightarrow> cc_User (default_config opts) = cc_User opts) \<and>
    (\<forall>f. cc_HostKeyCallback opts = Some f \<longrightarrow> cc_HostKeyCallback (default_config opts) = Some f)"
  using assms by (simp add: new_test_server_session_def default_config_def Let_def)

text \<open>
  A test server has at least one host key and a session handler, and listens on the address
  that was found for it, whatever the options and configurations are.
\<close>

theorem test_server_ready:
  assumes "test_new_server pf err_text key h addr listen opts cs s = (Ok server, s')"
  shows "HostSigners server \<noteq> [] \<and> SessionHandler server \<noteq> None \<and> addr = Ok (Addr server) \<and>
    snd s' = \<lparr>st_success = 0, st_failure = 0\<rparr>"
  using assms
  by (auto simp: test_new_server_def Let_def panic_err_def go_bind_Ok_iff
      split: prod.splits go.splits if_splits option.splits)

end
