(* ===== verification/Compose.thy ===== *)
theory Compose
  imports TestUtils Docker
begin

text \<open>
  \<open>internal/integrationtest/docker.go\<close>: \<open>RunComposeTest\<close>, which runs test code while the
  services of a docker compose file are up.

  The parameters \<open>compose_lib\<close> are the Docker client, the file system and the commands, on a
  state \<open>'s\<close>; \<open>'c\<close> is the client.  A panic carries the text of its error.
\<close>

section \<open>Deferred calls\<close>

text \<open>
  A deferred call runs in the state that the function body has left, also when the body has
  panicked; a panic of its own replaces the result, and otherwise the result stays.
\<close>

definition go_defer :: "'a go \<times> 's \<Rightarrow> ('s \<Rightarrow> unit go \<times> 's) \<Rightarrow> 'a go \<times> 's" where
  "go_defer r f = (let (q, s) = r; (q', s') = f s in (case q' of Panic m \<Rightarrow> Panic m | _ \<Rightarrow> q, s'))"

lemma go_defer_state: "snd (go_defer r f) = snd (f (snd r))"
  by (simp add: go_defer_def split_beta)

section \<open>The runner\<close>

record ('s, 'c) compose_lib =
  NewClient :: "'s \<Rightarrow> 'c go \<times> 's"
  NegotiateAPIVersion :: "'c \<Rightarrow> 's \<Rightarrow> 's"
  cli_Close :: "'c \<Rightarrow> 's \<Rightarrow> unit go \<times> 's"
  cli_ContainerList :: "'c \<Rightarrow> (string \<times> string) list \<Rightarrow> 's \<Rightarrow> (container list \<times> go_error option) \<times> 's"
  lib_LookPath :: "string \<Rightarrow> 's \<Rightarrow> string go \<times> 's"
  MkdirTemp :: "string \<Rightarrow> 's \<Rightarrow> string go \<times> 's"
  RemoveAll :: "string \<Rightarrow> 's \<Rightarrow> unit go \<times> 's"
  WriteFile :: "string \<Rightarrow> string \<Rightarrow> 's \<Rightarrow> unit go \<times> 's"
  path_Join :: "string \<Rightarrow> string \<Rightarrow> string"
  rand_Int :: "'s \<Rightarrow> nat \<times> 's"
  cmd_Run :: "string \<Rightarrow> string list \<Rightarrow> string \<Rightarrow> 's \<Rightarrow> unit go \<times> 's"
  lib_err_text :: "go_error \<Rightarrow> string"

text \<open>\<open>strings.ReplaceAll\<close> of a tab by four blanks.\<close>

definition replace_tabs :: "string \<Rightarrow> string" where
  "replace_tabs s = concat (map (\<lambda>c. if c = CHR 0x09 then ''    '' else [c]) s)"

text \<open>An error becomes a panic with a message in front.\<close>

fun or_panic :: "('s, 'c) compose_lib \<Rightarrow> string \<Rightarrow> 'a go \<times> 's \<Rightarrow> 'a go \<times> 's" where
  "or_panic lib msg (Ok x, s) = (Ok x, s)"
| "or_panic lib msg (Err e, s) = (panic_err (lib_err_text lib) (ErrWrap e msg), s)"
| "or_panic lib msg (Panic m, s) = (Panic m, s)"

text \<open>The files in the order in which the map is walked.\<close>

fun write_files :: "('s, 'c) compose_lib \<Rightarrow> string \<Rightarrow> (string \<times> string) list \<Rightarrow> 's \<Rightarrow> unit go \<times> 's" where
  "write_files lib tmpDir [] s = (Ok (), s)"
| "write_files lib tmpDir ((filename, content) # files) s =
     go_then (or_panic lib ''Unable to write file'' (WriteFile lib (path_Join lib tmpDir filename) content s))
       (\<lambda>u s1. write_files lib tmpDir files s1)"

definition compose ::
  "('s, 'c) compose_lib \<Rightarrow> string \<Rightarrow> string \<Rightarrow> string \<Rightarrow> string \<Rightarrow> string list \<Rightarrow> 's \<Rightarrow> unit go \<times> 's" where
  "compose lib dockerPath dockerComposeYML tmpDir projectName args s =
     or_panic lib ''docker compose failed to run''
       (cmd_Run lib dockerPath ([''compose'', ''-f'', dockerComposeYML, ''-p'', projectName] @ args) tmpDir s)"

text \<open>An empty list is an error of its own, which replaces the one of the client.\<close>

definition find_service :: "('s, 'c) compose_lib \<Rightarrow> 'c \<Rightarrow> string \<Rightarrow> string \<Rightarrow> 's \<Rightarrow> container go \<times> 's" where
  "find_service lib cli projectName service s =
     (let ((lst, err), s1) =
            cli_ContainerList lib cli
              [(''label'', ''com.docker.compose.service='' @ service), (''label'', ''com.docker.compose.project='' @ projectName)] s;
          err1 = (if length lst = 0 then Some (ErrNew ''No service containers exist'') else err)
      in case err1 of
           Some e \<Rightarrow> (panic_err (lib_err_text lib) (ErrWrap e ''Unable to find service''), s1)
         | None \<Rightarrow> (Ok (hd lst), s1))"

text \<open>The test code gets the client and the functions that find and stop a service.\<close>

type_synonym ('s, 'c) compose_test_code =
  "'c \<Rightarrow> (string \<Rightarrow> 's \<Rightarrow> container go \<times> 's) \<Rightarrow> (string \<Rightarrow> 's \<Rightarrow> unit go \<times> 's) \<Rightarrow> 's \<Rightarrow> unit go \<times> 's"

text \<open>
  The body once the directory exists.  The result of writing the compose file is dropped: what
  the code tests next is the error of \<open>MkdirTemp\<close>, which is nil here.
\<close>

definition run_in_dir ::
  "('s, 'c) compose_lib \<Rightarrow> 'c \<Rightarrow> string \<Rightarrow> string \<Rightarrow> string \<Rightarrow> (string \<times> string) list
     \<Rightarrow> ('s, 'c) compose_test_code \<Rightarrow> 's \<Rightarrow> unit go \<times> 's" where
  "run_in_dir lib cli dockerPath tmpDir config files testcode s =
     (let dockerComposeYML = path_Join lib tmpDir ''docker-compose.yml'';
          (dropped, s1) = WriteFile lib dockerComposeYML (replace_tabs config) s
      in go_then (write_files lib tmpDir files s1) (\<lambda>u s2.
           let (n, s3) = rand_Int lib s2;
               projectName = ''test-'' @ format_nat n;
               run = compose lib dockerPath dockerComposeYML tmpDir projectName
           in go_then (run [''up'', ''-d''] s3) (\<lambda>u s4.
                go_defer
                  (testcode cli (find_service lib cli projectName) (\<lambda>service. run [''stop'', service]) s4)
                  (run [''down'', ''-v'']))))"

definition run_compose_test ::
  "('s, 'c) compose_lib \<Rightarrow> string \<Rightarrow> (string \<times> string) list \<Rightarrow> ('s, 'c) compose_test_code \<Rightarrow> 's \<Rightarrow> unit go \<times> 's" where
  "run_compose_test lib config files testcode s =
     go_then (or_panic lib ''Unable to create docker client'' (NewClient lib s)) (\<lambda>cli s1.
       go_defer
         (go_then (or_panic lib ''Unable to find 'docker' in $PATH'' (lib_LookPath lib ''docker'' (NegotiateAPIVersion lib cli s1)))
            (\<lambda>dockerPath s2.
              go_then (or_panic lib ''Unable to create a temporary directory'' (MkdirTemp lib ''docker-compose-test'' s2))
                (\<lambda>tmpDir s3.
                  go_defer (run_in_dir lib cli dockerPath tmpDir config files testcode s3)
                    (\<lambda>s. case RemoveAll lib tmpDir s of (r, s') \<Rightarrow> (Ok (), s')))))
         (\<lambda>s. case cli_Close lib cli s of (r, s') \<Rightarrow> (Ok (), s')))"

section \<open>Properties\<close>

text \<open>
  Once the temporary directory exists it is removed and the client closed, in this order and as
  the last thing, whatever happens in between (a file that cannot be written, a command that
  fails, test code that returns an error or panics), and the outcome is the one of the body.
\<close>

theorem compose_cleans_up:
  assumes "NewClient lib s = (Ok cli, s1)"
    and "lib_LookPath lib ''docker'' (NegotiateAPIVersion lib cli s1) = (Ok dockerPath, s2)"
    and "MkdirTemp lib ''docker-compose-test'' s2 = (Ok tmpDir, s3)"
  shows "run_compose_test lib config files testcode s =
    (case run_in_dir lib cli dockerPath tmpDir config files testcode s3 of
       (r, s4) \<Rightarrow> (r, snd (cli_Close lib cli (snd (RemoveAll lib tmpDir s4)))))"
  using assms by (simp add: run_compose_test_def go_defer_def split_beta)

text \<open>
  When the services could be started, they are taken down after the test code, whatever it does:
  its error is returned, and its panic goes on, unless taking the services down panics too.
\<close>

theorem compose_takes_down:
  assumes "write_files lib tmpDir files (snd (WriteFile lib (path_Join lib tmpDir ''docker-compose.yml'') (replace_tabs config) s)) = (Ok (), s2)"
    and "rand_Int lib s2 = (n, s3)"
    and "run = compose lib dockerPath (path_Join lib tmpDir ''docker-compose.yml'') tmpDir (''test-'' @ format_nat n)"
    and "run [''up'', ''-d''] s3 = (Ok (), s4)"
    and "testcode cli (find_service lib cli (''test-'' @ format_nat n)) (\<lambda>service. run [''stop'', service]) s4 = (r, s5)"
  shows "run_in_dir lib cli dockerPath tmpDir config files testcode s =
    (case run [''down'', ''-v''] s5 of (Panic m, s6) \<Rightarrow> (Panic m, s6) | (q, s6) \<Rightarrow> (r, s6))"
  using assms(1,2,4,5) unfolding assms(3)
  by (auto simp: run_in_dir_def go_defer_def Let_def split_beta split: go.splits)

text \<open>
  A compose file that cannot be written goes unnoticed: replacing every result of writing the
  path of the compose file by an error, with the same effect on the state, changes nothing, as
  long as no extra file has that path.
\<close>

theorem compose_file_error_ignored:
  fixes lib :: "('s, 'c) compose_lib"
  assumes "\<And>filename content. (filename, content) \<in> set files \<Longrightarrow>
      path_Join lib tmpDir filename \<noteq> path_Join lib tmpDir ''docker-compose.yml''"
    and "lib' = lib\<lparr>WriteFile := (\<lambda>p content s.
      if p = path_Join lib tmpDir ''docker-compose.yml'' then (Err e, snd (WriteFile lib p content s)) else WriteFile lib p content s)\<rparr>"
  shows "run_in_dir lib' cli dockerPath tmpDir config files testcode s =
    run_in_dir lib cli dockerPath tmpDir config files testcode s"
proof -
  have "or_panic lib' msg r = or_panic lib msg r" for msg and r :: "unit go \<times> 's"
    by (cases "(lib, msg, r)" rule: or_panic.cases) (simp_all add: assms(2))
  note or_panic = this
  have files: "write_files lib' tmpDir files s = write_files lib tmpDir files s" for s
    using assms(1)
  proof (induction files arbitrary: s)
    case (Cons f files)
    obtain filename content where f: "f = (filename, content)" by (cases f)
    have "WriteFile lib' (path_Join lib' tmpDir filename) content s = WriteFile lib (path_Join lib tmpDir filename) content s"
      using Cons.prems [of filename content] f by (simp add: assms(2))
    moreover have "write_files lib' tmpDir files = write_files lib tmpDir files"
    proof
      fix s
      show "write_files lib' tmpDir files s = write_files lib tmpDir files s"
      proof (rule Cons.IH)
        fix n c assume "(n, c) \<in> set files"
        then show "path_Join lib tmpDir n \<noteq> path_Join lib tmpDir ''docker-compose.yml''" by (intro Cons.prems) auto
      qed
    qed
    ultimately show ?case using f or_panic by simp
  qed simp
  have "compose lib' = compose lib"
    by (intro ext) (simp add: compose_def or_panic, simp add: assms(2))
  moreover have "find_service lib' = find_service lib"
  proof -
    have "cli_ContainerList lib' = cli_ContainerList lib" "lib_err_text lib' = lib_err_text lib"
      by (simp_all add: assms(2))
    then show ?thesis by (intro ext) (simp only: find_service_def)
  qed
  ultimately show ?thesis
    by (simp add: run_in_dir_def files) (simp add: assms(2) split_beta)
qed

end
