(* ===== verification/Refinement.thy ===== *)
theory Refinement
  imports Prelude
begin

text \<open>
  Step relations that refine others: the steps of a detailed relation are, seen through a
  function of its states, steps of a coarser one or no step at all.  Runs are then runs of the
  coarser relation, and the invariants of the coarser relation hold for the detailed one.
\<close>

locale refinement = step_invariant cstep inv
  for cstep :: "'c \<Rightarrow> 'k \<Rightarrow> 'c \<Rightarrow> bool" and inv :: "'c \<Rightarrow> bool" +
  fixes astep :: "'a \<Rightarrow> 'l \<Rightarrow> 'a \<Rightarrow> bool"
    and proj :: "'c \<Rightarrow> 'a"
    and seen :: "'k \<Rightarrow> 'l option"
  assumes sim_step: "cstep s k s' \<Longrightarrow> inv s \<Longrightarrow>
     (case seen k of None \<Rightarrow> proj s' = proj s | Some l \<Rightarrow> astep (proj s) l (proj s'))"
begin

lemma run_sim:
  "run_path cstep s ks s' \<Longrightarrow> inv s \<Longrightarrow> run_path astep (proj s) (List.map_filter seen ks) (proj s')"
proof (induction rule: run_path.induct)
  case (run_cons s k s' ks s'')
  from run_cons.IH inv_step [OF run_cons(1,4)]
  have "run_path astep (proj s') (List.map_filter seen ks) (proj s'')" .
  with sim_step [OF run_cons(1,4)] show ?case
    by (auto simp: run_path_Cons_iff split: option.splits)
qed simp

end

text \<open>An invariant of the coarser relation is one of the detailed relation.\<close>

locale refined_invariant = refinement cstep inv astep proj seen + coarse: step_invariant astep ainv
  for cstep :: "'c \<Rightarrow> 'k \<Rightarrow> 'c \<Rightarrow> bool" and inv :: "'c \<Rightarrow> bool"
    and astep :: "'a \<Rightarrow> 'l \<Rightarrow> 'a \<Rightarrow> bool" and proj :: "'c \<Rightarrow> 'a" and seen :: "'k \<Rightarrow> 'l option"
    and ainv :: "'a \<Rightarrow> bool"
begin

lemma pulled_step: "cstep s k s' \<Longrightarrow> inv s \<and> ainv (proj s) \<Longrightarrow> inv s' \<and> ainv (proj s')"
  using sim_step [of s k s'] inv_step [of s k s'] coarse.inv_step [of "proj s" _ "proj s'"]
  by (auto split: option.splits)

end

sublocale refined_invariant \<subseteq> pulled: step_invariant cstep "\<lambda>s. inv s \<and> ainv (proj s)"
  by unfold_locales (rule pulled_step)

text \<open>
  A quantity of the state that every step of some kind decreases, and no other step increases,
  bounds how many steps of that kind a run can have.
\<close>

locale step_bound = step_invariant step inv
  for step :: "'s \<Rightarrow> 'l \<Rightarrow> 's \<Rightarrow> bool" and inv :: "'s \<Rightarrow> bool" +
  fixes counted :: "'l \<Rightarrow> bool" and left :: "'s \<Rightarrow> nat"
  assumes counts: "step s l s' \<Longrightarrow> inv s \<Longrightarrow> left s' + (if counted l then 1 else 0) \<le> left s"
begin

lemma run_bound: "run_path step s ls s' \<Longrightarrow> inv s \<Longrightarrow> length (filter counted ls) + left s' \<le> left s"
proof (induction rule: run_path.induct)
  case (run_cons s l s' ls s'')
  from run_cons.IH inv_step [OF run_cons(1,4)] have "length (filter counted ls) + left s'' \<le> left s'" .
  with counts [OF run_cons(1,4)] show ?case by (simp split: if_splits)
qed simp

end

text \<open>A relation that is given as a function of the label can be run along a list of labels.\<close>

fun run_next :: "('l \<Rightarrow> 's \<Rightarrow> 's option) \<Rightarrow> 'l list \<Rightarrow> 's \<Rightarrow> 's option" where
  "run_next nxt [] s = Some s"
| "run_next nxt (l # ls) s = (case nxt l s of None \<Rightarrow> None | Some s' \<Rightarrow> run_next nxt ls s')"

lemma run_next_path: "run_next nxt ls s = Some s' \<Longrightarrow> run_path (\<lambda>s l s'. nxt l s = Some s') s ls s'"
  by (induction ls arbitrary: s) (auto simp: run_path_Cons_iff split: option.splits)

end
