(* ===== verification/Joint.thy ===== *)
theory Joint
  imports Handle Refinement
begin

text \<open>
  A session together with its process.  The process is any step relation whose labels say how
  they touch the session: which method they are inside of, what they ask of the leak detector
  that both share, and when a method returns.  The joint relation synchronises the two, so that
  a run of it is a run of the session (theory \<open>Session\<close>) in which every answer of the process
  comes from the process's own goroutines.
\<close>

section \<open>Events of a process\<close>

text \<open>
  \<open>Own\<close> is an action of one of the process's goroutines, \<open>Inside\<close> one of the goroutine that has
  called a method; both may call the detector.  \<open>CtxSeen\<close> is the moment at which the context of the
  session, which the process may hold on to, is done for the process.  The other events are
  returns of methods, and panics, with the method whose caller panics.
\<close>

datatype proc_event =
    Own "det_op option" | Inside proc_call "det_op option" | Returns proc_call "unit go"
  | WaitReturned int "go_error option" | CleanReturned bool | Panics "proc_call option" | CtxSeen

fun event_call :: "proc_event \<Rightarrow> proc_call option" where
  "event_call (Own x) = None"
| "event_call (Inside c x) = Some c"
| "event_call (Returns c r) = Some c"
| "event_call (WaitReturned code err) = Some CallWait"
| "event_call (CleanReturned b) = Some CallCleanup"
| "event_call (Panics c) = c"
| "event_call CtxSeen = None"

fun event_det :: "proc_event \<Rightarrow> det_op option" where
  "event_det (Own x) = x"
| "event_det (Inside c x) = x"
| "event_det e = None"

fun event_panics :: "proc_event \<Rightarrow> bool" where
  "event_panics (Returns c r) = is_panic r"
| "event_panics (Panics c) = True"
| "event_panics e = False"

text \<open>What the session sees of an event.\<close>

fun event_label :: "proc_event \<Rightarrow> session_label option" where
  "event_label (Own x) = map_option ProcDet x"
| "event_label (Inside c x) = map_option ProcDet x"
| "event_label (Returns c r) = Some (StartReturns r)"
| "event_label (WaitReturned code err) = Some (WaitReturns code err)"
| "event_label (CleanReturned b) = Some (CleanupReturns b)"
| "event_label (Panics c) = Some ProcPanics"
| "event_label CtxSeen = None"

section \<open>The joint relation\<close>

text \<open>The goroutine of the session that is about to call, or is inside, a method.\<close>

definition calls_now :: "session \<Rightarrow> proc_call \<Rightarrow> bool" where
  "calls_now s c \<longleftrightarrow> (if c = CallCleanup then s_kill s = KillCleanup else next_call (s_main s) = Some c)"

definition caller_ready :: "session \<Rightarrow> proc_event \<Rightarrow> bool" where
  "caller_ready s e \<longleftrightarrow> (case event_call e of None \<Rightarrow> True | Some c \<Rightarrow> calls_now s c) \<and> (e = CtxSeen \<longrightarrow> s_ctx s)"

text \<open>Steps of the session that are not the answer of a process.\<close>

fun session_only :: "session_label \<Rightarrow> bool" where
  "session_only (StartReturns r) = False" | "session_only (WaitReturns code err) = False"
| "session_only WaitPanics = False" | "session_only (ProcDet x) = False" | "session_only ProcPanics = False"
| "session_only (CleanupReturns b) = False" | "session_only CleanupPanics = False"
| "session_only l = True"

datatype 'k joint_label = OfSession session_label | OfProcess 'k | OfMisuse 'k

text \<open>A call of the detector that panics ends the server, like any other panic.\<close>

inductive joint_step ::
  "session_env \<Rightarrow> ('p \<Rightarrow> 'k \<Rightarrow> 'p \<Rightarrow> bool) \<Rightarrow> ('k \<Rightarrow> proc_event) \<Rightarrow> session \<times> 'p \<Rightarrow> 'k joint_label \<Rightarrow> session \<times> 'p \<Rightarrow> bool"
  for env :: session_env and pstep :: "'p \<Rightarrow> 'k \<Rightarrow> 'p \<Rightarrow> bool" and ev :: "'k \<Rightarrow> proc_event" where
  joint_session: "session_step env s l s' \<Longrightarrow> session_only l \<Longrightarrow> joint_step env pstep ev (s, p) (OfSession l) (s', p)"
| joint_quiet: "s_crash s = None \<Longrightarrow> caller_ready s (ev k) \<Longrightarrow> pstep p k p' \<Longrightarrow> event_label (ev k) = None \<Longrightarrow>
     joint_step env pstep ev (s, p) (OfProcess k) (s, p')"
| joint_event: "caller_ready s (ev k) \<Longrightarrow> pstep p k p' \<Longrightarrow> event_label (ev k) = Some l \<Longrightarrow> session_step env s l s' \<Longrightarrow>
     joint_step env pstep ev (s, p) (OfProcess k) (s', p')"
| joint_misuse: "caller_ready s (ev k) \<Longrightarrow> pstep p k p' \<Longrightarrow> event_det (ev k) = Some x \<Longrightarrow>
     is_panic (fst (det_apply x (s_detector s))) \<Longrightarrow> session_step env s ProcPanics s' \<Longrightarrow>
     joint_step env pstep ev (s, p) (OfMisuse k) (s', p')"

inductive_cases joint_stepE: "joint_step env pstep ev (s, p) l (s', p')"

fun joint_seen :: "('k \<Rightarrow> proc_event) \<Rightarrow> 'k joint_label \<Rightarrow> session_label option" where
  "joint_seen ev (OfSession l) = Some l"
| "joint_seen ev (OfProcess k) = event_label (ev k)"
| "joint_seen ev (OfMisuse k) = Some ProcPanics"

text \<open>Every run of a session with its process is a run of the session.\<close>

interpretation joint: refined_invariant "joint_step env pstep ev" "\<lambda>x. True" "session_step env" fst
    "joint_seen ev" "session_inv env" for env pstep ev
  by unfold_locales (auto elim: joint_step.cases)

lemma joint_session_run:
  "run_path (joint_step env pstep ev) (s, p) ks (s', p') \<Longrightarrow>
     run_path (session_step env) s (List.map_filter (joint_seen ev) ks) s'"
  using joint.run_sim [of env pstep ev "(s, p)" ks "(s', p')"] by simp

lemma joint_process_run:
  "run_path (joint_step env pstep ev) x ks y \<Longrightarrow> \<exists>ls. run_path pstep (snd x) ls (snd y)"
proof (induction rule: run_path.induct)
  case (run_nil x)
  show ?case by (intro exI [of _ "[]"]) simp
next
  case (run_cons x k y ks z)
  then obtain ls where "run_path pstep (snd y) ls (snd z)" by blast
  with run_cons(1) show ?case
    by cases (auto simp del: split_paired_Ex intro: run_path.run_cons)
qed

text \<open>The relation as a function of the label, to run a schedule.\<close>

fun joint_next ::
  "session_env \<Rightarrow> ('k \<Rightarrow> 'p \<Rightarrow> 'p option) \<Rightarrow> ('k \<Rightarrow> proc_event) \<Rightarrow> 'k joint_label \<Rightarrow> session \<times> 'p \<Rightarrow> (session \<times> 'p) option" where
  "joint_next env pnext ev (OfSession l) (s, p) =
     (if session_only l then map_option (\<lambda>s'. (s', p)) (session_next env l s) else None)"
| "joint_next env pnext ev (OfProcess k) (s, p) =
     (if caller_ready s (ev k)
      then (case pnext k p of
              None \<Rightarrow> None
            | Some p' \<Rightarrow>
                (case event_label (ev k) of
                   None \<Rightarrow> Some (s, p')
                 | Some l \<Rightarrow> map_option (\<lambda>s'. (s', p')) (session_next env l s)))
      else None)"
| "joint_next env pnext ev (OfMisuse k) (s, p) =
     (case event_det (ev k) of
        Some x \<Rightarrow>
          if caller_ready s (ev k) \<and> is_panic (fst (det_apply x (s_detector s)))
          then (case pnext k p of
                  None \<Rightarrow> None
                | Some p' \<Rightarrow> map_option (\<lambda>s'. (s', p')) (session_next env ProcPanics s))
          else None
      | None \<Rightarrow> None)"

fun joint_exec ::
  "session_env \<Rightarrow> ('k \<Rightarrow> 'p \<Rightarrow> 'p option) \<Rightarrow> ('k \<Rightarrow> proc_event) \<Rightarrow> 'k joint_label list \<Rightarrow> session \<times> 'p \<Rightarrow> (session \<times> 'p) option" where
  "joint_exec env pnext ev [] x = Some x"
| "joint_exec env pnext ev (l # ls) x =
     (if s_crash (fst x) = None
      then (case joint_next env pnext ev l x of None \<Rightarrow> None | Some y \<Rightarrow> joint_exec env pnext ev ls y)
      else None)"

lemma joint_next_step:
  assumes "\<And>k p p'. pnext k p = Some p' \<Longrightarrow> pstep p k p'"
    and "joint_next env pnext ev l x = Some y" and "s_crash (fst x) = None"
  shows "joint_step env pstep ev x l y"
proof -
  obtain s p where x: "x = (s, p)" by (metis prod.exhaust)
  show ?thesis
  proof (cases l)
    case (OfSession m)
    with assms(2,3) show ?thesis
      by (auto simp: x session_step_next split: if_splits intro: joint_session)
  next
    case (OfProcess k)
    with assms(2) obtain p' where k: "caller_ready s (ev k)" "pnext k p = Some p'"
      by (auto simp: x split: if_splits option.splits)
    show ?thesis
    proof (cases "event_label (ev k)")
      case None
      with assms(2,3) OfProcess k show ?thesis by (auto simp: x intro: joint_quiet assms(1))
    next
      case (Some m)
      with assms(2,3) OfProcess k show ?thesis
        by (auto simp: x session_step_next intro: joint_event [where l = m] assms(1))
    qed
  next
    case (OfMisuse k)
    with assms(2,3) show ?thesis
      by (auto simp: x session_step_next intro!: joint_misuse assms(1) split: if_splits option.splits)
  qed
qed

lemma joint_exec_run:
  assumes "\<And>k p p'. pnext k p = Some p' \<Longrightarrow> pstep p k p'"
  shows "joint_exec env pnext ev ls x = Some y \<Longrightarrow> run_path (joint_step env pstep ev) x ls y"
  by (induction ls arbitrary: x)
    (auto simp: run_path_Cons_iff simp del: split_paired_Ex intro: joint_next_step [OF assms]
      split: option.splits if_splits)

section \<open>The names of the process in the detector\<close>

definition proc_out :: "session \<Rightarrow> string set" where
  "proc_out s = {n \<in> outstanding (s_detector s). \<not> session_name n}"

lemma det_call_other: "{n \<in> outstanding (s_detector (det_call x s)). n \<noteq> det_name x} =
    {n \<in> outstanding (s_detector s). n \<noteq> det_name x}"
  by (cases x) (auto simp: det_call_def detector_add_def detector_done_def detector_wg_add_def outstanding_def Let_def
      split: option.splits if_splits)

lemma proc_out_det_call [simp]:
  assumes "session_name (det_name x)"
  shows "proc_out (det_call x s) = proc_out s"
  using det_call_other [of x s] assms by (auto simp: proc_out_def set_eq_iff)

lemma proc_out_spawn [simp]: "session_name n \<Longrightarrow> proc_out (spawn n s) = proc_out s"
  using proc_out_det_call [of "DetAdd n ''session.go''" s] by (simp add: proc_out_def)

lemma proc_out_cong: "s_detector s' = s_detector s \<Longrightarrow> proc_out s' = proc_out s"
  by (simp add: proc_out_def)

lemma proc_out_upd [simp]:
  "proc_out (s\<lparr>s_main := m\<rparr>) = proc_out s" "proc_out (s\<lparr>s_watch := w\<rparr>) = proc_out s"
  "proc_out (s\<lparr>s_calls := cs\<rparr>) = proc_out s" "proc_out (s\<lparr>s_log := lg\<rparr>) = proc_out s"
  "proc_out (s\<lparr>s_crash := cr\<rparr>) = proc_out s" "proc_out (s\<lparr>s_copiers := ns\<rparr>) = proc_out s"
  "proc_out (s\<lparr>s_kill := kl\<rparr>) = proc_out s" "proc_out (s\<lparr>s_waited := wt\<rparr>) = proc_out s"
  "proc_out (s\<lparr>s_ctx := c\<rparr>) = proc_out s" "proc_out (s\<lparr>s_rejected := n\<rparr>) = proc_out s"
  by (simp_all add: proc_out_def)

lemma ctx_cancel_name [simp]: "session_name ''session: context cancel''"
  by (simp add: session_name_def)

lemma proc_out_start: "proc_out (start_step env pc r s) = proc_out s"
  by (cases "(env, pc, r, s)" rule: start_step.cases) (auto simp: session_ops split: go.splits)

lemma copier_name:
  assumes "session_inv env s" and "n \<in> s_copiers s"
  shows "session_name n"
  using assms started_names_session [of n "se_pty env" "s_main s"] by (auto simp: session_inv_def det_ok_def)

text \<open>A step of the session leaves the process's names alone; the first \<open>Run\<close> starts with none.\<close>

lemma proc_out_step:
  assumes "session_step env s l s'" and "session_inv env s" and "\<not> (\<exists>x. l = ProcDet x)"
  shows "proc_out s' = (if l = RunCall \<and> s_main s = MainIdle then {} else proc_out s)"
  using assms
proof (cases rule: session_step.cases)
  case run_call
  from assms(2) have "s_main s = MainIdle \<longleftrightarrow> locked (s_started s) = 0"
    by (auto simp: session_inv_def exit_inv_def Let_def)
  with run_call show ?thesis
    by (cases "locked (s_started s) = 0") (auto simp: run_called_simps proc_out_def)
next
  case (main_fin f lines f' t)
  then show ?thesis using finalize_step_frame(2) [OF main_fin(6)] by (simp add: proc_out_def)
next
  case (watch_fin f lines f' t)
  then show ?thesis using finalize_step_frame(2) [OF watch_fin(6)] by (simp add: proc_out_def)
next
  case (copier_returns name)
  then show ?thesis using copier_name [OF assms(2)] by simp
qed (use assms(3) in \<open>auto simp: proc_out_start session_ops split: option.splits\<close>)

text \<open>What a step of the session does to the crash flag, the calls, and the results of \<open>Wait\<close>.\<close>

lemma session_only_effect:
  assumes "session_step env s l s'" and "session_only l" and "session_inv env s" and "session_inv env s'"
  shows "s_crash s' = None \<and> s_calls s' = s_calls s \<and> s_waited s' = s_waited s"
proof -
  from assms(4) have "s_crash s' \<noteq> Some CrashDetector" by (simp add: session_inv_def det_ok_def track_def)
  moreover have "s_crash s = None" using assms(1) by (auto simp: session_step_next)
  moreover have "s_crash (det_call x s) = None \<or> s_crash (det_call x s) = Some CrashDetector" for x
    using \<open>s_crash s = None\<close> by (auto simp: det_call_def split: prod.splits go.splits)
  moreover have "s_crash s' \<noteq> Some CrashProcess \<and> s_calls s' = s_calls s \<and> s_waited s' = s_waited s"
    using assms(1,2)
  proof (cases rule: session_step.cases)
    case run_call
    then show ?thesis by (cases "locked (s_started s) = 0") (auto simp: run_called_simps)
  next
    case (main_fin f lines f' t)
    then show ?thesis using finalize_step_frame(7,8,9) [OF main_fin(6)] by simp
  next
    case (watch_fin f lines f' t)
    then show ?thesis using finalize_step_frame(7,8,9) [OF watch_fin(6)] by simp
  next
    case watch_returns
    then show ?thesis using calculation(3) [of "DetDone ''session: context cancel''"] by auto
  next
    case (copier_returns name)
    then show ?thesis using calculation(3) [of "DetDone name"] by auto
  qed auto
  ultimately show ?thesis by (cases "s_crash s'"; cases "the (s_crash s')") auto
qed

text \<open>The steps of the session in which a method returns.\<close>

lemma idle_no_calls:
  assumes "session_inv env s" and "s_main s = MainIdle"
  shows "s_calls s = []"
proof -
  from assms have "main_calls s = []" and i: "exit_inv s" by (simp_all add: session_inv_def order_inv_def)
  moreover from i assms(2) have "count_list (s_calls s) CallCleanup = 0"
    by (auto simp: exit_inv_def Let_def split: if_splits)
  ultimately show ?thesis
    by (cases "s_calls s") (auto simp: main_calls_def count_list_0_iff filter_empty_conv split: if_splits)
qed

lemma starting_not_killed:
  assumes "session_inv env s" and "starting (s_main s)"
  shows "s_kill s = KillIdle"
proof -
  from assms have "exit_inv s" "main_rank (s_main s) = 0" by (auto simp: session_inv_def starting_def)
  with assms(2) show ?thesis by (auto simp: exit_inv_def Let_def)
qed

lemma returns_effect:
  assumes "session_step env s (StartReturns r) s'" and "session_inv env s" and "calls_now s c" and "\<not> is_panic r"
    and "s_crash s' \<noteq> Some CrashDetector"
  shows "s_crash s' = None \<and> s_calls s' = s_calls s @ [c] \<and> s_waited s' = s_waited s"
proof -
  from assms(1) have st: "s_crash s = None" "starting (s_main s)" "s' = start_step env (s_main s) r s"
    by (auto elim: session_step.cases)
  have c: "next_call (s_main s) = Some c"
    using assms(3) starting_not_killed [OF assms(2) st(2)] by (auto simp: calls_now_def split: if_splits)
  have d: "s_crash (det_call x t) \<noteq> Some CrashProcess" if "s_crash t \<noteq> Some CrashProcess" for x t
    using that by (auto simp: det_call_def split: prod.splits go.splits)
  have "s_crash s' \<noteq> Some CrashProcess"
    using st c assms(4) by (cases "(env, s_main s, r, s)" rule: start_step.cases; cases r)
      (auto simp: starting_def session_ops d)
  moreover have "s_calls s' = s_calls s @ [c]"
    using st c assms(4) by (cases "(env, s_main s, r, s)" rule: start_step.cases; cases r)
      (auto simp: starting_def session_ops)
  ultimately show ?thesis using assms(5) start_step_frame(6) [OF st(2)] st(3)
    by (cases "s_crash s'"; cases "the (s_crash s')") auto
qed

text \<open>The context of a session stays done.\<close>

lemma s_ctx_mono: "session_step env s l s' \<Longrightarrow> s_ctx s \<Longrightarrow> s_ctx s'"
proof (induction rule: session_step.induct)
  case (run_call s)
  then show ?case by (cases "locked (s_started s) = 0") (auto simp: run_called_simps)
next
  case (start_returns s r)
  then show ?case using start_step_frame(5) [of s env r] by simp
next
  case (main_fin s f lines f' s')
  then show ?case using finalize_step_frame(3) [OF main_fin(4)] by simp
next
  case (watch_fin s f lines f' s')
  then show ?case using finalize_step_frame(3) [OF watch_fin(4)] by simp
qed (auto simp: session_ops split: option.splits)

text \<open>What a process knows only from the context it has been given.\<close>

lemma joint_ctx_seen:
  assumes "run_path (joint_step env pstep ev) x ks y" and "seen (snd x) \<Longrightarrow> s_ctx (fst x)"
    and source: "\<And>p k p'. pstep p k p' \<Longrightarrow> seen p' \<Longrightarrow> seen p \<or> ev k = CtxSeen"
  shows "seen (snd y) \<Longrightarrow> s_ctx (fst y)"
  using assms(1,2)
proof (induction rule: run_path.induct)
  case (run_cons x k y ks z)
  have "s_ctx (fst y)" if "seen (snd y)"
    using run_cons(1,5) that
  proof cases
    case (joint_session s l s' p)
    with run_cons(5) that show ?thesis by (auto dest: s_ctx_mono)
  next
    case (joint_quiet s l p p')
    with run_cons(5) that source [OF joint_quiet(6)] show ?thesis by (auto simp: caller_ready_def)
  next
    case (joint_event s l p p' m s')
    with run_cons(5) that source [OF joint_event(5)] s_ctx_mono [OF joint_event(7)] show ?thesis by auto
  next
    case (joint_misuse s l p p' m s')
    with run_cons(5) that source [OF joint_misuse(5)] s_ctx_mono [OF joint_misuse(8)] show ?thesis by auto
  qed
  with run_cons.IH run_cons.prems show ?case by simp
qed simp

section \<open>Processes that go together with a session\<close>

definition needs_init :: "proc_event \<Rightarrow> bool" where
  "needs_init e \<longleftrightarrow> event_call e \<notin> {None, Some CallInit}"

definition waited_after :: "proc_event \<Rightarrow> (int \<times> go_error option) option \<Rightarrow> (int \<times> go_error option) option" where
  "waited_after e w = (case e of WaitReturned code err \<Rightarrow> Some (code, err) | _ \<Rightarrow> w)"

text \<open>
  The contract: no panic in the states that a session can bring the process into, and calls of
  the detector that are legal for the names \<open>live\<close> that the process has in it.
\<close>

locale session_process =
  fixes pstep :: "'p \<Rightarrow> 'k \<Rightarrow> 'p \<Rightarrow> bool"
    and ev :: "'k \<Rightarrow> proc_event"
    and pinv inited :: "'p \<Rightarrow> bool"
    and live :: "'p \<Rightarrow> string set"
    and waited :: "'p \<Rightarrow> (int \<times> go_error option) option"
  assumes p_safe: "pstep p k p' \<Longrightarrow> pinv p \<Longrightarrow> (needs_init (ev k) \<longrightarrow> inited p) \<Longrightarrow> pinv p' \<and> \<not> event_panics (ev k)"
    and p_inited: "pstep p k p' \<Longrightarrow> pinv p \<Longrightarrow> inited p' \<longleftrightarrow> inited p \<or> (\<exists>r. ev k = Returns CallInit r)"
    and p_waited: "pstep p k p' \<Longrightarrow> pinv p \<Longrightarrow> waited p' = waited_after (ev k) (waited p)"
    and p_det: "pstep p k p' \<Longrightarrow> pinv p \<Longrightarrow> (needs_init (ev k) \<longrightarrow> inited p) \<Longrightarrow>
      (case event_det (ev k) of
         None \<Rightarrow> live p' = live p
       | Some x \<Rightarrow> \<not> session_name (det_name x) \<and> spec_op x (live p) = Some (live p'))"
    and p_idle: "pinv p \<Longrightarrow> \<not> inited p \<Longrightarrow> live p = {}"
begin

definition joint_ok :: "session_env \<Rightarrow> session \<times> 'p \<Rightarrow> bool" where
  "joint_ok env x \<longleftrightarrow> (case x of (s, p) \<Rightarrow>
     session_inv env s \<and> begun s \<and> s_crash s = None \<and> pinv p \<and> proc_out s = live p \<and>
     inited p = (CallInit \<in> set (s_calls s)) \<and> s_waited s = waited p)"

lemma ready_inited:
  assumes "joint_ok env (s, p)" and "caller_ready s e" and "needs_init e"
  shows "inited p"
proof -
  from assms(2,3) obtain c where c: "event_call e = Some c" "c \<noteq> CallInit" "calls_now s c"
    by (auto simp: caller_ready_def needs_init_def split: option.splits)
  from assms(1) have i: "session_inv env s" "begun s" "inited p = (CallInit \<in> set (s_calls s))"
    by (simp_all add: joint_ok_def)
  have "s_calls s \<noteq> []"
  proof (cases "c = CallCleanup")
    case True
    with c i show ?thesis using kill_begun by (simp add: calls_now_def)
  next
    case False
    with c have "s_main s \<notin> {MainIdle, MainInit}" by (auto simp: calls_now_def)
    with i(2) show ?thesis by (simp add: begun_def)
  qed
  with i(2,3) show ?thesis by (cases "s_calls s") (auto simp: begun_def)
qed

lemma proc_det_step:
  assumes "session_step env s (ProcDet x) s'" and "session_inv env s" and "proc_out s = L"
    and "\<not> session_name (det_name x)" and "spec_op x L = Some L'"
  shows "proc_out s' = L' \<and> s_crash s' = None \<and> s_calls s' = s_calls s \<and> s_waited s' = s_waited s"
proof -
  from assms(1) obtain d where d: "det_apply x (s_detector s) = (Ok (), d)" "s' = s\<lparr>s_detector := d\<rparr>" "s_crash s = None"
    by (auto elim: session_step.cases)
  have "det_inv (s_detector s)" using assms(2) by (simp add: session_inv_def det_ok_def track_def)
  from det_apply_spec [OF this, of x] d(1) obtain A where "spec_op x (outstanding (s_detector s)) = Some A" "outstanding d = A"
    by (auto split: option.splits)
  with assms(3-5) have "proc_out s' = L'"
    by (cases x) (auto simp: proc_out_def d(2) split: if_splits)
  with d show ?thesis by simp
qed

lemma det_legal:
  assumes "session_inv env s" and "proc_out s = L" and "\<not> session_name (det_name x)" and "spec_op x L \<noteq> None"
  shows "\<not> is_panic (fst (det_apply x (s_detector s)))"
proof -
  have inv: "det_inv (s_detector s)" using assms(1) by (simp add: session_inv_def det_ok_def track_def)
  have "spec_op x (outstanding (s_detector s)) \<noteq> None"
    using assms(2-4) by (cases x) (auto simp: proc_out_def split: if_splits)
  with det_apply_spec [OF inv, of x] show ?thesis by auto
qed

lemma event_label_det: "event_label e = Some (ProcDet x) \<longleftrightarrow> event_det e = Some x"
  by (cases e) auto

lemma joint_session_ok:
  assumes "session_step env s l s'" and "session_only l" and "joint_ok env (s, p)"
  shows "joint_ok env (s', p)"
proof -
  from assms(3) have i: "session_inv env s" "begun s" "pinv p" "proc_out s = live p"
      "inited p = (CallInit \<in> set (s_calls s))" "s_waited s = waited p"
    by (simp_all add: joint_ok_def)
  have i': "session_inv env s'" by (rule sess.inv_step [OF assms(1) i(1)])
  note e = session_only_effect [OF assms(1,2) i(1) i']
  have "live p = {}" if "s_main s = MainIdle"
    using p_idle [OF i(3)] i(5) idle_no_calls [OF i(1) that] by simp
  moreover have "\<not> (\<exists>x. l = ProcDet x)" using assms(2) by auto
  ultimately have "proc_out s' = live p"
    using proc_out_step [OF assms(1) i(1)] i(4) by (auto split: if_splits)
  then show ?thesis using e i i' begun_step [OF assms(1) i(1,2)] by (simp add: joint_ok_def)
qed

lemma joint_event_ok:
  assumes step: "session_step env s l s'" and l: "event_label (ev k) = Some l" and ready: "caller_ready s (ev k)"
    and p: "pstep p k p'" and ok: "joint_ok env (s, p)"
  shows "joint_ok env (s', p')"
proof -
  from ok have i: "session_inv env s" "begun s" "s_crash s = None" "pinv p" "proc_out s = live p"
      "inited p = (CallInit \<in> set (s_calls s))" "s_waited s = waited p"
    by (simp_all add: joint_ok_def)
  have init: "needs_init (ev k) \<longrightarrow> inited p" using ready_inited [OF ok ready] by blast
  have safe: "pinv p'" "\<not> event_panics (ev k)" using p_safe [OF p i(4) init] by simp_all
  note changes = p_inited [OF p i(4)] p_waited [OF p i(4)] p_det [OF p i(4) init]
  have i': "session_inv env s'" by (rule sess.inv_step [OF step i(1)])
  then have nd: "s_crash s' \<noteq> Some CrashDetector" by (simp add: session_inv_def det_ok_def track_def)
  have quiet: "proc_out s' = proc_out s" if "\<not> (\<exists>x. l = ProcDet x)" "l \<noteq> RunCall"
    using proc_out_step [OF step i(1) that(1)] that(2) by simp
  have "s_crash s' = None \<and> proc_out s' = live p' \<and> inited p' = (CallInit \<in> set (s_calls s')) \<and> s_waited s' = waited p'"
  proof (cases "ev k")
    case (Returns c r)
    with l step have st: "session_step env s (StartReturns r) s'" by simp
    have "calls_now s c" using ready Returns by (simp add: caller_ready_def)
    from returns_effect [OF st i(1) this _ nd] safe(2) Returns changes quiet i l show ?thesis
      by (auto simp: waited_after_def)
  next
    case (WaitReturned code err)
    with l step have "session_step env s (session_label.WaitReturns code err) s'" by simp
    then have "s' = wait_returned env code err s" by (auto elim: session_step.cases)
    with WaitReturned changes quiet i l show ?thesis
      by (cases err) (auto simp: waited_after_def session_ops)
  next
    case (CleanReturned b)
    with l step have "session_step env s (CleanupReturns b) s'" by simp
    then have "s' = kill_returned env b s" by (auto elim: session_step.cases)
    with CleanReturned changes quiet i l show ?thesis
      by (auto simp: waited_after_def session_ops)
  next
    case (Panics c)
    with safe show ?thesis by simp
  next
    case (Own y)
    with l obtain x where x: "y = Some x" "l = ProcDet x" by auto
    with proc_det_step [of env s x s' "live p" "live p'"] step i Own changes show ?thesis
      by (auto simp: waited_after_def)
  next
    case (Inside c y)
    with l obtain x where x: "y = Some x" "l = ProcDet x" by auto
    with proc_det_step [of env s x s' "live p" "live p'"] step i Inside changes show ?thesis
      by (auto simp: waited_after_def)
  next
    case CtxSeen
    with l show ?thesis by simp
  qed
  then show ?thesis using i' safe(1) begun_step [OF step i(1,2)] by (simp add: joint_ok_def)
qed

lemma joint_ok_step: "joint_step env pstep ev x l y \<Longrightarrow> joint_ok env x \<Longrightarrow> joint_ok env y"
proof (induction rule: joint_step.induct)
  case (joint_session s l s' p)
  then show ?case by (rule joint_session_ok)
next
  case (joint_quiet s k p p')
  then have init: "needs_init (ev k) \<longrightarrow> inited p" using ready_inited by blast
  from joint_quiet(5) have i: "pinv p" by (simp add: joint_ok_def)
  have "event_det (ev k) = None" "\<not> (\<exists>r. ev k = Returns CallInit r)" "waited_after (ev k) w = w" for w
    using joint_quiet(4) by (cases "ev k"; simp add: waited_after_def)+
  with joint_quiet p_safe [OF joint_quiet(3) i init] p_inited [OF joint_quiet(3) i]
    p_waited [OF joint_quiet(3) i] p_det [OF joint_quiet(3) i init]
  show ?case by (simp add: joint_ok_def)
next
  case (joint_event s k p p' l s')
  show ?case by (rule joint_event_ok [OF joint_event(4,3,1,2,5)])
next
  case (joint_misuse s k p p' x s')
  then have init: "needs_init (ev k) \<longrightarrow> inited p" using ready_inited by blast
  from joint_misuse(6) have i: "pinv p" "session_inv env s" "proc_out s = live p" by (simp_all add: joint_ok_def)
  from p_det [OF joint_misuse(2) i(1) init] joint_misuse(3)
  have "\<not> session_name (det_name x)" "spec_op x (live p) \<noteq> None" by simp_all
  from det_legal [OF i(2,3) this] joint_misuse(4) show ?case by simp
qed

end

sublocale session_process \<subseteq> together: step_invariant "joint_step env pstep ev" "joint_ok env" for env
  by unfold_locales (rule joint_ok_step)

context session_process
begin

lemma joint_ok_new: "pinv p \<Longrightarrow> \<not> inited p \<Longrightarrow> waited p = None \<Longrightarrow> joint_ok env (new_session lg, p)"
  using p_idle [of p]
  by (simp add: joint_ok_def session_inv_def)
    (simp add: new_session_def begun_def proc_out_def)

lemma joint_reachable:
  assumes "run_path (joint_step env pstep ev) (new_session lg, p0) ks (s, p)"
    and "pinv p0" and "\<not> inited p0" and "waited p0 = None"
  shows "joint_ok env (s, p)"
  by (rule together.run_inv [OF assms(1) joint_ok_new [OF assms(2-4)]])

text \<open>
  A session with its process never crashes the server, and the detector knows exactly the
  goroutines of both.
\<close>

lemma joint_names:
  assumes "joint_ok env (s, p)"
  shows "outstanding (s_detector s) = live_names s \<union> live p"
proof -
  from assms have "{n \<in> outstanding (s_detector s). session_name n} = live_names s"
    by (simp add: joint_ok_def session_inv_def det_ok_def track_def)
  with assms show ?thesis by (auto simp: joint_ok_def proc_out_def)
qed

lemma joint_safe:
  assumes "run_path (joint_step env pstep ev) (new_session lg, p0) ks (s, p)"
    and "pinv p0" and "\<not> inited p0" and "waited p0 = None"
  shows "s_crash s = None \<and> outstanding (s_detector s) = live_names s \<union> live p"
  using joint_reachable [OF assms] joint_names by (simp add: joint_ok_def)

text \<open>What every step of the process keeps holds in a session with it.\<close>

lemma joint_keeps:
  assumes "run_path (joint_step env pstep ev) x ks y" and "joint_ok env x" and "h (snd x)"
    and keep: "\<And>p k p'. pstep p k p' \<Longrightarrow> pinv p \<Longrightarrow> h p \<Longrightarrow> h p'"
  shows "h (snd y)"
  using assms(1-3)
proof (induction rule: run_path.induct)
  case (run_cons x k y ks z)
  have "h (snd y)"
    using run_cons(1,4,5) by cases (auto simp: joint_ok_def intro: keep)
  then show ?case using run_cons.IH joint_ok_step [OF run_cons(1,4)] by simp
qed simp

text \<open>The exit status comes from the process's own \<open>Wait\<close>.\<close>

lemma joint_status:
  assumes "run_path (joint_step env pstep ev) (new_session lg, p0) ks (s, p)"
    and "pinv p0" and "\<not> inited p0" and "waited p0 = None" and "s_exits s = [status]"
  shows "(\<exists>err. waited p = Some (status, err)) \<or> (status = 255 \<and> (s_ctx s \<or> waited p = None))"
  using session_exit_status_cases [OF joint_session_run [OF assms(1)] assms(5)] joint_reachable [OF assms(1-4)]
  by (simp add: joint_ok_def)

end

end
