(* ===== verification/ReplLoop.thy ===== *)
theory ReplLoop
  imports Repl Joint
begin

text \<open>
  The goroutines of a read-eval-print loop (\<open>config/terminal/process.go\<close>): the loop that
  \<open>Start\<close> starts, and the session's goroutines inside \<open>Start\<close>, \<open>Wait\<close> and \<open>Cleanup\<close>, one
  action at a time.  The methods that only set fields are those of theory \<open>Repl\<close>.  The session
  and its loop together are the joint relation of theory \<open>Joint\<close>.
\<close>

section \<open>State\<close>

text \<open>Where \<open>Start\<close>, the loop, \<open>Wait\<close> and \<open>Cleanup\<close> stand.\<close>

datatype repl_start_pc = StartIdle | StartOpened | StartLeaving "unit go" | StartDone

datatype repl_loop_pc =
    LoopIdle | LoopWelcome | LoopCheck | LoopRead | LoopRecheck read_line | LoopEval string
  | LoopClosing | LoopSignal | LoopLeaving | LoopGone

datatype repl_wait_pc = ReplWaitIdle | ReplWaitBlocked | ReplWaitGot int | ReplWaitLeaving int | ReplWaitDone int

datatype repl_clean_pc = ReplCleanIdle | ReplCleanPipes | ReplCleanUnhang | ReplCleanTerminal | ReplCleanLeaving | ReplCleanDone

text \<open>
  The last three fields are no state of the program: what was read, which lines the loop's
  function was given, and what was written to the output.
\<close>

record 'm repl_sys =
  rs_repl :: "'m repl"
  rs_os :: "'m os"
  rs_inited :: bool
  rs_start :: repl_start_pc
  rs_loop :: repl_loop_pc
  rs_wait :: repl_wait_pc
  rs_clean :: repl_clean_pc
  rs_reads :: "read_line list"
  rs_lines :: "string list"
  rs_out :: string

definition repl_sys_init :: "'m repl \<Rightarrow> 'm os \<Rightarrow> 'm repl_sys" where
  "repl_sys_init r k =
     \<lparr>rs_repl = r, rs_os = k, rs_inited = False, rs_start = StartIdle, rs_loop = LoopIdle, rs_wait = ReplWaitIdle,
      rs_clean = ReplCleanIdle, rs_reads = [], rs_lines = [], rs_out = []\<rparr>"

definition loop_name :: "bool \<Rightarrow> string" where
  "loop_name isPty = (if isPty then ''terminal: pty loop'' else ''terminal: pipes loop'')"

abbreviation repl_wait_name :: string where
  "repl_wait_name \<equiv> ''terminal: Wait''"

abbreviation repl_cancelled :: "'m repl_sys \<Rightarrow> bool" where
  "repl_cancelled p \<equiv> r_cancel (rs_repl p) = Some True"

section \<open>The loops\<close>

datatype loop_label =
    LoopWelcomes | LoopChecks | LoopReads read_line | LoopRechecks | LoopEvals | LoopCloses | LoopSignals | LoopEnds

definition set_code :: "int \<Rightarrow> 'm repl_sys \<Rightarrow> 'm repl_sys" where
  "set_code code p = p\<lparr>rs_repl := (rs_repl p)\<lparr>r_exitCode := code\<rparr>\<rparr>"

text \<open>A call of \<open>Loop\<close>, and whether the loop goes on; None is the call of a nil function.\<close>

definition eval_line :: "repl_loop_pc \<Rightarrow> string \<Rightarrow> 'm repl_sys \<Rightarrow> 'm repl_sys option" where
  "eval_line over line p =
     (case r_loop (rs_repl p) of
        None \<Rightarrow> None
      | Some loop \<Rightarrow>
          (let ((exit, code), written) = loop line;
               p1 = p\<lparr>rs_lines := rs_lines p @ [line], rs_out := rs_out p @ written\<rparr>
           in Some (if exit then (set_code code p1)\<lparr>rs_loop := over\<rparr> else p1\<lparr>rs_loop := LoopCheck\<rparr>)))"

text \<open>The deferred \<open>close(repl.loopWaiter)\<close>; closing a closed or a nil channel panics.\<close>

definition signal_waiter :: "'m repl_sys \<Rightarrow> 'm repl_sys option" where
  "signal_waiter p =
     (if r_waiter (rs_repl p) = Some False
      then Some (p\<lparr>rs_repl := (rs_repl p)\<lparr>r_waiter := Some True\<rparr>, rs_loop := LoopLeaving\<rparr>) else None)"

text \<open>What \<open>ReadString\<close> gives without an error, and without its line feed, has none.\<close>

definition pipe_read_ok :: "read_line \<Rightarrow> bool" where
  "pipe_read_ok x \<longleftrightarrow> (case x of ReadLine line \<Rightarrow> nl \<notin> set line | ReadErr e \<Rightarrow> True)"

fun pipes_loop :: "loop_label \<Rightarrow> 'm repl_sys \<Rightarrow> 'm repl_sys option" where
  "pipes_loop LoopWelcomes p =
     (if rs_loop p = LoopWelcome
      then Some (p\<lparr>rs_out := rs_out p @ r_welcome (rs_repl p) @ [nl], rs_loop := LoopCheck\<rparr>) else None)"
| "pipes_loop LoopChecks p =
     (if rs_loop p = LoopCheck
      then Some (if repl_cancelled p then p\<lparr>rs_loop := LoopSignal\<rparr>
                 else p\<lparr>rs_out := rs_out p @ r_prompt (rs_repl p), rs_loop := LoopRead\<rparr>) else None)"
| "pipes_loop (LoopReads x) p =
     (if rs_loop p = LoopRead \<and> pipe_read_ok x
      then (let p1 = p\<lparr>rs_reads := rs_reads p @ [x]\<rparr>
            in Some (case x of
                       ReadErr e \<Rightarrow> (if e = EOF then p1 else set_code 255 p1)\<lparr>rs_loop := LoopSignal\<rparr>
                     | ReadLine line \<Rightarrow> p1\<lparr>rs_loop := LoopEval line\<rparr>)) else None)"
| "pipes_loop LoopEvals p = (case rs_loop p of LoopEval line \<Rightarrow> eval_line LoopSignal line p | _ \<Rightarrow> None)"
| "pipes_loop LoopSignals p = (if rs_loop p = LoopSignal then signal_waiter p else None)"
| "pipes_loop LoopEnds p = (if rs_loop p = LoopLeaving then Some (p\<lparr>rs_loop := LoopGone\<rparr>) else None)"
| "pipes_loop LoopRechecks p = None"
| "pipes_loop LoopCloses p = None"

text \<open>The context is checked again after a line was read; the terminals are closed at the end.\<close>

fun pty_loop :: "'m tty_lib \<Rightarrow> loop_label \<Rightarrow> 'm repl_sys \<Rightarrow> 'm repl_sys option" where
  "pty_loop lib LoopWelcomes p =
     (if rs_loop p = LoopWelcome
      then Some (p\<lparr>rs_out := rs_out p @ r_welcome (rs_repl p) @ [nl], rs_loop := LoopCheck\<rparr>) else None)"
| "pty_loop lib LoopChecks p =
     (if rs_loop p = LoopCheck
      then Some (p\<lparr>rs_loop := if repl_cancelled p then LoopClosing else LoopRead\<rparr>) else None)"
| "pty_loop lib (LoopReads x) p =
     (if rs_loop p = LoopRead then Some (p\<lparr>rs_reads := rs_reads p @ [x], rs_loop := LoopRecheck x\<rparr>) else None)"
| "pty_loop lib LoopRechecks p =
     (case rs_loop p of
        LoopRecheck x \<Rightarrow>
          Some (if repl_cancelled p then p\<lparr>rs_loop := LoopClosing\<rparr>
                else (case x of
                        ReadErr e \<Rightarrow> (set_code (if e = EOF then 0 else 255) p)\<lparr>rs_loop := LoopClosing\<rparr>
                      | ReadLine line \<Rightarrow> p\<lparr>rs_loop := LoopEval line\<rparr>))
      | _ \<Rightarrow> None)"
| "pty_loop lib LoopEvals p = (case rs_loop p of LoopEval line \<Rightarrow> eval_line LoopClosing line p | _ \<Rightarrow> None)"
| "pty_loop lib LoopCloses p =
     (if rs_loop p = LoopClosing
      then (let (t, k) = pair_close lib (r_terminal (rs_repl p)) (rs_os p)
            in Some (p\<lparr>rs_repl := (rs_repl p)\<lparr>r_terminal := t\<rparr>, rs_os := k, rs_loop := LoopSignal\<rparr>)) else None)"
| "pty_loop lib LoopSignals p = (if rs_loop p = LoopSignal then signal_waiter p else None)"
| "pty_loop lib LoopEnds p = (if rs_loop p = LoopLeaving then Some (p\<lparr>rs_loop := LoopGone\<rparr>) else None)"

definition loop_panics :: "'m repl_sys \<Rightarrow> bool" where
  "loop_panics p \<longleftrightarrow> (rs_loop p = LoopSignal \<and> r_waiter (rs_repl p) \<noteq> Some False) \<or>
     ((case rs_loop p of LoopEval line \<Rightarrow> True | _ \<Rightarrow> False) \<and> r_loop (rs_repl p) = None)"

section \<open>All goroutines\<close>

datatype repl_label =
    ReplMethod proc_call "unit go" | ReplOpens | ReplAddsLoop | ReplStartReturns "unit go"
  | ReplLoops loop_label | ReplLoopPanics
  | ReplWaitAdds | ReplWaitGets | ReplWaitLeaves | ReplWaitReturns int
  | ReplCleanCancels | ReplCleanPanics | ReplCleanClosesPipes | ReplCleanUnhangs | ReplCleanCloses | ReplCleanReturns

text \<open>
  \<open>Wait\<close> reads the exit code once the channel is closed, and before its deferred call.  The
  interface \<open>Process\<close> says that every method is called at most once; \<open>Init\<close> and \<open>Start\<close> are.
\<close>

fun repl_start_next :: "'m tty_lib \<Rightarrow> bool \<Rightarrow> repl_label \<Rightarrow> 'm repl_sys \<Rightarrow> 'm repl_sys option" where
  "repl_start_next lib isPty ReplOpens p =
     (if rs_start p = StartIdle
      then (case repl_start lib isPty (rs_repl p) (rs_os p) of
              (q, r, k) \<Rightarrow>
                Some (p\<lparr>rs_repl := r, rs_os := k,
                        rs_start := if is_ok q then StartOpened else StartLeaving (go_bind q (\<lambda>f. Ok ()))\<rparr>)) else None)"
| "repl_start_next lib isPty ReplAddsLoop p =
     (if rs_start p = StartOpened then Some (p\<lparr>rs_start := StartLeaving (Ok ()), rs_loop := LoopWelcome\<rparr>) else None)"
| "repl_start_next lib isPty (ReplStartReturns q) p =
     (if rs_start p = StartLeaving q then Some (p\<lparr>rs_start := StartDone\<rparr>) else None)"
| "repl_start_next lib isPty l p = None"

fun repl_wait_next :: "repl_label \<Rightarrow> 'm repl_sys \<Rightarrow> 'm repl_sys option" where
  "repl_wait_next ReplWaitAdds p =
     (if rs_wait p = ReplWaitIdle then Some (p\<lparr>rs_wait := ReplWaitBlocked\<rparr>) else None)"
| "repl_wait_next ReplWaitGets p =
     (if rs_wait p = ReplWaitBlocked
      then (case repl_wait (rs_repl p) of Some (code, err) \<Rightarrow> Some (p\<lparr>rs_wait := ReplWaitGot code\<rparr>) | None \<Rightarrow> None) else None)"
| "repl_wait_next ReplWaitLeaves p =
     (case rs_wait p of ReplWaitGot code \<Rightarrow> Some (p\<lparr>rs_wait := ReplWaitLeaving code\<rparr>) | _ \<Rightarrow> None)"
| "repl_wait_next (ReplWaitReturns code) p =
     (if rs_wait p = ReplWaitLeaving code then Some (p\<lparr>rs_wait := ReplWaitDone code\<rparr>) else None)"
| "repl_wait_next l p = None"

fun repl_clean_next :: "'m tty_lib \<Rightarrow> repl_label \<Rightarrow> 'm repl_sys \<Rightarrow> 'm repl_sys option" where
  "repl_clean_next lib ReplCleanCancels p =
     (if rs_clean p = ReplCleanIdle \<and> r_cancel (rs_repl p) \<noteq> None
      then Some (p\<lparr>rs_repl := (rs_repl p)\<lparr>r_cancel := Some True\<rparr>, rs_clean := ReplCleanPipes\<rparr>) else None)"
| "repl_clean_next lib ReplCleanPanics p =
     (if rs_clean p = ReplCleanIdle \<and> r_cancel (rs_repl p) = None then Some p else None)"
| "repl_clean_next lib ReplCleanClosesPipes p =
     (if rs_clean p = ReplCleanPipes
      then (let (ps, k) = close_pipes (r_pipes (rs_repl p)) (rs_os p)
            in Some (p\<lparr>rs_repl := (rs_repl p)\<lparr>r_pipes := ps\<rparr>, rs_os := k, rs_clean := ReplCleanUnhang\<rparr>)) else None)"
| "repl_clean_next lib ReplCleanUnhangs p =
     (if rs_clean p = ReplCleanUnhang
      then Some (p\<lparr>rs_os := unhang_hack (r_terminal (rs_repl p)) (rs_os p), rs_clean := ReplCleanTerminal\<rparr>) else None)"
| "repl_clean_next lib ReplCleanCloses p =
     (if rs_clean p = ReplCleanTerminal
      then (let (t, k) = pair_close lib (r_terminal (rs_repl p)) (rs_os p)
            in Some (p\<lparr>rs_repl := (rs_repl p)\<lparr>r_terminal := t\<rparr>, rs_os := k, rs_clean := ReplCleanLeaving\<rparr>)) else None)"
| "repl_clean_next lib ReplCleanReturns p =
     (if rs_clean p = ReplCleanLeaving then Some (p\<lparr>rs_clean := ReplCleanDone\<rparr>) else None)"
| "repl_clean_next lib l p = None"

definition repl_method_next :: "'m tty_lib \<Rightarrow> bool \<Rightarrow> proc_call \<Rightarrow> unit go \<Rightarrow> 'm repl_sys \<Rightarrow> 'm repl_sys option" where
  "repl_method_next lib isPty c q p =
     (if c \<in> {CallInit, CallStdout, CallStderr, CallStdin} \<and> (c = CallInit \<longrightarrow> \<not> rs_inited p)
      then (case repl_call lib isPty c (rs_repl p, rs_os p) of
              (q', r, k) \<Rightarrow>
                if q' = q then Some (p\<lparr>rs_repl := r, rs_os := k, rs_inited := rs_inited p \<or> c = CallInit\<rparr>) else None)
      else None)"

fun repl_next :: "'m tty_lib \<Rightarrow> bool \<Rightarrow> repl_label \<Rightarrow> 'm repl_sys \<Rightarrow> 'm repl_sys option" where
  "repl_next lib isPty (ReplMethod c q) p = repl_method_next lib isPty c q p"
| "repl_next lib isPty (ReplLoops l) p = (if isPty then pty_loop lib l p else pipes_loop l p)"
| "repl_next lib isPty ReplLoopPanics p = (if loop_panics p then Some p else None)"
| "repl_next lib isPty ReplOpens p = repl_start_next lib isPty ReplOpens p"
| "repl_next lib isPty ReplAddsLoop p = repl_start_next lib isPty ReplAddsLoop p"
| "repl_next lib isPty (ReplStartReturns q) p = repl_start_next lib isPty (ReplStartReturns q) p"
| "repl_next lib isPty ReplWaitAdds p = repl_wait_next ReplWaitAdds p"
| "repl_next lib isPty ReplWaitGets p = repl_wait_next ReplWaitGets p"
| "repl_next lib isPty ReplWaitLeaves p = repl_wait_next ReplWaitLeaves p"
| "repl_next lib isPty (ReplWaitReturns code) p = repl_wait_next (ReplWaitReturns code) p"
| "repl_next lib isPty l p = repl_clean_next lib l p"

definition repl_step :: "'m tty_lib \<Rightarrow> bool \<Rightarrow> 'm repl_sys \<Rightarrow> repl_label \<Rightarrow> 'm repl_sys \<Rightarrow> bool" where
  "repl_step lib isPty p l p' \<longleftrightarrow> repl_next lib isPty l p = Some p'"

text \<open>What the session sees of each action, and what it does to the leak detector.\<close>

fun repl_event :: "bool \<Rightarrow> repl_label \<Rightarrow> proc_event" where
  "repl_event isPty (ReplMethod c q) = Returns c q"
| "repl_event isPty ReplOpens = Inside CallStart None"
| "repl_event isPty ReplAddsLoop = Inside CallStart (Some (DetAdd (loop_name isPty) ''process.go''))"
| "repl_event isPty (ReplStartReturns q) = Returns CallStart q"
| "repl_event isPty (ReplLoops l) = Own (if l = LoopEnds then Some (DetDone (loop_name isPty)) else None)"
| "repl_event isPty ReplLoopPanics = Panics None"
| "repl_event isPty ReplWaitAdds = Inside CallWait (Some (DetAdd repl_wait_name ''process.go''))"
| "repl_event isPty ReplWaitGets = Inside CallWait None"
| "repl_event isPty ReplWaitLeaves = Inside CallWait (Some (DetDone repl_wait_name))"
| "repl_event isPty (ReplWaitReturns code) = WaitReturned code None"
| "repl_event isPty ReplCleanPanics = Panics (Some CallCleanup)"
| "repl_event isPty ReplCleanReturns = CleanReturned True"
| "repl_event isPty l = Inside CallCleanup None"

section \<open>The contract with the session\<close>

definition repl_live :: "bool \<Rightarrow> 'm repl_sys \<Rightarrow> string set" where
  "repl_live isPty p =
     (if rs_loop p \<in> {LoopIdle, LoopGone} then {} else {loop_name isPty}) \<union>
     (case rs_wait p of ReplWaitBlocked \<Rightarrow> {repl_wait_name} | ReplWaitGot code \<Rightarrow> {repl_wait_name} | _ \<Rightarrow> {})"

definition repl_waited :: "'m repl_sys \<Rightarrow> (int \<times> go_error option) option" where
  "repl_waited p = (case rs_wait p of ReplWaitDone code \<Rightarrow> Some (code, None) | _ \<Rightarrow> None)"

fun wait_code :: "repl_wait_pc \<Rightarrow> int option" where
  "wait_code (ReplWaitGot code) = Some code"
| "wait_code (ReplWaitLeaving code) = Some code"
| "wait_code (ReplWaitDone code) = Some code"
| "wait_code pc = None"

text \<open>
  The channel is closed exactly when the loop has signalled, and the code that \<open>Wait\<close> has
  taken is the one that the loop ended with.
\<close>

definition repl_inv :: "'m tty_lib \<Rightarrow> 'm repl_sys \<Rightarrow> bool" where
  "repl_inv lib p \<longleftrightarrow> open_safe lib \<and>
     (if rs_inited p
      then r_cancel (rs_repl p) \<noteq> None \<and> r_loop (rs_repl p) \<noteq> None \<and>
        r_waiter (rs_repl p) = Some (rs_loop p \<in> {LoopLeaving, LoopGone})
      else rs_start p = StartIdle \<and> rs_loop p = LoopIdle \<and> rs_wait p = ReplWaitIdle \<and> rs_clean p = ReplCleanIdle) \<and>
     (rs_start p \<in> {StartIdle, StartOpened} \<longrightarrow> rs_loop p = LoopIdle) \<and>
     (\<forall>q. rs_start p = StartLeaving q \<longrightarrow> \<not> is_panic q) \<and>
     (\<forall>code. wait_code (rs_wait p) = Some code \<longrightarrow>
        rs_loop p \<in> {LoopLeaving, LoopGone} \<and> r_exitCode (rs_repl p) = code)"

lemma loop_name_session [simp]: "\<not> session_name (loop_name isPty)" "\<not> session_name repl_wait_name"
    "loop_name isPty \<noteq> repl_wait_name" "repl_wait_name \<noteq> loop_name isPty"
  by (auto simp: session_name_def loop_name_def)

lemmas repl_next_defs = repl_step_def repl_method_next_def eval_line_def signal_waiter_def set_code_def Let_def

lemma repl_call_frame:
  assumes "repl_call lib isPty c (r, k) = (q, r', k')" and "c \<in> {CallStdout, CallStderr, CallStdin}"
  shows "\<not> is_panic q \<and> r_cancel r' = r_cancel r \<and> r_loop r' = r_loop r \<and> r_waiter r' = r_waiter r \<and>
    r_exitCode r' = r_exitCode r \<and> r_welcome r' = r_welcome r \<and> r_prompt r' = r_prompt r"
  using assms pipes_safe [of "r_pipes r" k] by (auto simp: is_panic_bind_Ok split: prod.splits)

lemma repl_start_frame:
  assumes "repl_start lib isPty r k = (q, r', k')" and "open_safe lib"
  shows "\<not> is_panic q \<and> (r_cancel r \<noteq> None \<longrightarrow> r_cancel r' \<noteq> None) \<and> r_loop r' = r_loop r \<and> r_waiter r' = r_waiter r \<and>
    r_exitCode r' = r_exitCode r \<and> r_welcome r' = r_welcome r \<and> r_prompt r' = r_prompt r"
proof (cases isPty)
  case True
  obtain q p k1 where "pair_open lib True zero_pair k = (q, p, k1)" by (metis prod.exhaust)
  with True assms pair_open_safe [OF assms(2), of True zero_pair k] show ?thesis
    by (cases q) (auto simp: repl_start_def repl_start_pty_def)
next
  case False
  with assms show ?thesis by (auto simp: repl_start_def repl_start_pipes_def)
qed

lemma repl_inv_method:
  assumes "repl_method_next lib isPty c q p = Some p'" and "repl_inv lib p" and "c \<noteq> CallInit \<longrightarrow> rs_inited p"
  shows "repl_inv lib p' \<and> \<not> is_panic q"
proof -
  obtain q' r k where call: "repl_call lib isPty c (rs_repl p, rs_os p) = (q', r, k)" by (metis prod.exhaust)
  with assms(1) have p': "p' = p\<lparr>rs_repl := r, rs_os := k, rs_inited := rs_inited p \<or> c = CallInit\<rparr>" "q' = q"
    and c: "c \<in> {CallInit, CallStdout, CallStderr, CallStdin}" "c = CallInit \<longrightarrow> \<not> rs_inited p"
    by (auto simp: repl_method_next_def split: if_splits)
  show ?thesis
  proof (cases "c = CallInit")
    case True
    with call have "r_cancel r \<noteq> None" "r_loop r \<noteq> None" "r_waiter r = Some False" "q = Ok ()"
      using p' by (auto simp: repl_init_def Let_def)
    with p' True c(2) assms(2) show ?thesis by (auto simp: repl_inv_def)
  next
    case False
    with c repl_call_frame [OF call] p' assms(2,3) show ?thesis by (auto simp: repl_inv_def)
  qed
qed

lemma repl_inv_start:
  assumes "repl_start_next lib isPty l p = Some p'" and "repl_inv lib p" and "rs_inited p"
  shows "repl_inv lib p' \<and> \<not> event_panics (repl_event isPty l)"
proof (cases l)
  case ReplOpens
  obtain q r k where st: "repl_start lib isPty (rs_repl p) (rs_os p) = (q, r, k)" by (metis prod.exhaust)
  have "open_safe lib" using assms(2) by (simp add: repl_inv_def)
  from repl_start_frame [OF st this] assms st ReplOpens show ?thesis
    by (cases q) (auto simp: repl_inv_def is_ok_iff split: if_splits)
qed (use assms in \<open>auto simp: repl_inv_def split: if_splits\<close>)

lemma repl_inv_frame:
  assumes "repl_inv lib p" and "rs_inited p" and "rs_inited p'" and "r_cancel (rs_repl p') \<noteq> None"
    and "rs_start p' = rs_start p" and "rs_loop p' = rs_loop p" and "rs_wait p' = rs_wait p"
    and "r_loop (rs_repl p') = r_loop (rs_repl p)" and "r_waiter (rs_repl p') = r_waiter (rs_repl p)"
    and "r_exitCode (rs_repl p') = r_exitCode (rs_repl p)"
  shows "repl_inv lib p'"
  using assms by (simp add: repl_inv_def)

lemma repl_clean_frame:
  assumes "repl_clean_next lib l p = Some p'"
  shows "rs_inited p' = rs_inited p \<and> rs_start p' = rs_start p \<and> rs_loop p' = rs_loop p \<and> rs_wait p' = rs_wait p \<and>
    r_loop (rs_repl p') = r_loop (rs_repl p) \<and> r_waiter (rs_repl p') = r_waiter (rs_repl p) \<and>
    r_exitCode (rs_repl p') = r_exitCode (rs_repl p) \<and> r_prompt (rs_repl p') = r_prompt (rs_repl p) \<and>
    r_welcome (rs_repl p') = r_welcome (rs_repl p) \<and>
    r_cancel (rs_repl p') = (if l = ReplCleanCancels then Some True else r_cancel (rs_repl p)) \<and>
    rs_reads p' = rs_reads p \<and> rs_lines p' = rs_lines p \<and> rs_out p' = rs_out p"
  using assms by (cases l) (simp_all add: Let_def split_beta split: if_splits, auto)

lemma repl_inv_clean:
  assumes "repl_clean_next lib l p = Some p'" and "repl_inv lib p" and "rs_inited p"
  shows "repl_inv lib p' \<and> \<not> event_panics (repl_event isPty l)"
proof
  have c: "r_cancel (rs_repl p) \<noteq> None" using assms(2,3) by (simp add: repl_inv_def)
  with assms(1) have "l \<notin> range ReplStartReturns \<union> {ReplCleanPanics, ReplLoopPanics}" "\<nexists>c q. l = ReplMethod c q"
    by auto
  then show "\<not> event_panics (repl_event isPty l)" by (cases l) auto
  show "repl_inv lib p'"
    using c repl_clean_frame [OF assms(1)] assms(3) by (intro repl_inv_frame [OF assms(2,3)]) auto
qed

text \<open>The invariant when \<open>Init\<close> has been called, and what the results of \<open>Wait\<close> depend on.\<close>

lemma repl_inv_inited:
  assumes "rs_inited p"
  shows "repl_inv lib p \<longleftrightarrow> open_safe lib \<and> r_cancel (rs_repl p) \<noteq> None \<and> r_loop (rs_repl p) \<noteq> None \<and>
     r_waiter (rs_repl p) = Some (rs_loop p \<in> {LoopLeaving, LoopGone}) \<and>
     (rs_start p \<in> {StartIdle, StartOpened} \<longrightarrow> rs_loop p = LoopIdle) \<and>
     (\<forall>q. rs_start p = StartLeaving q \<longrightarrow> \<not> is_panic q) \<and>
     (\<forall>code. wait_code (rs_wait p) = Some code \<longrightarrow>
        rs_loop p \<in> {LoopLeaving, LoopGone} \<and> r_exitCode (rs_repl p) = code)"
  using assms by (simp add: repl_inv_def)

lemma repl_inv_set_wait:
  assumes "repl_inv lib p" and "rs_inited p"
    and "\<And>code. wait_code pc = Some code \<Longrightarrow> rs_loop p \<in> {LoopLeaving, LoopGone} \<and> r_exitCode (rs_repl p) = code"
  shows "repl_inv lib (p\<lparr>rs_wait := pc\<rparr>)"
  using assms by (simp add: repl_inv_def)

lemma repl_inv_wait:
  assumes "repl_wait_next l p = Some p'" and "repl_inv lib p" and "rs_inited p"
  shows "repl_inv lib p' \<and> \<not> event_panics (repl_event isPty l)"
proof -
  have w: "rs_loop p \<in> {LoopLeaving, LoopGone} \<and> r_exitCode (rs_repl p) = code" if "wait_code (rs_wait p) = Some code" for code
    using assms(2,3) that by (simp add: repl_inv_inited)
  have "r_waiter (rs_repl p) = Some True \<Longrightarrow> rs_loop p \<in> {LoopLeaving, LoopGone}"
    using assms(2,3) by (simp add: repl_inv_inited)
  with assms(1) w show ?thesis
    by (cases l) (auto simp: repl_wait_def intro!: repl_inv_set_wait [OF assms(2,3)] split: if_splits repl_wait_pc.splits)
qed

lemma repl_inv_pipes:
  assumes "pipes_loop l p = Some p'" and "repl_inv lib p"
  shows "repl_inv lib p'"
  using assms
  by (cases l)
    (auto simp: repl_inv_def repl_next_defs split: if_splits option.splits prod.splits read_line.splits repl_loop_pc.splits)

lemma repl_inv_pty:
  assumes "pty_loop lib l p = Some p'" and "repl_inv lib p"
  shows "repl_inv lib p'"
  using assms
  by (cases l)
    (auto simp: repl_inv_def repl_next_defs split: if_splits option.splits prod.splits read_line.splits repl_loop_pc.splits)

definition loop_next :: "'m tty_lib \<Rightarrow> bool \<Rightarrow> loop_label \<Rightarrow> 'm repl_sys \<Rightarrow> 'm repl_sys option" where
  "loop_next lib isPty l p = (if isPty then pty_loop lib l p else pipes_loop l p)"

lemma loop_frame:
  assumes "loop_next lib isPty l p = Some p'"
  shows "rs_inited p' = rs_inited p \<and> rs_wait p' = rs_wait p \<and> rs_start p' = rs_start p \<and> rs_clean p' = rs_clean p \<and>
    rs_loop p \<notin> {LoopIdle, LoopGone} \<and> rs_loop p' \<noteq> LoopIdle \<and> (rs_loop p' = LoopGone \<longleftrightarrow> l = LoopEnds) \<and>
    r_cancel (rs_repl p') = r_cancel (rs_repl p) \<and> r_loop (rs_repl p') = r_loop (rs_repl p) \<and>
    r_welcome (rs_repl p') = r_welcome (rs_repl p) \<and> r_prompt (rs_repl p') = r_prompt (rs_repl p)"
  using assms by (cases isPty; cases l)
    (auto simp: loop_next_def repl_next_defs split: if_splits option.splits prod.splits read_line.splits repl_loop_pc.splits)

lemma repl_inv_loop: "loop_next lib isPty l p = Some p' \<Longrightarrow> repl_inv lib p \<Longrightarrow> repl_inv lib p'"
  by (auto simp: loop_next_def dest: repl_inv_pipes repl_inv_pty split: if_splits)

lemma no_loop_panic: "repl_inv lib p \<Longrightarrow> \<not> loop_panics p"
  by (auto simp: repl_inv_def loop_panics_def split: if_splits)

text \<open>The action of a label, by the goroutine that does it.\<close>

lemma repl_step_cases:
  assumes "repl_step lib isPty p l p'"
  obtains (mcall) c q where "l = ReplMethod c q" "repl_method_next lib isPty c q p = Some p'"
  | (loop) m where "l = ReplLoops m" "loop_next lib isPty m p = Some p'"
  | (panic) "l = ReplLoopPanics" "loop_panics p"
  | (start) "l \<in> {ReplOpens, ReplAddsLoop} \<union> range ReplStartReturns" "repl_start_next lib isPty l p = Some p'"
  | (wait) "l \<in> {ReplWaitAdds, ReplWaitGets, ReplWaitLeaves} \<union> range ReplWaitReturns" "repl_wait_next l p = Some p'"
  | (clean) "l \<in> {ReplCleanCancels, ReplCleanPanics, ReplCleanClosesPipes, ReplCleanUnhangs, ReplCleanCloses, ReplCleanReturns}"
      "repl_clean_next lib l p = Some p'"
  using assms by (cases l) (auto simp: repl_step_def loop_next_def split: if_splits)

lemma repl_start_inited:
  assumes "repl_start_next lib isPty l p = Some p'"
  shows "rs_inited p' = rs_inited p \<and> rs_wait p' = rs_wait p \<and> rs_clean p' = rs_clean p \<and>
    rs_loop p' = (if l = ReplAddsLoop then LoopWelcome else rs_loop p)"
  using assms by (cases l) (auto split: if_splits prod.splits)

lemma repl_wait_inited:
  assumes "repl_wait_next l p = Some p'"
  shows "rs_inited p' = rs_inited p \<and> rs_loop p' = rs_loop p"
  using assms by (cases l) (auto split: if_splits prod.splits option.splits repl_wait_pc.splits)

lemma repl_method_inited:
  assumes "repl_method_next lib isPty c q p = Some p'"
  shows "rs_inited p' = (rs_inited p \<or> c = CallInit) \<and> rs_loop p' = rs_loop p \<and> rs_wait p' = rs_wait p"
  using assms by (auto simp: repl_method_next_def split: if_splits prod.splits)

lemma repl_p_det:
  assumes "repl_step lib isPty p l p'" and "repl_inv lib p"
  shows "case event_det (repl_event isPty l) of
      None \<Rightarrow> repl_live isPty p' = repl_live isPty p
    | Some x \<Rightarrow> \<not> session_name (det_name x) \<and> spec_op x (repl_live isPty p) = Some (repl_live isPty p')"
  using assms(1)
proof (cases rule: repl_step_cases)
  case (mcall c q)
  with repl_method_inited [OF mcall(2)] show ?thesis by (simp add: repl_live_def)
next
  case (loop m)
  with loop_frame [OF loop(2)] show ?thesis
    by (auto simp: repl_live_def split: repl_wait_pc.splits)
next
  case start
  note f = repl_start_inited [OF start(2)]
  show ?thesis
  proof (cases "l = ReplAddsLoop")
    case True
    with start(2) have "rs_start p = StartOpened" by (auto split: if_splits)
    with assms(2) have "rs_loop p = LoopIdle" by (simp add: repl_inv_def)
    with f True show ?thesis by (auto simp: repl_live_def split: repl_wait_pc.splits)
  next
    case False
    with f start show ?thesis by (auto simp: repl_live_def)
  qed
next
  case wait
  with loop_name_session show ?thesis
    by (cases l; cases "rs_wait p") (simp_all add: repl_live_def split: if_splits option.splits, auto)
next
  case clean
  with repl_clean_frame [OF clean(2)] show ?thesis by (auto simp: repl_live_def)
next
  case panic
  with no_loop_panic [OF assms(2)] show ?thesis by simp
qed

interpretation repl_proc: session_process "repl_step lib isPty" "repl_event isPty" "repl_inv lib" rs_inited
    "repl_live isPty" repl_waited for lib isPty
proof
  fix p l p'
  assume step: "repl_step lib isPty p l p'" and inv: "repl_inv lib p"
  show "rs_inited p' \<longleftrightarrow> rs_inited p \<or> (\<exists>r. repl_event isPty l = Returns CallInit r)"
    using step
  proof (cases rule: repl_step_cases)
    case (mcall c q)
    with repl_method_inited [OF mcall(2)] show ?thesis by auto
  next
    case start
    with repl_start_inited [OF start(2)] show ?thesis by auto
  next
    case wait
    with repl_wait_inited [OF wait(2)] show ?thesis by auto
  next
    case clean
    with repl_clean_frame [OF clean(2)] show ?thesis by auto
  next
    case panic
    with no_loop_panic [OF inv] show ?thesis by simp
  next
    case (loop m)
    with loop_frame [OF loop(2)] show ?thesis by simp
  qed
  show "repl_waited p' = waited_after (repl_event isPty l) (repl_waited p)"
    using step
  proof (cases rule: repl_step_cases)
    case (mcall c q)
    with repl_method_inited [OF mcall(2)] show ?thesis by (simp add: repl_waited_def waited_after_def)
  next
    case start
    with repl_start_inited [OF start(2)] show ?thesis by (auto simp: repl_waited_def waited_after_def)
  next
    case wait
    then show ?thesis
      by (cases l; cases "rs_wait p") (auto simp: repl_waited_def waited_after_def split: if_splits option.splits)
  next
    case clean
    with repl_clean_frame [OF clean(2)] show ?thesis by (auto simp: repl_waited_def waited_after_def)
  next
    case panic
    with no_loop_panic [OF inv] show ?thesis by simp
  next
    case (loop m)
    with loop_frame [OF loop(2)] show ?thesis by (simp add: repl_waited_def waited_after_def)
  qed
next
  fix p l p'
  assume step: "repl_step lib isPty p l p'" and inv: "repl_inv lib p"
    and ready: "needs_init (repl_event isPty l) \<longrightarrow> rs_inited p"
  show "repl_inv lib p' \<and> \<not> event_panics (repl_event isPty l)"
    using step
  proof (cases rule: repl_step_cases)
    case (mcall c q)
    with ready have "c \<noteq> CallInit \<longrightarrow> rs_inited p" by (simp add: needs_init_def)
    from repl_inv_method [OF mcall(2) inv this] mcall show ?thesis by simp
  next
    case start
    with ready have "rs_inited p" by (auto simp: needs_init_def)
    from repl_inv_start [OF start(2) inv this] show ?thesis .
  next
    case wait
    with ready have "rs_inited p" by (auto simp: needs_init_def)
    from repl_inv_wait [OF wait(2) inv this] show ?thesis .
  next
    case clean
    with ready have "rs_inited p" by (auto simp: needs_init_def)
    from repl_inv_clean [OF clean(2) inv this] show ?thesis .
  next
    case panic
    with no_loop_panic [OF inv] show ?thesis by simp
  next
    case (loop m)
    with repl_inv_loop [OF loop(2) inv] show ?thesis by simp
  qed
  show "case event_det (repl_event isPty l) of
      None \<Rightarrow> repl_live isPty p' = repl_live isPty p
    | Some x \<Rightarrow> \<not> session_name (det_name x) \<and> spec_op x (repl_live isPty p) = Some (repl_live isPty p')"
    by (rule repl_p_det [OF step inv])
next
  fix p
  assume "repl_inv lib p" "\<not> rs_inited p"
  then show "repl_live isPty p = {}" by (simp add: repl_inv_def repl_live_def)
qed

end
