(* ===== verification/ReplSession.thy ===== *)
theory ReplSession
  imports ReplLoop
begin

text \<open>
  Sessions with a read-eval-print loop: what the loop of theory \<open>ReplLoop\<close> does to its input,
  compared with the functions \<open>run_loop_pipes\<close> and \<open>run_loop_pty\<close> of theory \<open>Repl\<close>, how long it can go on
  after the session has cancelled it, and the properties of the session and its loop together.
\<close>

section \<open>What the loop does to its input\<close>

text \<open>The bytes and the error that a sequence of reads from the pipe comes from.\<close>

fun reads_input :: "read_line list \<Rightarrow> string" where
  "reads_input [] = []"
| "reads_input (ReadLine line # xs) = line @ nl # reads_input xs"
| "reads_input (ReadErr e # xs) = []"

fun reads_end :: "read_line list \<Rightarrow> go_error" where
  "reads_end [] = EOF"
| "reads_end (ReadLine line # xs) = reads_end xs"
| "reads_end (ReadErr e # xs) = e"

definition line_out :: "bool \<Rightarrow> string \<Rightarrow> repl_loop \<Rightarrow> string \<Rightarrow> string" where
  "line_out isPty prompt loop line = (if isPty then [] else prompt) @ snd (loop line)"

text \<open>The result that theory \<open>Repl\<close>'s functions give for the same reads.\<close>

definition loop_result ::
  "bool \<Rightarrow> repl_loop \<Rightarrow> string \<Rightarrow> string \<Rightarrow> (nat \<Rightarrow> bool) \<Rightarrow> read_line list \<Rightarrow> repl_result option" where
  "loop_result isPty loop greeting prompt cancelled reads =
     (if isPty then run_loop_pty loop cancelled 0 reads (greeting @ [nl])
      else Some (run_loop_pipes loop prompt cancelled (reads_end reads) 0 (reads_input reads) (greeting @ [nl])))"

lemma run_loop_pty_append:
  assumes "list_all (goes_on loop) ls" and "\<And>j. 2 * i \<le> j \<Longrightarrow> j < 2 * (i + length ls) \<Longrightarrow> \<not> cancelled j"
  shows "run_loop_pty loop cancelled i (map ReadLine ls @ xs) out =
    map_option (\<lambda>r. r\<lparr>rr_lines := ls @ rr_lines r\<rparr>)
      (run_loop_pty loop cancelled (i + length ls) xs (out @ concat (map (line_out True prompt loop) ls)))"
  using assms
proof (induction ls arbitrary: i out)
  case Nil
  then show ?case by (cases "run_loop_pty loop cancelled i xs out") simp_all
next
  case (Cons l ls)
  obtain ex code w where l: "loop l = ((ex, code), w)" by (metis prod.exhaust)
  have ex: "\<not> ex" using Cons.prems(1) l by (simp add: goes_on_def)
  have nc: "\<not> cancelled (2 * i)" "\<not> cancelled (Suc (2 * i))" using Cons.prems(2) by simp_all
  have "run_loop_pty loop cancelled (Suc i) (map ReadLine ls @ xs) (out @ w) =
    map_option (\<lambda>r. r\<lparr>rr_lines := ls @ rr_lines r\<rparr>)
      (run_loop_pty loop cancelled (Suc i + length ls) xs ((out @ w) @ concat (map (line_out True prompt loop) ls)))"
    using Cons.prems by (intro Cons.IH) simp_all
  moreover have "line_out True prompt loop l = w" using l by (simp add: line_out_def)
  ultimately show ?case using l ex nc
    by (cases "run_loop_pty loop cancelled (Suc (i + length ls)) xs (out @ w @ concat (map (line_out True prompt loop) ls))")
      simp_all
qed

lemma run_loop_pipes_append:
  assumes "list_all (goes_on loop) ls" and "\<And>j. i \<le> j \<Longrightarrow> j < i + length ls \<Longrightarrow> \<not> cancelled j"
    and "\<forall>l \<in> set ls. nl \<notin> set l"
  shows "run_loop_pipes loop prompt cancelled e i (reads_input (map ReadLine ls @ xs)) out =
    (let r = run_loop_pipes loop prompt cancelled e (i + length ls) (reads_input xs)
        (out @ concat (map (line_out False prompt loop) ls)) in r\<lparr>rr_lines := ls @ rr_lines r\<rparr>)"
  using assms
proof (induction ls arbitrary: i out)
  case Nil
  then show ?case by (simp add: Let_def)
next
  case (Cons l ls)
  obtain ex code w where l: "loop l = ((ex, code), w)" by (metis prod.exhaust)
  have ex: "\<not> ex" using Cons.prems(1) l by (simp add: goes_on_def)
  have nc: "\<not> cancelled i" using Cons.prems(2) by simp
  have free: "nl \<notin> set l" using Cons.prems(3) by simp
  let ?rest = "reads_input (map ReadLine ls @ xs)"
  have split: "dropWhile (\<lambda>c. c \<noteq> nl) (l @ nl # ?rest) = nl # ?rest" "takeWhile (\<lambda>c. c \<noteq> nl) (l @ nl # ?rest) = l"
    using free by (induction l) auto
  have tr: "trim_right_nl (l @ [nl]) = l" using free by (rule trim_right_nl_snoc)
  have "run_loop_pipes loop prompt cancelled e (Suc i) ?rest (out @ prompt @ w) =
    (let r = run_loop_pipes loop prompt cancelled e (Suc i + length ls) (reads_input xs)
        ((out @ prompt @ w) @ concat (map (line_out False prompt loop) ls)) in r\<lparr>rr_lines := ls @ rr_lines r\<rparr>)"
    using Cons.prems by (intro Cons.IH) simp_all
  then show ?case using l ex nc
    by (subst run_loop_pipes.simps) (simp add: split tr line_out_def Let_def)
qed

definition loop_running :: "bool \<Rightarrow> repl_loop \<Rightarrow> string \<Rightarrow> string \<Rightarrow> read_line list \<Rightarrow> 'm repl_sys \<Rightarrow> bool" where
  "loop_running isPty loop greeting prompt xs p \<longleftrightarrow>
     rs_reads p = map ReadLine (rs_lines p) @ xs \<and> list_all (goes_on loop) (rs_lines p) \<and>
     rs_out p = greeting @ nl # concat (map (line_out isPty prompt loop) (rs_lines p)) @
       (if isPty \<or> rs_loop p = LoopCheck then [] else prompt) \<and>
     r_exitCode (rs_repl p) = 0 \<and> (\<not> isPty \<longrightarrow> (\<forall>line. ReadLine line \<in> set (rs_reads p) \<longrightarrow> nl \<notin> set line))"

definition loop_ended :: "bool \<Rightarrow> repl_loop \<Rightarrow> string \<Rightarrow> string \<Rightarrow> 'm repl_sys \<Rightarrow> bool" where
  "loop_ended isPty loop greeting prompt p \<longleftrightarrow>
     (\<exists>cancelled. (\<not> repl_cancelled p \<longrightarrow> cancelled = (\<lambda>i. False)) \<and>
        loop_result isPty loop greeting prompt cancelled (rs_reads p) =
          Some \<lparr>rr_code = r_exitCode (rs_repl p), rr_out = rs_out p, rr_lines = rs_lines p\<rparr>)"

text \<open>Where the loop stands, and what it has done so far.\<close>

definition loop_hist :: "bool \<Rightarrow> repl_loop \<Rightarrow> string \<Rightarrow> string \<Rightarrow> 'm repl_sys \<Rightarrow> bool" where
  "loop_hist isPty loop greeting prompt p \<longleftrightarrow>
     (case rs_loop p of
        LoopIdle \<Rightarrow> rs_reads p = [] \<and> rs_lines p = [] \<and> rs_out p = [] \<and> r_exitCode (rs_repl p) = 0
      | LoopWelcome \<Rightarrow> rs_reads p = [] \<and> rs_lines p = [] \<and> rs_out p = [] \<and> r_exitCode (rs_repl p) = 0
      | LoopCheck \<Rightarrow> loop_running isPty loop greeting prompt [] p
      | LoopRead \<Rightarrow> loop_running isPty loop greeting prompt [] p
      | LoopRecheck x \<Rightarrow> loop_running isPty loop greeting prompt [x] p \<and> isPty
      | LoopEval line \<Rightarrow> loop_running isPty loop greeting prompt [ReadLine line] p
      | _ \<Rightarrow> loop_ended isPty loop greeting prompt p)"

text \<open>How the loop can end, in terms of the functions of theory \<open>Repl\<close>.\<close>

lemma concat_line_out: "concat (map f (xs @ [x])) = concat (map f xs) @ f x"
  by simp

lemma ended_pipes:
  assumes "list_all (goes_on loop) ls" and "\<forall>l \<in> set ls. nl \<notin> set l"
  shows "loop_result False loop greeting prompt (\<lambda>i. i = length ls) (map ReadLine ls) =
      Some \<lparr>rr_code = 0, rr_out = greeting @ nl # concat (map (line_out False prompt loop) ls), rr_lines = ls\<rparr>"
    and "loop_result False loop greeting prompt (\<lambda>i. False) (map ReadLine ls @ [ReadErr e]) =
      Some \<lparr>rr_code = if e = EOF then 0 else 255,
            rr_out = greeting @ nl # concat (map (line_out False prompt loop) ls) @ prompt, rr_lines = ls\<rparr>"
    and "\<not> goes_on loop l \<Longrightarrow> nl \<notin> set l \<Longrightarrow>
      loop_result False loop greeting prompt (\<lambda>i. False) (map ReadLine ls @ [ReadLine l]) =
      Some \<lparr>rr_code = snd (fst (loop l)),
            rr_out = greeting @ nl # concat (map (line_out False prompt loop) (ls @ [l])), rr_lines = ls @ [l]\<rparr>"
proof -
  have e: "reads_end (map ReadLine ls @ xs) = reads_end xs" for xs by (induction ls) simp_all
  note a = run_loop_pipes_append [OF assms(1) _ assms(2)]
  show "loop_result False loop greeting prompt (\<lambda>i. i = length ls) (map ReadLine ls) =
      Some \<lparr>rr_code = 0, rr_out = greeting @ nl # concat (map (line_out False prompt loop) ls), rr_lines = ls\<rparr>"
    using a [of 0 "\<lambda>i. i = length ls" prompt _ "[]"]
    by (simp add: loop_result_def Let_def run_loop_pipes.simps [where i = "length ls"])
  show "loop_result False loop greeting prompt (\<lambda>i. False) (map ReadLine ls @ [ReadErr e]) =
      Some \<lparr>rr_code = if e = EOF then 0 else 255,
            rr_out = greeting @ nl # concat (map (line_out False prompt loop) ls) @ prompt, rr_lines = ls\<rparr>"
    using a [of 0 "\<lambda>i. False" prompt _ "[ReadErr e]"]
    by (simp add: loop_result_def Let_def e run_loop_pipes.simps [where i = "length ls"])
  assume l: "\<not> goes_on loop l" "nl \<notin> set l"
  obtain code w where lp: "loop l = ((True, code), w)"
    using l(1) by (cases "loop l"; cases "fst (loop l)") (auto simp: goes_on_def)
  have "dropWhile (\<lambda>c. c \<noteq> nl) (l @ [nl]) = [nl]" "takeWhile (\<lambda>c. c \<noteq> nl) (l @ [nl]) = l"
    using l(2) by (induction l) auto
  moreover have "trim_right_nl (l @ [nl]) = l" using l(2) by (rule trim_right_nl_snoc)
  ultimately show "loop_result False loop greeting prompt (\<lambda>i. False) (map ReadLine ls @ [ReadLine l]) =
      Some \<lparr>rr_code = snd (fst (loop l)),
            rr_out = greeting @ nl # concat (map (line_out False prompt loop) (ls @ [l])), rr_lines = ls @ [l]\<rparr>"
    using a [of 0 "\<lambda>i. False" prompt _ "[ReadLine l]"] lp
    by (simp add: loop_result_def Let_def e run_loop_pipes.simps [where i = "length ls"] line_out_def)
qed

lemma ended_pty:
  assumes "list_all (goes_on loop) ls"
  shows "loop_result True loop greeting prompt (\<lambda>i. i = 2 * length ls) (map ReadLine ls) =
      Some \<lparr>rr_code = 0, rr_out = greeting @ nl # concat (map (line_out True prompt loop) ls), rr_lines = ls\<rparr>"
    and "loop_result True loop greeting prompt (\<lambda>i. i = Suc (2 * length ls)) (map ReadLine ls @ [x]) =
      Some \<lparr>rr_code = 0, rr_out = greeting @ nl # concat (map (line_out True prompt loop) ls), rr_lines = ls\<rparr>"
    and "loop_result True loop greeting prompt (\<lambda>i. False) (map ReadLine ls @ [ReadErr e]) =
      Some \<lparr>rr_code = if e = EOF then 0 else 255,
            rr_out = greeting @ nl # concat (map (line_out True prompt loop) ls), rr_lines = ls\<rparr>"
    and "\<not> goes_on loop l \<Longrightarrow>
      loop_result True loop greeting prompt (\<lambda>i. False) (map ReadLine ls @ [ReadLine l]) =
      Some \<lparr>rr_code = snd (fst (loop l)),
            rr_out = greeting @ nl # concat (map (line_out True prompt loop) (ls @ [l])), rr_lines = ls @ [l]\<rparr>"
proof -
  note a = run_loop_pty_append [OF assms, where prompt = prompt]
  show "loop_result True loop greeting prompt (\<lambda>i. i = 2 * length ls) (map ReadLine ls) =
      Some \<lparr>rr_code = 0, rr_out = greeting @ nl # concat (map (line_out True prompt loop) ls), rr_lines = ls\<rparr>"
    using a [of 0 "\<lambda>i. i = 2 * length ls" "[]"] by (simp add: loop_result_def)
  show "loop_result True loop greeting prompt (\<lambda>i. i = Suc (2 * length ls)) (map ReadLine ls @ [x]) =
      Some \<lparr>rr_code = 0, rr_out = greeting @ nl # concat (map (line_out True prompt loop) ls), rr_lines = ls\<rparr>"
    using a [of 0 "\<lambda>i. i = Suc (2 * length ls)" "[x]"] by (simp add: loop_result_def)
  show "loop_result True loop greeting prompt (\<lambda>i. False) (map ReadLine ls @ [ReadErr e]) =
      Some \<lparr>rr_code = if e = EOF then 0 else 255,
            rr_out = greeting @ nl # concat (map (line_out True prompt loop) ls), rr_lines = ls\<rparr>"
    using a [of 0 "\<lambda>i. False" "[ReadErr e]"] by (simp add: loop_result_def)
  assume l: "\<not> goes_on loop l"
  obtain code w where lp: "loop l = ((True, code), w)"
    using l by (cases "loop l"; cases "fst (loop l)") (auto simp: goes_on_def)
  then show "loop_result True loop greeting prompt (\<lambda>i. False) (map ReadLine ls @ [ReadLine l]) =
      Some \<lparr>rr_code = snd (fst (loop l)),
            rr_out = greeting @ nl # concat (map (line_out True prompt loop) (ls @ [l])), rr_lines = ls @ [l]\<rparr>"
    using a [of 0 "\<lambda>i. False" "[ReadLine l]"] by (simp add: loop_result_def line_out_def)
qed

lemma loop_ended_cong:
  assumes "loop_ended isPty loop greeting prompt p" and "rs_reads p' = rs_reads p" and "rs_out p' = rs_out p"
    and "rs_lines p' = rs_lines p" and "r_exitCode (rs_repl p') = r_exitCode (rs_repl p)"
    and "repl_cancelled p \<Longrightarrow> repl_cancelled p'"
  shows "loop_ended isPty loop greeting prompt p'"
  using assms unfolding loop_ended_def by (metis (no_types, lifting))

lemma loop_endedI:
  assumes "loop_result isPty loop greeting prompt c (rs_reads p) =
      Some \<lparr>rr_code = r_exitCode (rs_repl p), rr_out = rs_out p, rr_lines = rs_lines p\<rparr>"
    and "\<not> repl_cancelled p \<Longrightarrow> c = (\<lambda>i. False)"
  shows "loop_ended isPty loop greeting prompt p"
  using assms by (auto simp: loop_ended_def)

definition repl_hist :: "bool \<Rightarrow> repl_loop \<Rightarrow> string \<Rightarrow> string \<Rightarrow> 'm repl_sys \<Rightarrow> bool" where
  "repl_hist isPty loop greeting prompt p \<longleftrightarrow>
     r_welcome (rs_repl p) = greeting \<and> r_prompt (rs_repl p) = prompt \<and>
     (case r_loop (rs_repl p) of None \<Rightarrow> loop = default_repl \<and> \<not> rs_inited p | Some f \<Rightarrow> f = loop) \<and>
     loop_hist isPty loop greeting prompt p"

lemma hist_pipes:
  assumes step: "pipes_loop l p = Some p'" and hist: "loop_hist False loop greeting prompt p"
    and r: "r_loop (rs_repl p) = Some loop" "r_welcome (rs_repl p) = greeting" "r_prompt (rs_repl p) = prompt"
  shows "loop_hist False loop greeting prompt p'"
proof -
  have free: "\<forall>l \<in> set (rs_lines p). nl \<notin> set l" "list_all (goes_on loop) (rs_lines p)"
    if "loop_running False loop greeting prompt xs p" for xs
    using that by (auto simp: loop_running_def)
  note e = ended_pipes [OF free(2,1)]
  show ?thesis
  proof (cases l)
    case LoopWelcomes
    with step hist r show ?thesis by (auto simp: loop_hist_def loop_running_def split: if_splits)
  next
    case LoopChecks
    then have pc: "rs_loop p = LoopCheck" using step by (simp split: if_splits)
    then have run: "loop_running False loop greeting prompt [] p" using hist by (simp add: loop_hist_def)
    from step LoopChecks pc run r e(1) [OF run run, of greeting prompt] show ?thesis
      by (auto simp: loop_hist_def loop_running_def intro!: loop_endedI split: if_splits)
  next
    case (LoopReads x)
    then have pc: "rs_loop p = LoopRead" "pipe_read_ok x" using step by (simp_all split: if_splits)
    then have run: "loop_running False loop greeting prompt [] p" using hist by (simp add: loop_hist_def)
    show ?thesis
    proof (cases x)
      case (ReadErr err)
      with step LoopReads pc run e(2) [OF run run, of greeting prompt err] show ?thesis
        by (auto simp: loop_hist_def loop_running_def set_code_def Let_def intro!: loop_endedI)
    next
      case (ReadLine line)
      with step LoopReads pc run show ?thesis
        by (auto simp: loop_hist_def loop_running_def pipe_read_ok_def Let_def)
    qed
  next
    case LoopEvals
    then obtain line where pc: "rs_loop p = LoopEval line" using step by (simp split: repl_loop_pc.splits)
    then have run: "loop_running False loop greeting prompt [ReadLine line] p" using hist by (simp add: loop_hist_def)
    then have "nl \<notin> set line" by (auto simp: loop_running_def)
    from step LoopEvals pc run r e(3) [OF run run _ this, of greeting prompt] show ?thesis
      by (cases "goes_on loop line")
        (auto simp: loop_hist_def loop_running_def repl_next_defs goes_on_def line_out_def split: prod.splits if_splits intro!: loop_endedI)
  next
    case LoopSignals
    with step hist show ?thesis
      by (auto simp: loop_hist_def signal_waiter_def elim!: loop_ended_cong split: if_splits)
  next
    case LoopEnds
    with step hist show ?thesis
      by (auto simp: loop_hist_def elim!: loop_ended_cong split: if_splits)
  qed (use step in simp_all)
qed

lemma hist_pty:
  assumes step: "pty_loop lib l p = Some p'" and hist: "loop_hist True loop greeting prompt p"
    and r: "r_loop (rs_repl p) = Some loop" "r_welcome (rs_repl p) = greeting" "r_prompt (rs_repl p) = prompt"
  shows "loop_hist True loop greeting prompt p'"
proof -
  have on: "list_all (goes_on loop) (rs_lines p)" if "loop_running True loop greeting prompt xs p" for xs
    using that by (auto simp: loop_running_def)
  note e = ended_pty [OF on]
  show ?thesis
  proof (cases l)
    case LoopWelcomes
    with step hist r show ?thesis by (auto simp: loop_hist_def loop_running_def split: if_splits)
  next
    case LoopChecks
    then have pc: "rs_loop p = LoopCheck" using step by (simp split: if_splits)
    then have run: "loop_running True loop greeting prompt [] p" using hist by (simp add: loop_hist_def)
    from step LoopChecks pc run r e(1) [OF run, of greeting prompt] show ?thesis
      by (auto simp: loop_hist_def loop_running_def intro!: loop_endedI split: if_splits)
  next
    case (LoopReads x)
    with step hist show ?thesis by (auto simp: loop_hist_def loop_running_def split: if_splits)
  next
    case LoopRechecks
    then obtain x where pc: "rs_loop p = LoopRecheck x" using step by (simp split: repl_loop_pc.splits)
    then have run: "loop_running True loop greeting prompt [x] p" using hist by (simp add: loop_hist_def)
    show ?thesis
    proof (cases "repl_cancelled p")
      case True
      with step LoopRechecks pc run e(2) [OF run, of greeting prompt x] show ?thesis
        by (auto simp: loop_hist_def loop_running_def intro!: loop_endedI)
    next
      case False
      note nc = this
      show ?thesis
      proof (cases x)
        case (ReadErr err)
        with step LoopRechecks pc run nc e(3) [OF run, of greeting prompt err] show ?thesis
          by (auto simp: loop_hist_def loop_running_def set_code_def intro!: loop_endedI)
      next
        case (ReadLine line)
        with step LoopRechecks pc run nc show ?thesis by (auto simp: loop_hist_def loop_running_def)
      qed
    qed
  next
    case LoopEvals
    then obtain line where pc: "rs_loop p = LoopEval line" using step by (simp split: repl_loop_pc.splits)
    then have run: "loop_running True loop greeting prompt [ReadLine line] p" using hist by (simp add: loop_hist_def)
    from step LoopEvals pc run r e(4) [OF run, of line greeting prompt] show ?thesis
      by (cases "goes_on loop line")
        (auto simp: loop_hist_def loop_running_def repl_next_defs goes_on_def line_out_def split: prod.splits if_splits intro!: loop_endedI)
  next
    case LoopCloses
    with step hist show ?thesis
      by (auto simp: loop_hist_def elim!: loop_ended_cong split: if_splits prod.splits)
  next
    case LoopSignals
    with step hist show ?thesis
      by (auto simp: loop_hist_def signal_waiter_def elim!: loop_ended_cong split: if_splits)
  next
    case LoopEnds
    with step hist show ?thesis
      by (auto simp: loop_hist_def elim!: loop_ended_cong split: if_splits)
  qed
qed

text \<open>The other goroutines change nothing that the history speaks of, but the cancellation.\<close>

lemma loop_hist_cong:
  assumes hist: "repl_hist isPty loop greeting prompt p" and "rs_loop p' = rs_loop p" and "rs_reads p' = rs_reads p"
    and "rs_lines p' = rs_lines p" and "rs_out p' = rs_out p" and "r_exitCode (rs_repl p') = r_exitCode (rs_repl p)"
    and "rs_loop p = LoopIdle \<or> (repl_cancelled p \<longrightarrow> repl_cancelled p')"
  shows "loop_hist isPty loop greeting prompt p'"
proof -
  from hist have l: "loop_hist isPty loop greeting prompt p" by (simp add: repl_hist_def)
  have "loop_running isPty loop greeting prompt xs p' = loop_running isPty loop greeting prompt xs p" for xs
    using assms(2-6) by (simp add: loop_running_def)
  moreover have "loop_ended isPty loop greeting prompt p'" if "loop_ended isPty loop greeting prompt p" "rs_loop p \<noteq> LoopIdle"
    using that assms by (auto elim!: loop_ended_cong)
  ultimately show ?thesis using l assms(2-6) by (cases isPty; cases "rs_loop p"; simp add: loop_hist_def)
qed

lemma repl_hist_cong:
  assumes "repl_hist isPty loop greeting prompt p" and "loop_hist isPty loop greeting prompt p'" and "rs_inited p' = rs_inited p"
    and "r_loop (rs_repl p') = r_loop (rs_repl p)" and "r_welcome (rs_repl p') = r_welcome (rs_repl p)"
    and "r_prompt (rs_repl p') = r_prompt (rs_repl p)"
  shows "repl_hist isPty loop greeting prompt p'"
  using assms by (simp add: repl_hist_def split: option.splits)

lemma repl_hist_method:
  assumes "repl_method_next lib isPty c q p = Some p'" and "repl_inv lib p" and "repl_hist isPty loop greeting prompt p"
  shows "repl_hist isPty loop greeting prompt p'"
proof -
  obtain q' r k where call: "repl_call lib isPty c (rs_repl p, rs_os p) = (q', r, k)" by (metis prod.exhaust)
  with assms(1) have p': "p' = p\<lparr>rs_repl := r, rs_os := k, rs_inited := rs_inited p \<or> c = CallInit\<rparr>"
    and c: "c \<in> {CallInit, CallStdout, CallStderr, CallStdin}" "c = CallInit \<longrightarrow> \<not> rs_inited p"
    by (auto simp: repl_method_next_def split: if_splits)
  show ?thesis
  proof (cases "c = CallInit")
    case True
    with c(2) assms(2) have "rs_loop p = LoopIdle" by (simp add: repl_inv_def)
    with call True p' assms(3) show ?thesis
      by (auto simp: repl_hist_def loop_hist_def repl_init_def Let_def split: option.splits)
  next
    case False
    with c have f: "c \<in> {CallStdout, CallStderr, CallStdin}" by simp
    note f = repl_call_frame [OF call f]
    have "loop_hist isPty loop greeting prompt p'"
      using assms(3) f False by (intro loop_hist_cong [of isPty loop greeting prompt p]) (simp_all add: repl_hist_def p')
    then show ?thesis using f False by (intro repl_hist_cong [OF assms(3)]) (simp_all add: p')
  qed
qed

lemma repl_hist_step:
  assumes "repl_step lib isPty p l p'" and "repl_inv lib p" and "repl_hist isPty loop greeting prompt p"
  shows "repl_hist isPty loop greeting prompt p'"
  using assms(1)
proof (cases rule: repl_step_cases)
  case (mcall c q)
  from repl_hist_method [OF mcall(2) assms(2,3)] show ?thesis .
next
  case (loop m)
  note f = loop_frame [OF loop(2)]
  with assms(2) have "rs_inited p" by (auto simp: repl_inv_def)
  with assms(3) have r: "r_loop (rs_repl p) = Some loop" "r_welcome (rs_repl p) = greeting" "r_prompt (rs_repl p) = prompt"
      "loop_hist isPty loop greeting prompt p"
    by (auto simp: repl_hist_def split: option.splits)
  have "loop_hist isPty loop greeting prompt p'"
  proof (cases isPty)
    case True
    with loop(2) r hist_pty [of lib m p p' loop greeting prompt] show ?thesis by (simp add: loop_next_def)
  next
    case False
    with loop(2) r hist_pipes [of m p p' loop greeting prompt] show ?thesis by (simp add: loop_next_def)
  qed
  with f show ?thesis by (intro repl_hist_cong [OF assms(3)]) simp_all
next
  case panic
  with no_loop_panic [OF assms(2)] show ?thesis by simp
next
  case wait
  then have "rs_repl p' = rs_repl p \<and> rs_loop p' = rs_loop p \<and> rs_reads p' = rs_reads p \<and> rs_lines p' = rs_lines p \<and>
      rs_out p' = rs_out p \<and> rs_inited p' = rs_inited p"
    by (cases l) (auto split: if_splits option.splits repl_wait_pc.splits)
  moreover from this assms(3) have "loop_hist isPty loop greeting prompt p'"
    by (intro loop_hist_cong [of isPty loop greeting prompt p]) (simp_all add: repl_hist_def)
  ultimately show ?thesis by (intro repl_hist_cong [OF assms(3)]) simp_all
next
  case clean
  note f = repl_clean_frame [OF clean(2)]
  with assms(3) have "loop_hist isPty loop greeting prompt p'"
    by (intro loop_hist_cong [of isPty loop greeting prompt p]) (simp_all add: repl_hist_def)
  with f show ?thesis by (intro repl_hist_cong [OF assms(3)]) simp_all
next
  case start
  show ?thesis
  proof (cases "l = ReplOpens")
    case True
    obtain q r k where st: "repl_start lib isPty (rs_repl p) (rs_os p) = (q, r, k)" by (metis prod.exhaust)
    have "open_safe lib" using assms(2) by (simp add: repl_inv_def)
    note f = repl_start_frame [OF st this]
    from start True st obtain pc where pc: "rs_start p = StartIdle"
      and p': "p' = p\<lparr>rs_repl := r, rs_os := k, rs_start := pc\<rparr>"
      by (auto split: if_splits)
    from pc assms(2) have "rs_loop p = LoopIdle" by (simp add: repl_inv_def)
    with f assms(3) have "loop_hist isPty loop greeting prompt p'"
      by (intro loop_hist_cong [of isPty loop greeting prompt p]) (simp_all add: repl_hist_def p')
    with f show ?thesis by (intro repl_hist_cong [OF assms(3)]) (simp_all add: p')
  next
    case False
    with start obtain pc m where p': "p' = p\<lparr>rs_start := pc, rs_loop := m\<rparr>"
      "m = rs_loop p \<or> (rs_start p = StartOpened \<and> m = LoopWelcome)"
      by (cases "l = ReplAddsLoop") (auto split: if_splits)
    have "loop_hist isPty loop greeting prompt p'"
    proof (cases "m = rs_loop p")
      case True
      with assms(3) show ?thesis
        by (intro loop_hist_cong [of isPty loop greeting prompt p]) (simp_all add: repl_hist_def p')
    next
      case False
      with p' assms(2) have "rs_loop p = LoopIdle" "m = LoopWelcome" by (auto simp: repl_inv_def)
      with assms(3) show ?thesis by (simp add: repl_hist_def loop_hist_def p')
    qed
    then show ?thesis by (intro repl_hist_cong [OF assms(3)]) (simp_all add: p')
  qed
qed

section \<open>After the cancellation\<close>

text \<open>How many more lines the loop can be given, and how many actions it has left.\<close>

fun evals_left :: "bool \<Rightarrow> repl_loop_pc \<Rightarrow> nat" where
  "evals_left isPty LoopRead = (if isPty then 0 else 1)"
| "evals_left isPty (LoopEval line) = 1"
| "evals_left isPty pc = 0"

fun loop_rank :: "repl_loop_pc \<Rightarrow> nat" where
  "loop_rank LoopIdle = 9" | "loop_rank LoopWelcome = 8" | "loop_rank LoopRead = 7" | "loop_rank (LoopRecheck x) = 6"
| "loop_rank (LoopEval line) = 5" | "loop_rank LoopCheck = 4" | "loop_rank LoopClosing = 3" | "loop_rank LoopSignal = 2"
| "loop_rank LoopLeaving = 1" | "loop_rank LoopGone = 0"

text \<open>The loop on pipes has no second check, and no terminal to close.\<close>

definition loop_shape :: "bool \<Rightarrow> 'm repl_sys \<Rightarrow> bool" where
  "loop_shape isPty p \<longleftrightarrow> isPty \<or> (rs_loop p \<noteq> LoopClosing \<and> (\<forall>x. rs_loop p \<noteq> LoopRecheck x))"

definition after_cancel :: "'m repl_sys \<Rightarrow> bool" where
  "after_cancel p \<longleftrightarrow> rs_inited p \<and> rs_start p \<noteq> StartIdle \<and> repl_cancelled p"

lemma loop_bounds:
  assumes "loop_next lib isPty l p = Some p'" and "repl_cancelled p"
  shows "evals_left isPty (rs_loop p') + (if l = LoopEvals then 1 else 0) \<le> evals_left isPty (rs_loop p) \<and>
    loop_rank (rs_loop p') < loop_rank (rs_loop p)"
  using assms by (cases isPty; cases l)
    (auto simp: loop_next_def repl_next_defs split: if_splits option.splits prod.splits read_line.splits repl_loop_pc.splits)

lemma loop_shape_step:
  assumes "repl_step lib isPty p l p'" and "loop_shape isPty p"
  shows "loop_shape isPty p'"
  using assms(1)
proof (cases rule: repl_step_cases)
  case (loop m)
  with assms(2) show ?thesis
    by (cases isPty; cases m)
      (auto simp: loop_shape_def loop_next_def repl_next_defs split: if_splits option.splits prod.splits read_line.splits repl_loop_pc.splits)
next
  case panic
  then show ?thesis using assms by (simp add: repl_step_def)
next
  case (mcall c q)
  with repl_method_inited [OF mcall(2)] assms(2) show ?thesis by (simp add: loop_shape_def)
next
  case start
  with repl_start_inited [OF start(2)] assms(2) show ?thesis by (simp add: loop_shape_def)
next
  case wait
  with repl_wait_inited [OF wait(2)] assms(2) show ?thesis by (simp add: loop_shape_def)
next
  case clean
  with repl_clean_frame [OF clean(2)] assms(2) show ?thesis by (simp add: loop_shape_def)
qed

lemma after_cancel_step:
  assumes "repl_step lib isPty p l p'" and "repl_inv lib p" and "after_cancel p"
  shows "after_cancel p' \<and>
    evals_left isPty (rs_loop p') + (if l = ReplLoops LoopEvals then 1 else 0) \<le> evals_left isPty (rs_loop p) \<and>
    loop_rank (rs_loop p') + (if \<exists>m. l = ReplLoops m then 1 else 0) \<le> loop_rank (rs_loop p)"
  using assms(1)
proof (cases rule: repl_step_cases)
  case (loop m)
  with loop_frame [OF loop(2)] loop_bounds [OF loop(2)] assms(3) show ?thesis
    by (auto simp: after_cancel_def split: if_splits)
next
  case panic
  with no_loop_panic [OF assms(2)] show ?thesis by simp
next
  case (mcall c q)
  with assms(3) have c: "c \<in> {CallStdout, CallStderr, CallStdin}"
    by (auto simp: repl_method_next_def after_cancel_def split: if_splits)
  obtain q' r k where call: "repl_call lib isPty c (rs_repl p, rs_os p) = (q', r, k)" by (metis prod.exhaust)
  with mcall repl_call_frame [OF call c] assms(3) show ?thesis
    by (auto simp: repl_method_next_def after_cancel_def split: if_splits)
next
  case start
  with assms(2,3) show ?thesis by (auto simp: after_cancel_def repl_inv_def split: if_splits)
next
  case wait
  then have "rs_repl p' = rs_repl p \<and> rs_start p' = rs_start p"
    by (cases l) (auto split: if_splits option.splits repl_wait_pc.splits)
  with wait repl_wait_inited [OF wait(2)] assms(3) show ?thesis by (auto simp: after_cancel_def)
next
  case clean
  with repl_clean_frame [OF clean(2)] assms(3) show ?thesis by (auto simp: after_cancel_def)
qed

lemma loop_started_step:
  assumes "repl_step lib isPty p l p'" and "rs_loop p \<noteq> LoopIdle"
  shows "rs_loop p' \<noteq> LoopIdle"
  using assms(1)
proof (cases rule: repl_step_cases)
  case (loop m)
  with loop_frame [OF loop(2)] show ?thesis by simp
next
  case panic
  then show ?thesis using assms by (simp add: repl_step_def)
next
  case (mcall c q)
  with repl_method_inited [OF mcall(2)] assms(2) show ?thesis by simp
next
  case start
  with repl_start_inited [OF start(2)] assms(2) show ?thesis by simp
next
  case wait
  with repl_wait_inited [OF wait(2)] assms(2) show ?thesis by simp
next
  case clean
  with repl_clean_frame [OF clean(2)] assms(2) show ?thesis by simp
qed

section \<open>Sessions with a loop\<close>

abbreviation repl_session_step ::
  "session_env \<Rightarrow> 'm tty_lib \<Rightarrow> bool \<Rightarrow> session \<times> 'm repl_sys \<Rightarrow> repl_label joint_label \<Rightarrow> session \<times> 'm repl_sys \<Rightarrow> bool" where
  "repl_session_step env lib isPty \<equiv> joint_step env (repl_step lib isPty) (repl_event isPty)"

definition cancelled_ok :: "bool \<Rightarrow> 'm repl_sys \<Rightarrow> bool" where
  "cancelled_ok isPty p \<longleftrightarrow> after_cancel p \<and> loop_shape isPty p"

lemma cancelled_joint_step:
  assumes "repl_session_step env lib isPty x l y" and "repl_proc.joint_ok lib isPty env x" and "cancelled_ok isPty (snd x)"
  shows "cancelled_ok isPty (snd y) \<and>
    evals_left isPty (rs_loop (snd y)) + (if l = OfProcess (ReplLoops LoopEvals) then 1 else 0) \<le>
      evals_left isPty (rs_loop (snd x)) \<and>
    loop_rank (rs_loop (snd y)) + (if \<exists>m. l = OfProcess (ReplLoops m) then 1 else 0) \<le> loop_rank (rs_loop (snd x))"
proof -
  have inv: "repl_inv lib (snd x)" using assms(2) by (cases x) (simp add: repl_proc.joint_ok_def)
  have step: "cancelled_ok isPty p' \<and>
      evals_left isPty (rs_loop p') + (if k = ReplLoops LoopEvals then 1 else 0) \<le> evals_left isPty (rs_loop (snd x)) \<and>
      loop_rank (rs_loop p') + (if \<exists>m. k = ReplLoops m then 1 else 0) \<le> loop_rank (rs_loop (snd x))"
    if "repl_step lib isPty (snd x) k p'" for k p'
    using after_cancel_step [OF that inv] loop_shape_step [OF that] assms(3) by (simp add: cancelled_ok_def)
  moreover have "evals_left isPty (rs_loop p') \<le> evals_left isPty (rs_loop (snd x)) \<and>
      loop_rank (rs_loop p') \<le> loop_rank (rs_loop (snd x))"
    if "repl_step lib isPty (snd x) k p'" for k p'
    using step [OF that] by linarith
  ultimately show ?thesis using assms(1,3)
    by (elim joint_step.cases) (auto split: if_splits)
qed

interpretation evals: step_bound "repl_session_step env lib isPty"
    "\<lambda>x. repl_proc.joint_ok lib isPty env x \<and> cancelled_ok isPty (snd x)"
    "\<lambda>l. l = OfProcess (ReplLoops LoopEvals)" "\<lambda>x. evals_left isPty (rs_loop (snd x))" for env lib isPty
proof
  fix x l y
  assume s: "repl_session_step env lib isPty x l y" and i: "repl_proc.joint_ok lib isPty env x \<and> cancelled_ok isPty (snd x)"
  then show "repl_proc.joint_ok lib isPty env y \<and> cancelled_ok isPty (snd y)"
    using cancelled_joint_step [OF s] repl_proc.joint_ok_step [OF s] by simp
  from i cancelled_joint_step [OF s]
  show "evals_left isPty (rs_loop (snd y)) + (if l = OfProcess (ReplLoops LoopEvals) then 1 else 0) \<le>
      evals_left isPty (rs_loop (snd x))" by simp
qed

interpretation loops: step_bound "repl_session_step env lib isPty"
    "\<lambda>x. repl_proc.joint_ok lib isPty env x \<and> cancelled_ok isPty (snd x)"
    "\<lambda>l. \<exists>m. l = OfProcess (ReplLoops m)" "\<lambda>x. loop_rank (rs_loop (snd x))" for env lib isPty
proof
  fix x l y
  assume s: "repl_session_step env lib isPty x l y" and i: "repl_proc.joint_ok lib isPty env x \<and> cancelled_ok isPty (snd x)"
  then show "loop_rank (rs_loop (snd y)) + (if \<exists>m. l = OfProcess (ReplLoops m) then 1 else 0) \<le> loop_rank (rs_loop (snd x))"
    using cancelled_joint_step [OF s] by simp
qed

text \<open>A loop that is under way can always do its next action, without another line; reading waits for the input to end.\<close>

lemma loop_can_go_on:
  assumes "repl_inv lib p" and "loop_shape isPty p" and "rs_loop p \<notin> {LoopIdle, LoopGone}"
  shows "\<exists>m p'. repl_step lib isPty p (ReplLoops m) p' \<and> (\<forall>line. m \<noteq> LoopReads (ReadLine line))"
proof -
  from assms(1,3) have i: "r_loop (rs_repl p) \<noteq> None" "r_waiter (rs_repl p) = Some (rs_loop p \<in> {LoopLeaving, LoopGone})"
    by (auto simp: repl_inv_def split: if_splits)
  define m where "m = (case rs_loop p of
      LoopWelcome \<Rightarrow> LoopWelcomes | LoopCheck \<Rightarrow> LoopChecks | LoopRead \<Rightarrow> LoopReads (ReadErr EOF) | LoopRecheck x \<Rightarrow> LoopRechecks
    | LoopEval line \<Rightarrow> LoopEvals | LoopClosing \<Rightarrow> LoopCloses | LoopSignal \<Rightarrow> LoopSignals | _ \<Rightarrow> LoopEnds)"
  have "repl_next lib isPty (ReplLoops m) p \<noteq> None"
    using assms(2,3) i by (cases isPty; cases "rs_loop p")
      (auto simp: m_def loop_shape_def pipe_read_ok_def signal_waiter_def eval_line_def Let_def split: prod.splits)
  moreover have "\<forall>line. m \<noteq> LoopReads (ReadLine line)" by (simp add: m_def split: repl_loop_pc.split)
  ultimately show ?thesis unfolding repl_step_def by blast
qed

lemma joint_loop_goes_on:
  assumes "repl_proc.joint_ok lib isPty env (s, p)" and "loop_shape isPty p" and "rs_loop p \<notin> {LoopIdle, LoopGone}"
  shows "\<exists>m y. repl_session_step env lib isPty (s, p) (OfProcess (ReplLoops m)) y"
proof -
  from assms(1) have ok: "s_crash s = None" "repl_inv lib p" "session_inv env s" "proc_out s = repl_live isPty p"
      "rs_inited p = (CallInit \<in> set (s_calls s))"
    by (simp_all add: repl_proc.joint_ok_def)
  from loop_can_go_on [OF ok(2) assms(2,3)] obtain m p' where m: "repl_step lib isPty p (ReplLoops m) p'" by blast
  show ?thesis
  proof (cases "m = LoopEnds")
    case False
    then have "repl_session_step env lib isPty (s, p) (OfProcess (ReplLoops m)) (s, p')"
      using m ok(1) by (intro joint_quiet) (simp_all add: caller_ready_def)
    then show ?thesis by blast
  next
    case True
    let ?x = "DetDone (loop_name isPty)"
    have "rs_inited p" using ok(2) assms(3) by (auto simp: repl_inv_def split: if_splits)
    then have main: "s_main s \<noteq> MainIdle" using ok(5) idle_no_calls [OF ok(3)] by auto
    have "\<not> is_panic (fst (det_apply ?x (s_detector s)))"
      using assms(3) by (intro repl_proc.det_legal [OF ok(3,4)]) (simp_all add: repl_live_def)
    then obtain d where d: "det_apply ?x (s_detector s) = (Ok (), d)"
      using det_apply_spec [of "s_detector s" ?x] ok(3)
      by (cases "det_apply ?x (s_detector s)"; cases "spec_op ?x (outstanding (s_detector s))")
        (auto simp: session_inv_def det_ok_def track_def)
    have "session_step env s (ProcDet ?x) (s\<lparr>s_detector := d\<rparr>)"
      by (rule proc_det [OF ok(1) main _ d]) simp
    then have "repl_session_step env lib isPty (s, p) (OfProcess (ReplLoops m)) (s\<lparr>s_detector := d\<rparr>, p')"
      using m True by (intro joint_event) (simp_all add: caller_ready_def)
    then show ?thesis by blast
  qed
qed

text \<open>Every session with a loop starts in the invariant.\<close>

lemma repl_sys_fresh:
  assumes "open_safe lib" and "repl_handle cfg = Ok r"
  shows "repl_inv lib (repl_sys_init r k)" "\<not> rs_inited (repl_sys_init r k)" "repl_waited (repl_sys_init r k) = None"
    and "repl_hist isPty (case rc_loop cfg of None \<Rightarrow> default_repl | Some f \<Rightarrow> f) (rc_welcome cfg) (rc_prompt cfg) (repl_sys_init r k)"
    and "loop_shape isPty (repl_sys_init r k)"
  using assms by (auto simp: repl_inv_def repl_sys_init_def repl_waited_def repl_hist_def loop_hist_def repl_handle_def
      loop_shape_def split: option.splits)

lemma repl_joint_ok:
  assumes "run_path (repl_session_step env lib isPty) (new_session lg, repl_sys_init r k) ks (s, p)"
    and "open_safe lib" and "repl_handle cfg = Ok r"
  shows "repl_proc.joint_ok lib isPty env (s, p)"
  by (rule repl_proc.joint_reachable [OF assms(1) repl_sys_fresh(1-3) [OF assms(2,3)]])

text \<open>A schedule for the examples: one line, on which the loop exits.\<close>

definition toy_repl :: repl_config where
  "toy_repl = \<lparr>rc_welcome = ''hi'', rc_prompt = ''> '', rc_loop = Some (\<lambda>line. ((line = ''q'', 4), line))\<rparr>"

definition repl_start_schedule :: "repl_label joint_label list" where
  "repl_start_schedule =
     OfSession RunCall #
     map OfProcess
       [ReplMethod CallInit (Ok ()), ReplMethod CallStdout (Ok ()), ReplMethod CallStderr (Ok ()), ReplMethod CallStdin (Ok ()),
        ReplOpens, ReplAddsLoop, ReplStartReturns (Ok ())]"

definition repl_exit_schedule :: "repl_label joint_label list" where
  "repl_exit_schedule = repl_start_schedule @
     map OfProcess
       [ReplWaitAdds, ReplLoops LoopWelcomes, ReplLoops LoopChecks, ReplLoops (LoopReads (ReadLine ''a'')), ReplLoops LoopEvals,
        ReplLoops LoopChecks, ReplLoops (LoopReads (ReadLine ''q'')), ReplLoops LoopEvals, ReplLoops LoopSignals,
        ReplWaitGets, ReplWaitLeaves, ReplWaitReturns 4] @
     map OfSession (replicate 5 (MainFin []))"

text \<open>The client disconnects while the loop waits for a line, and the process is cleaned up.\<close>

definition repl_lost_schedule :: "repl_label joint_label list" where
  "repl_lost_schedule = repl_start_schedule @
     map OfProcess [ReplLoops LoopWelcomes, ReplLoops LoopChecks] @
     map OfSession ([CtxDone, WatchFires] @ replicate 6 (WatchFin [])) @ [OfProcess ReplCleanCancels]"

definition toy_repl_sys :: "nat repl_sys" where
  "toy_repl_sys = repl_sys_init (the (go_value (repl_handle toy_repl))) toy_os"

lemma toy_repl_handle: "repl_handle toy_repl = Ok (the (go_value (repl_handle toy_repl :: nat repl go)))"
  by (simp add: repl_handle_def go_value_def)

lemma repl_exit_exec:
  "map_option (\<lambda>(s, p). (s_exits s, rs_lines p, rs_out p, s_copiers s, repl_live False p))
     (joint_exec toy_env (repl_next toy_tty False) (repl_event False) repl_exit_schedule (new_session [], toy_repl_sys)) =
   Some ([4], [''a'', ''q''], ''hi'' @ [nl] @ ''> a> q'', {''session: stdin'', ''session: stderr'', ''session: stdout''},
     {''terminal: pipes loop''})"
  by code_simp

lemma repl_lost_exec:
  "map_option (\<lambda>(s, p). (s_exits s, rs_loop p, r_cancel (rs_repl p), evals_left False (rs_loop p)))
     (joint_exec toy_env (repl_next toy_tty False) (repl_event False) repl_lost_schedule (new_session [], toy_repl_sys)) =
   Some ([255], LoopRead, Some True, 1)"
  by code_simp

lemma repl_exec_run:
  "joint_exec env (repl_next lib isPty) ev ks x = Some y \<Longrightarrow> run_path (joint_step env (repl_step lib isPty) ev) x ks y"
  by (rule joint_exec_run) (simp_all add: repl_step_def)

lemma toy_open_safe: "open_safe toy_tty"
  by (simp add: open_safe_def toy_tty_def os_Pipe_def)

lemma toy_repl_run:
  assumes "joint_exec toy_env (repl_next toy_tty False) (repl_event False) ks (new_session [], toy_repl_sys) = Some (s, p)"
  shows "run_path (repl_session_step toy_env toy_tty False) (new_session [], repl_sys_init (the (go_value (repl_handle toy_repl))) toy_os) ks (s, p)"
  using repl_exec_run [OF assms] by (simp add: toy_repl_sys_def)

section \<open>Properties\<close>

text \<open>What the session sees of a run is a run of the session, and what the process does one of its own.\<close>

lemma repl_session_refines:
  assumes "run_path (joint_step env (repl_step lib isPty) (repl_event isPty)) (s, p) ks (s', p')"
  shows "run_path (session_step env) s (List.map_filter (joint_seen (repl_event isPty)) ks) s' \<and>
    (\<exists>ls. run_path (repl_step lib isPty) p ls p')"
  using joint_session_run [OF assms] joint_process_run [OF assms] by simp







end
