(* ===== verification/Drain.thy ===== *)
theory Drain
  imports Joint
begin

text \<open>
  No goroutine of a session or of its process is left behind: once the context of a session is
  done, the session and its process do boundedly many more actions without the client, and
  they do not stop before only the goroutines that copy the session's streams are left.

  The session's part is a quantity that each of its own actions decreases, and a case analysis
  of who can act; the process's part is a contract (locale \<open>draining_process\<close>).  Together they
  bound the actions (\<open>to_go\<close>) and give the next one (\<open>drain_progress\<close>).
\<close>

section \<open>The session\<close>

text \<open>The actions that a call of \<open>finalize\<close>, and each goroutine, have left.\<close>

fun fin_left :: "fin_stage \<Rightarrow> nat" where
  "fin_left FinLock = 7" | "fin_left FinStderr = 6" | "fin_left FinDetect = 5" | "fin_left FinLog = 4"
| "fin_left FinExit = 3" | "fin_left FinSpawn = 2" | "fin_left FinLost = 1" | "fin_left FinDone = 1"

fun main_left :: "main_pc \<Rightarrow> nat" where
  "main_left MainInit = 23" | "main_left MainStdout = 22" | "main_left MainStderr = 21" | "main_left MainStdin = 20"
| "main_left MainStart = 19" | "main_left MainWait = 8" | "main_left (MainFinalize f) = fin_left (fin_stage f)"
| "main_left pc = 0"

fun watch_left :: "watch_pc \<Rightarrow> nat" where
  "watch_left WatchWait = 8" | "watch_left (WatchFinalize f) = fin_left (fin_stage f)" | "watch_left pc = 0"

fun kill_left :: "kill_pc \<Rightarrow> nat" where
  "kill_left KillIdle = 2" | "kill_left KillCleanup = 1" | "kill_left KillDone = 0"

definition session_left :: "session \<Rightarrow> nat" where
  "session_left s = main_left (s_main s) + watch_left (s_watch s) + kill_left (s_kill s)"

text \<open>The actions of the goroutines of \<open>Run\<close>, of the context's watcher, and of \<open>killProcess\<close>.\<close>

fun session_own :: "session_label \<Rightarrow> bool" where
  "session_own (StartReturns r) = True" | "session_own (WaitReturns code err) = True" | "session_own (MainFin lines) = True"
| "session_own RunReturns = True" | "session_own WatchFires = True" | "session_own (WatchFin lines) = True"
| "session_own WatchReturns = True" | "session_own (CleanupReturns b) = True" | "session_own l = False"

lemma fin_left_pos: "0 < fin_left x"
  by (cases x) simp_all

lemma fin_left_step:
  assumes "finalize_step env lines f s = (f', s')" and "\<not> fin_returned f"
  shows "fin_left (fin_stage f') < fin_left (fin_stage f)"
  using assms by (cases "(env, lines, f, s)" rule: finalize_step.cases)
    (auto simp: fin_returned_def session_fmt_log_def onetime_lock_def compare_and_swap_def split: option.splits if_splits)

lemma start_left:
  assumes "starting (s_main s)" and "\<not> is_panic r" and "s_watch s = WatchIdle"
  shows "session_left (start_step env (s_main s) r s) < session_left s"
  using assms by (cases "(env, s_main s, r, s)" rule: start_step.cases; cases r)
    (auto simp: starting_def session_ops session_left_def)

lemma session_left_bound: "exit_inv s \<Longrightarrow> session_left s \<le> 25"
proof -
  assume e: "exit_inv s"
  have f: "fin_left x \<le> 7" for x by (cases x) simp_all
  have "kill_left (s_kill s) \<le> 2" by (cases "s_kill s") simp_all
  moreover have "starting (s_main s) \<Longrightarrow> s_watch s = WatchIdle" using e by (auto simp: exit_inv_def Let_def)
  moreover have "watch_left (s_watch s) \<le> 8" by (cases "s_watch s") (auto intro: order_trans [OF f])
  moreover have "main_left (s_main s) \<le> (if starting (s_main s) then 23 else 8)"
    by (cases "s_main s") (auto simp: starting_def intro: order_trans [OF f])
  ultimately show ?thesis by (auto simp: session_left_def split: if_splits)
qed

lemma session_own_step:
  assumes "session_step env s l s'" and "session_own l" and "exit_inv s" and "\<forall>m. l \<noteq> StartReturns (Panic m)"
  shows "session_left s' < session_left s"
  using assms
proof (induction rule: session_step.induct)
  case (start_returns s r)
  then have "s_watch s = WatchIdle" "\<not> is_panic r" by (auto simp: exit_inv_def Let_def; cases r; simp)+
  with start_left [OF start_returns(2)] show ?case by simp
next
  case (wait_returns s code err)
  then show ?case by (cases err) (simp_all add: session_left_def session_ops)
next
  case (main_fin s f lines f' s')
  have "fin_left (fin_stage f') < fin_left (fin_stage f)" by (rule fin_left_step [OF main_fin(4,3)])
  moreover have "kill_left (s_kill s') \<le> kill_left (s_kill s)"
    using finalize_step_effect [OF main_fin(4,3)] main_fin(2,6) by (auto simp: exit_inv_def Let_def)
  ultimately show ?case using finalize_step_frame(5) [OF main_fin(4)] main_fin(2) by (simp add: session_left_def)
next
  case (run_returns s f)
  then show ?case using fin_left_pos [of "fin_stage f"] by (simp add: session_left_def)
next
  case (watch_fin s f lines f' s')
  have "fin_left (fin_stage f') < fin_left (fin_stage f)" by (rule fin_left_step [OF watch_fin(4,3)])
  moreover have "kill_left (s_kill s') \<le> kill_left (s_kill s)"
    using finalize_step_effect [OF watch_fin(4,3)] watch_fin(2,6) by (auto simp: exit_inv_def Let_def)
  ultimately show ?case using finalize_step_frame(4) [OF watch_fin(4)] watch_fin(2) by (simp add: session_left_def)
next
  case (watch_returns s f)
  then show ?case using fin_left_pos [of "fin_stage f"] by (simp add: session_left_def)
qed (simp_all add: session_left_def session_ops)

text \<open>While \<open>Run\<close> waits the context is watched, and who has lost the lock of \<open>finalize\<close> found it taken.\<close>

definition watched_inv :: "session \<Rightarrow> bool" where
  "watched_inv s \<longleftrightarrow> (s_main s = MainWait \<longrightarrow> s_watch s \<noteq> WatchIdle) \<and>
     (\<forall>f. s_main s \<in> {MainFinalize f, MainReturned f} \<and> fin_stage f = FinLost \<longrightarrow> locked (s_finished s) \<noteq> 0)"

lemma watched_inv_step: "session_step env s l s' \<Longrightarrow> session_inv env s \<Longrightarrow> watched_inv s \<Longrightarrow> watched_inv s'"
proof (induction rule: session_step.induct)
  case (run_call s)
  then show ?case by (cases "locked (s_started s) = 0") (auto simp: run_called_simps watched_inv_def)
next
  case (start_returns s r)
  have "s_main (start_step env (s_main s) r s) \<noteq> MainWait \<or> s_watch (start_step env (s_main s) r s) \<noteq> WatchIdle"
    "\<forall>f. s_main (start_step env (s_main s) r s) \<in> {MainFinalize f, MainReturned f} \<longrightarrow> fin_stage f = FinLock"
    using start_returns(2) by (cases "(env, s_main s, r, s)" rule: start_step.cases; cases r;
        auto simp: starting_def session_ops)+
  then show ?case by (auto simp: watched_inv_def)
next
  case (wait_returns s code err)
  then show ?case by (cases err) (auto simp: watched_inv_def session_ops)
next
  case (main_fin s f lines f' s')
  then show ?case using finalize_step_effect [OF main_fin(4,3)] finalize_step_frame(5) [OF main_fin(4)]
    by (auto simp: watched_inv_def split: if_splits)
next
  case (run_returns s f)
  then show ?case by (auto simp: watched_inv_def)
next
  case (watch_fin s f lines f' s')
  then show ?case using finalize_step_effect [OF watch_fin(4,3)] finalize_step_frame(4) [OF watch_fin(4)]
    by (auto simp: watched_inv_def split: if_splits)
qed (auto simp: watched_inv_def session_ops)

text \<open>All goroutines but those that copy have returned.\<close>

definition session_drained :: "session \<Rightarrow> bool" where
  "session_drained s \<longleftrightarrow> (\<exists>f. s_main s = MainReturned f) \<and> (s_watch s = WatchIdle \<or> (\<exists>f. s_watch s = WatchReturned f)) \<and>
     s_kill s = KillDone"

text \<open>Who can act, when the context is done.\<close>

lemma fin_steps:
  assumes "s_crash s = None"
  shows "s_main s = MainFinalize f \<Longrightarrow> \<exists>l s'. session_step env s l s' \<and> session_only l \<and> session_own l"
    and "s_watch s = WatchFinalize f \<Longrightarrow> \<exists>l s'. session_step env s l s' \<and> session_only l \<and> session_own l"
proof -
  obtain f' s' where f: "finalize_step env [] f s = (f', s')" by (metis prod.exhaust)
  show "\<exists>l s'. session_step env s l s' \<and> session_only l \<and> session_own l" if "s_main s = MainFinalize f"
    using main_fin [OF assms that _ f] run_returns [OF assms that, of env]
    by (cases "fin_returned f") (force intro: exI [of _ RunReturns] exI [of _ "MainFin []"])+
  show "\<exists>l s'. session_step env s l s' \<and> session_only l \<and> session_own l" if "s_watch s = WatchFinalize f"
    using watch_fin [OF assms that _ f] watch_returns [OF assms that, of env]
    by (cases "fin_returned f") (force intro: exI [of _ WatchReturns] exI [of _ "WatchFin []"])+
qed

lemma watch_goes_on:
  assumes "s_crash s = None" and "s_ctx s" and "s_watch s \<noteq> WatchIdle" and "\<nexists>f. s_watch s = WatchReturned f"
  shows "\<exists>l s'. session_step env s l s' \<and> session_only l \<and> session_own l"
proof (cases "s_watch s")
  case WatchWait
  from watch_fires [OF assms(1) this assms(2), of env] show ?thesis by (force intro: exI [of _ WatchFires])
qed (use assms fin_steps(2) in auto)

text \<open>Between the exit and \<open>killProcess\<close> nothing is lost.\<close>

lemma killed_cases:
  assumes "exit_inv s" and "lost_inv s" and "watched_inv s"
    and "s_main s = MainWait \<or> (\<exists>f. s_main s = MainReturned f)"
    and "s_watch s = WatchIdle \<or> (\<exists>f. s_watch s = WatchReturned f)"
  shows "s_kill s = KillCleanup \<or> s_kill s = KillDone"
proof (rule ccontr)
  assume "\<not> (s_kill s = KillCleanup \<or> s_kill s = KillDone)"
  then have idle: "s_kill s = KillIdle" by (cases "s_kill s") simp_all
  have w: "watch_rank (s_watch s) = 0 \<and> (s_watch s \<noteq> WatchIdle \<longrightarrow> locked (s_finished s) \<noteq> 0)"
    using assms(5)
  proof
    assume "\<exists>f. s_watch s = WatchReturned f"
    then obtain f where f: "s_watch s = WatchReturned f" by blast
    with assms(2) have "fin_returned f" "fin_stage f = FinLost \<longrightarrow> locked (s_finished s) \<noteq> 0" by (simp_all add: lost_inv_def)
    moreover have "fin_stage f \<noteq> FinDone" using assms(1) idle f by (auto simp: exit_inv_def Let_def)
    ultimately show ?thesis using f by (auto simp: fin_returned_def)
  qed simp
  have m: "main_rank (s_main s) = 0 \<and> (s_main s \<noteq> MainWait \<longrightarrow> locked (s_finished s) \<noteq> 0)"
    using assms(4)
  proof
    assume "\<exists>f. s_main s = MainReturned f"
    then obtain f where f: "s_main s = MainReturned f" by blast
    with assms(2,3) have "fin_returned f" "fin_stage f = FinLost \<longrightarrow> locked (s_finished s) \<noteq> 0"
      by (simp_all add: lost_inv_def watched_inv_def)
    moreover have "fin_stage f \<noteq> FinDone" using assms(1) idle f by (auto simp: exit_inv_def Let_def)
    ultimately show ?thesis using f by (auto simp: fin_returned_def)
  qed simp
  have "locked (s_finished s) = 0" using assms(1) w m by (simp add: exit_inv_def Let_def)
  with w m have "s_watch s = WatchIdle" "s_main s = MainWait" by auto
  with assms(3) show False by (simp add: watched_inv_def)
qed

lemma starting_calls: "starting (s_main s) \<Longrightarrow> \<exists>c. calls_now s c \<and> c \<noteq> CallWait"
  by (rule exI [of _ "the (next_call (s_main s))"]) (auto simp: starting_def calls_now_def)

lemma session_goes_on:
  assumes "session_inv env s" and "watched_inv s" and "s_crash s = None" and "s_ctx s" and "s_main s \<noteq> MainIdle"
  obtains (own) l s' where "session_step env s l s'" "session_only l" "session_own l"
  | (call) c where "calls_now s c" "c \<noteq> CallWait"
  | (waiting) "s_main s = MainWait" "CallCleanup \<in> set (s_calls s)"
  | (drained) "session_drained s" "CallCleanup \<in> set (s_calls s)"
proof -
  from assms(1) have i: "exit_inv s" "lost_inv s" by (simp_all add: session_inv_def)
  have cleaned: "CallCleanup \<in> set (s_calls s)" if "s_kill s = KillDone"
    using i(1) that by (auto simp: exit_inv_def Let_def count_list_0_iff intro: ccontr)
  show thesis
  proof (cases "s_main s")
    case (MainFinalize f)
    with own fin_steps(1) [OF assms(3)] show thesis by blast
  next
    case MainWait
    then have w: "s_watch s \<noteq> WatchIdle" using assms(2) by (simp add: watched_inv_def)
    show thesis
    proof (cases "\<exists>f. s_watch s = WatchReturned f")
      case True
      with killed_cases [OF i assms(2)] MainWait consider "s_kill s = KillCleanup" | "s_kill s = KillDone" by blast
      then show thesis
      proof cases
        case 1
        then show thesis using call [of CallCleanup] by (simp add: calls_now_def)
      next
        case 2
        with waiting MainWait cleaned show thesis by blast
      qed
    next
      case False
      with own watch_goes_on [OF assms(3,4) w] show thesis by blast
    qed
  next
    case (MainReturned f)
    show thesis
    proof (cases "s_watch s = WatchIdle \<or> (\<exists>g. s_watch s = WatchReturned g)")
      case True
      with killed_cases [OF i assms(2)] MainReturned consider "s_kill s = KillCleanup" | "s_kill s = KillDone" by blast
      then show thesis
      proof cases
        case 1
        then show thesis using call [of CallCleanup] by (simp add: calls_now_def)
      next
        case 2
        with drained MainReturned True cleaned show thesis by (simp add: session_drained_def)
      qed
    next
      case False
      with own watch_goes_on [OF assms(3,4)] show thesis by blast
    qed
  qed (use assms(5) call starting_calls [of s] in \<open>auto simp: starting_def\<close>)
qed

text \<open>A method that is called now has not been called before.\<close>

lemma calls_now_new:
  assumes "session_inv env s" and "s_crash s = None" and "calls_now s c"
  shows "c \<notin> set (s_calls s)"
proof (cases "c = CallCleanup")
  case True
  with assms have "s_kill s = KillCleanup" "exit_inv s" by (simp_all add: calls_now_def session_inv_def)
  with True show ?thesis by (simp add: exit_inv_def Let_def count_list_0_iff)
next
  case False
  with assms(3) have "next_call (s_main s) = Some c" by (simp add: calls_now_def)
  with assms(1,2) have "main_calls s = takeWhile (\<lambda>x. x \<noteq> c) (call_order (se_pty env))"
    using order_inv_call(1) by (simp add: session_inv_def)
  then have "c \<notin> set (main_calls s)" by (auto dest: set_takeWhileD)
  with False show ?thesis by (simp add: main_calls_def)
qed

lemma main_idle_step: "session_step env s l s' \<Longrightarrow> session_inv env s \<Longrightarrow> s_main s \<noteq> MainIdle \<Longrightarrow> s_main s' \<noteq> MainIdle"
proof (induction rule: session_step.induct)
  case (run_call s)
  then show ?case by (cases "locked (s_started s) = 0") (auto simp: run_called_simps)
next
  case (start_returns s r)
  then show ?case using start_step_main(1) by blast
next
  case (wait_returns s code err)
  then show ?case by (cases err) (simp_all add: session_ops)
next
  case (watch_fin s f lines f' s')
  then show ?case using finalize_step_frame(4) [OF watch_fin(4)] by simp
qed (auto simp: session_ops)

lemma kill_step: "session_step env s l s' \<Longrightarrow> s_kill s \<noteq> KillIdle \<Longrightarrow> s_kill s' \<noteq> KillIdle"
proof (induction rule: session_step.induct)
  case (run_call s)
  then show ?case by (cases "locked (s_started s) = 0") (auto simp: run_called_simps)
next
  case (start_returns s r)
  then show ?case using start_step_frame(4) by metis
next
  case (wait_returns s code err)
  then show ?case by (cases err) (simp_all add: session_ops)
next
  case (main_fin s f lines f' s')
  then show ?case using finalize_step_effect [OF main_fin(4,3)] by (simp split: if_splits)
next
  case (watch_fin s f lines f' s')
  then show ?case using finalize_step_effect [OF watch_fin(4,3)] by (simp split: if_splits)
qed (auto simp: session_ops)

lemma waiting_step: "session_step env s l s' \<Longrightarrow> session_only l \<Longrightarrow> session_inv env s \<Longrightarrow> s_main s' = MainWait \<longleftrightarrow> s_main s = MainWait"
proof (induction rule: session_step.induct)
  case (run_call s)
  then have "exit_inv s" by (simp add: session_inv_def)
  then have "s_main s = MainIdle \<longleftrightarrow> locked (s_started s) = 0" by (simp add: exit_inv_def Let_def)
  then show ?case by (cases "locked (s_started s) = 0") (auto simp: run_called_simps)
next
  case (main_fin s f lines f' s')
  then show ?case by simp
next
  case (watch_fin s f lines f' s')
  then show ?case using finalize_step_frame(4) [OF watch_fin(4)] by simp
qed (auto simp: session_ops)

text \<open>
  The steps that need no client: all but those that call \<open>Run\<close>, end the context or let a goroutine
  that copies return, and but the actions of the process that wait for the client.
\<close>

fun no_client :: "('k \<Rightarrow> bool) \<Rightarrow> 'k joint_label \<Rightarrow> bool" where
  "no_client client (OfSession l) \<longleftrightarrow> session_own l"
| "no_client client (OfProcess k) \<longleftrightarrow> \<not> client k"
| "no_client client (OfMisuse k) \<longleftrightarrow> False"

lemma joint_exec_append:
  "joint_exec env pnext ev (ks @ ls) x = Option.bind (joint_exec env pnext ev ks x) (joint_exec env pnext ev ls)"
  by (induction ks arbitrary: x) (auto split: option.splits)

section \<open>The process\<close>

fun returned_call :: "proc_event \<Rightarrow> proc_call option" where
  "returned_call (Returns c r) = Some c"
| "returned_call (WaitReturned code err) = Some CallWait"
| "returned_call (CleanReturned b) = Some CallCleanup"
| "returned_call e = None"

text \<open>
  The contract.  \<open>started\<close>: \<open>Start\<close> has returned without an error; \<open>cleaning\<close>, \<open>cleaned\<close>:
  \<open>Cleanup\<close> was called, has returned; \<open>inside\<close>: \<open>Wait\<close> is under way; \<open>client\<close>: an action
  that waits for the client.  A method that was called goes on until it returns; \<open>Wait\<close> does so
  when the process was cleaned up and its context is done, or else a goroutine of the process does;
  and after \<open>Cleanup\<close> the goroutines of the process end.  \<open>left\<close> bounds the actions that are
  left without the client, but for the returns of methods.
\<close>

locale draining_process = session_process pstep ev pinv inited live waited
  for pstep :: "'p \<Rightarrow> 'k \<Rightarrow> 'p \<Rightarrow> bool" and ev :: "'k \<Rightarrow> proc_event" and pinv inited :: "'p \<Rightarrow> bool"
    and live :: "'p \<Rightarrow> string set" and waited :: "'p \<Rightarrow> (int \<times> go_error option) option" +
  fixes dinv started cleaning cleaned inside :: "'p \<Rightarrow> bool"
    and answered :: "'p \<Rightarrow> proc_call \<Rightarrow> bool"
    and client :: "'k \<Rightarrow> bool"
    and left :: "'p \<Rightarrow> nat"
  assumes d_inv: "pstep p k p' \<Longrightarrow> pinv p \<Longrightarrow> dinv p \<Longrightarrow>
      (cleaning p \<longrightarrow> event_call (ev k) \<in> {None, Some CallWait, Some CallCleanup}) \<Longrightarrow> dinv p'"
    and d_returns: "pstep p k p' \<Longrightarrow> ev k = Returns c r \<Longrightarrow> c \<noteq> CallWait \<and> c \<noteq> CallCleanup"
    and d_answered: "pstep p k p' \<Longrightarrow> pinv p \<Longrightarrow> dinv p \<Longrightarrow> answered p' c \<Longrightarrow> answered p c \<or> returned_call (ev k) = Some c"
    and d_started: "pstep p k p' \<Longrightarrow> pinv p \<Longrightarrow> dinv p \<Longrightarrow> started p \<or> ev k = Returns CallStart (Ok ()) \<Longrightarrow> started p'"
    and d_cleaning: "pstep p k p' \<Longrightarrow> pinv p \<Longrightarrow> cleaning p' \<Longrightarrow> cleaning p \<or> event_call (ev k) = Some CallCleanup"
    and d_cleaned: "pstep p k p' \<Longrightarrow> pinv p \<Longrightarrow> dinv p \<Longrightarrow> cleaned p \<or> returned_call (ev k) = Some CallCleanup \<Longrightarrow> cleaned p'"
    and d_inside: "pstep p k p' \<Longrightarrow> pinv p \<Longrightarrow> dinv p \<Longrightarrow> inside p' \<Longrightarrow>
      (inside p \<or> event_call (ev k) = Some CallWait) \<and> returned_call (ev k) \<noteq> Some CallWait"
    and d_left: "pstep p k p' \<Longrightarrow> pinv p \<Longrightarrow> dinv p \<Longrightarrow> \<not> client k \<Longrightarrow> \<not> event_panics (ev k) \<Longrightarrow>
      left p' + (if returned_call (ev k) = None then 1 else 0) \<le> left p"
    and d_call: "pinv p \<Longrightarrow> dinv p \<Longrightarrow> c \<noteq> CallWait \<Longrightarrow> \<not> answered p c \<Longrightarrow> inited p \<longleftrightarrow> c \<noteq> CallInit \<Longrightarrow>
      \<exists>k p'. pstep p k p' \<and> \<not> client k \<and> event_call (ev k) = Some c"
    and d_wait: "pinv p \<Longrightarrow> dinv p \<Longrightarrow> inited p \<Longrightarrow> started p \<Longrightarrow> cleaned p \<Longrightarrow> waited p = None \<Longrightarrow>
      \<exists>k p'. pstep p k p' \<and> \<not> client k \<and> event_call (ev k) \<in> {None, Some CallWait}"
    and d_drain: "pinv p \<Longrightarrow> dinv p \<Longrightarrow> inited p \<Longrightarrow> cleaned p \<Longrightarrow> \<not> inside p \<Longrightarrow> live p \<noteq> {} \<Longrightarrow>
      \<exists>k p'. pstep p k p' \<and> \<not> client k \<and> event_call (ev k) = None"
begin

definition drain_ok :: "session_env \<Rightarrow> session \<times> 'p \<Rightarrow> bool" where
  "drain_ok env x \<longleftrightarrow> joint_ok env x \<and> (case x of (s, p) \<Rightarrow>
     watched_inv s \<and> dinv p \<and> (\<forall>c. answered p c \<longrightarrow> c \<in> set (s_calls s)) \<and> (s_main s = MainWait \<longrightarrow> started p) \<and>
     (cleaning p \<longrightarrow> s_kill s \<noteq> KillIdle) \<and> (CallCleanup \<in> set (s_calls s) \<longrightarrow> cleaned p) \<and> (inside p \<longrightarrow> s_main s = MainWait))"

lemma drain_joint: "drain_ok env x \<Longrightarrow> joint_ok env x"
  by (simp add: drain_ok_def)

text \<open>The process's part of a step, whatever the session does in it.\<close>

lemma drain_order:
  assumes "drain_ok env (s, p)" and "caller_ready s e"
  shows "cleaning p \<longrightarrow> event_call e \<in> {None, Some CallWait, Some CallCleanup}"
proof
  assume "cleaning p"
  with assms(1) have k: "s_kill s \<noteq> KillIdle" "session_inv env s" by (simp_all add: drain_ok_def joint_ok_def)
  have "\<not> starting (s_main s)" using starting_not_killed [OF k(2)] k(1) by blast
  with assms(2) show "event_call e \<in> {None, Some CallWait, Some CallCleanup}"
    by (cases "event_call e"; cases "s_main s") (auto simp: caller_ready_def calls_now_def starting_def split: if_splits)
qed

lemma drain_session:
  assumes "session_step env s l s'" and "session_only l" and "drain_ok env (s, p)"
  shows "drain_ok env (s', p)"
proof -
  from assms(3) have i: "session_inv env s" "watched_inv s" by (simp_all add: drain_ok_def joint_ok_def)
  have j: "joint_ok env (s', p)" by (rule joint_session_ok [OF assms(1,2) drain_joint [OF assms(3)]])
  have "session_inv env s'" by (rule sess.inv_step [OF assms(1) i(1)])
  note e = session_only_effect [OF assms(1,2) i(1) this]
  from assms(3) e j waiting_step [OF assms(1,2) i(1)] watched_inv_step [OF assms(1) i] kill_step [OF assms(1)]
  show ?thesis by (auto simp: drain_ok_def)
qed

lemma drain_quiet:
  assumes "caller_ready s (ev k)" and "pstep p k p'" and "event_label (ev k) = None" and "s_crash s = None"
    and "drain_ok env (s, p)"
  shows "drain_ok env (s, p')"
proof -
  from assms(5) have i: "pinv p" "dinv p" by (simp_all add: drain_ok_def joint_ok_def)
  have j: "joint_ok env (s, p')"
    by (rule joint_ok_step [OF joint_quiet [where ev = ev and pstep = pstep, OF assms(4,1,2,3)] drain_joint [OF assms(5)]])
  have r: "returned_call (ev k) = None" "\<not> ev k = Returns CallStart (Ok ())" using assms(3) by (cases "ev k"; simp)+
  have now: "event_call (ev k) = Some c \<Longrightarrow> calls_now s c" for c using assms(1) by (simp add: caller_ready_def)
  have w: "event_call (ev k) = Some CallWait \<Longrightarrow> s_main s = MainWait"
    using now by (cases "s_main s") (auto simp: calls_now_def)
  have cl: "event_call (ev k) = Some CallCleanup \<Longrightarrow> s_kill s \<noteq> KillIdle" using now by (auto simp: calls_now_def)
  from assms(5) j r w cl d_inv [OF assms(2) i drain_order [OF assms(5,1)]] d_answered [OF assms(2) i] d_started [OF assms(2) i]
    d_cleaning [OF assms(2) i(1)] d_cleaned [OF assms(2) i] d_inside [OF assms(2) i]
  show ?thesis by (auto simp: drain_ok_def)
qed

lemma drain_event:
  assumes step: "session_step env s l s'" and l: "event_label (ev k) = Some l" and ready: "caller_ready s (ev k)"
    and p: "pstep p k p'" and ok: "drain_ok env (s, p)"
  shows "drain_ok env (s', p')"
proof -
  from ok have i: "pinv p" "dinv p" "session_inv env s" "watched_inv s" by (simp_all add: drain_ok_def joint_ok_def)
  have j: "joint_ok env (s', p')" by (rule joint_event_ok [OF step l ready p drain_joint [OF ok]])
  then have c: "s_crash s' = None" by (simp add: joint_ok_def)
  note w = watched_inv_step [OF step i(3,4)]
  have safe: "\<not> event_panics (ev k)" using p_safe [OF p i(1)] ready_inited [OF drain_joint [OF ok] ready] by blast
  note d = d_inv [OF p i(1,2) drain_order [OF ok ready]] d_answered [OF p i(1,2)] d_started [OF p i(1,2)]
    d_cleaning [OF p i(1)] d_cleaned [OF p i(1,2)] d_inside [OF p i(1,2)] d_returns [OF p]
  have now: "event_call (ev k) = Some c \<Longrightarrow> calls_now s c" for c using ready by (simp add: caller_ready_def)
  have "(\<forall>c. answered p' c \<longrightarrow> c \<in> set (s_calls s')) \<and> (s_main s' = MainWait \<longrightarrow> started p') \<and>
      (cleaning p' \<longrightarrow> s_kill s' \<noteq> KillIdle) \<and> (CallCleanup \<in> set (s_calls s') \<longrightarrow> cleaned p') \<and>
      (inside p' \<longrightarrow> s_main s' = MainWait)"
  proof (cases "ev k")
    case (Returns c r)
    with l step have st: "session_step env s (StartReturns r) s'" by simp
    then have s: "s_crash s = None" "starting (s_main s)" "s' = start_step env (s_main s) r s"
      by (auto elim: session_step.cases)
    have e: "s_calls s' = s_calls s @ [c]" "s_kill s' = s_kill s"
      using returns_effect [OF st i(3)] now [of c] Returns safe s(2,3) start_step_frame(4) [of s env r] c by auto
    have "\<not> inside p'" using d(6) ok s(2) Returns d(7) [OF Returns] by (auto simp: drain_ok_def starting_def)
    moreover have "s_main s' = MainWait \<Longrightarrow> c = CallStart \<and> r = Ok ()"
      using s now [of c] Returns d(7) [OF Returns] by (cases "(env, s_main s, r, s)" rule: start_step.cases; cases r)
        (auto simp: starting_def session_ops calls_now_def split: if_splits)
    ultimately show ?thesis using ok d e Returns by (auto simp: drain_ok_def)
  next
    case (WaitReturned code err)
    with l step have "session_step env s (session_label.WaitReturns code err) s'" by simp
    then have s: "s_main s = MainWait" "s' = wait_returned env code err s" by (auto elim: session_step.cases)
    have e: "s_calls s' = s_calls s @ [CallWait]" "s_kill s' = s_kill s" "s_main s' \<noteq> MainWait"
      unfolding s by (cases err; simp add: session_ops)+
    with ok d WaitReturned show ?thesis by (auto simp: drain_ok_def)
  next
    case (CleanReturned b)
    with l step have "session_step env s (CleanupReturns b) s'" by simp
    then have "s' = kill_returned env b s" by (auto elim: session_step.cases)
    then have e: "s_calls s' = s_calls s @ [CallCleanup]" "s_kill s' = KillDone" "s_main s' = s_main s"
      by (simp_all add: session_ops)
    with ok d CleanReturned show ?thesis by (auto simp: drain_ok_def)
  next
    case (Panics c)
    with l step have "session_step env s ProcPanics s'" by simp
    then have "s_crash s' \<noteq> None" by (auto elim: session_step.cases simp: crash_process_def)
    with c show ?thesis by simp
  next
    case (Own y)
    with l step obtain x where "session_step env s (ProcDet x) s'" by auto
    then have e: "s_calls s' = s_calls s" "s_kill s' = s_kill s" "s_main s' = s_main s" by (auto elim: session_step.cases)
    with ok d Own show ?thesis by (auto simp: drain_ok_def)
  next
    case (Inside c y)
    with l step obtain x where "session_step env s (ProcDet x) s'" by auto
    then have e: "s_calls s' = s_calls s" "s_kill s' = s_kill s" "s_main s' = s_main s" by (auto elim: session_step.cases)
    have "c = CallWait \<Longrightarrow> s_main s = MainWait" "c = CallCleanup \<Longrightarrow> s_kill s \<noteq> KillIdle"
      using now [of c] Inside by (cases "s_main s"; auto simp: calls_now_def)+
    with ok d e Inside show ?thesis by (auto simp: drain_ok_def)
  next
    case CtxSeen
    with l show ?thesis by simp
  qed
  with j w d(1) show ?thesis by (simp add: drain_ok_def)
qed

lemma drain_ok_step: "joint_step env pstep ev x l y \<Longrightarrow> drain_ok env x \<Longrightarrow> drain_ok env y"
proof (induction rule: joint_step.induct)
  case (joint_session s l s' p)
  then show ?case by (rule drain_session)
next
  case (joint_quiet s k p p')
  show ?case by (rule drain_quiet [OF joint_quiet(2,3,4,1,5)])
next
  case (joint_event s k p p' l s')
  show ?case by (rule drain_event [OF joint_event(4,3,1,2,5)])
next
  case (joint_misuse s k p p' x s')
  from joint_ok_step [OF joint_step.joint_misuse [where ev = ev and pstep = pstep, OF joint_misuse(1-5)]
      drain_joint [OF joint_misuse(6)]]
  have "s_crash s' = None" by (simp add: joint_ok_def)
  moreover have "s_crash s' \<noteq> None" using joint_misuse(5) by (auto elim: session_step.cases simp: crash_process_def)
  ultimately show ?case by simp
qed

lemma det_legal_ok:
  assumes "session_inv env s" and "proc_out s = L" and "\<not> session_name (det_name x)" and "spec_op x L \<noteq> None"
  shows "\<exists>d. det_apply x (s_detector s) = (Ok (), d)"
proof -
  have inv: "det_inv (s_detector s)" using assms(1) by (simp add: session_inv_def det_ok_def track_def)
  from det_legal [OF assms] det_apply_spec [OF inv, of x] show ?thesis by (auto split: option.splits)
qed

lemma det_uninited:
  assumes "pstep p k p'" and "pinv p" and "\<not> inited p" and "\<not> needs_init (ev k)"
  shows "event_det (ev k) = None"
proof (rule ccontr)
  assume "event_det (ev k) \<noteq> None"
  then obtain x where x: "event_det (ev k) = Some x" by blast
  then have "\<not> inited p'" using p_inited [OF assms(1,2)] assms(3) by auto
  moreover have "pinv p'" using p_safe [OF assms(1,2)] assms(4) by blast
  moreover have "spec_op x {} = Some (live p')" using p_det [OF assms(1,2)] assms(3,4) x p_idle [OF assms(2,3)] by simp
  ultimately show False using p_idle [of p'] by (cases x) (auto split: if_splits)
qed

text \<open>A step of the process is one of the two together.\<close>

lemma proc_moves:
  assumes p: "pstep p k p'" and ready: "caller_ready s (ev k)" and ok: "drain_ok env (s, p)"
  shows "\<exists>s'. joint_step env pstep ev (s, p) (OfProcess k) (s', p')"
proof -
  note jok = drain_joint [OF ok]
  from jok have i: "pinv p" "session_inv env s" "s_crash s = None" "proc_out s = live p"
      "inited p = (CallInit \<in> set (s_calls s))"
    by (simp_all add: joint_ok_def)
  have init: "needs_init (ev k) \<longrightarrow> inited p" using ready_inited [OF jok ready] by blast
  have safe: "\<not> event_panics (ev k)" using p_safe [OF p i(1) init] by simp
  note event = joint_event [where ev = ev and pstep = pstep and env = env, OF ready p]
  note quiet = joint_quiet [where ev = ev and pstep = pstep and env = env, OF i(3) ready p]
  have now: "event_call (ev k) = Some c \<Longrightarrow> calls_now s c" for c using ready by (simp add: caller_ready_def)
  have det: "\<exists>s'. joint_step env pstep ev (s, p) (OfProcess k) (s', p')"
    if x: "event_det (ev k) = Some x" "event_label (ev k) = Some (ProcDet x)" for x
  proof -
    have legal: "\<not> session_name (det_name x)" "spec_op x (live p) = Some (live p')" using p_det [OF p i(1) init] x by simp_all
    have "s_main s \<noteq> MainIdle"
    proof
      assume "s_main s = MainIdle"
      then have "\<not> inited p" using idle_no_calls [OF i(2)] i(5) by simp
      with det_uninited [OF p i(1)] init x(1) show False by simp
    qed
    moreover obtain d where "det_apply x (s_detector s) = (Ok (), d)"
      using det_legal_ok [OF i(2,4) legal(1)] legal(2) by auto
    ultimately have "session_step env s (ProcDet x) (s\<lparr>s_detector := d\<rparr>)"
      using proc_det [OF i(3) _ legal(1)] by auto
    from event [OF x(2) this] show ?thesis by blast
  qed
  show ?thesis
  proof (cases "ev k")
    case (Returns c r)
    note c = now [of c] d_returns [OF p Returns]
    have "starting (s_main s)" using c Returns by (cases "s_main s") (auto simp: calls_now_def starting_def)
    from event [OF _ start_returns [OF i(3) this]] Returns show ?thesis by auto
  next
    case (WaitReturned code err)
    have "s_main s = MainWait" using now [of CallWait] WaitReturned by (cases "s_main s") (auto simp: calls_now_def)
    from event [OF _ wait_returns [OF i(3) this]] WaitReturned show ?thesis by auto
  next
    case (CleanReturned b)
    have "s_kill s = KillCleanup" using now [of CallCleanup] CleanReturned by (simp add: calls_now_def)
    from event [OF _ cleanup_returns [OF i(3) this]] CleanReturned show ?thesis by auto
  next
    case (Panics c)
    with safe show ?thesis by simp
  next
    case (Own y)
    with det quiet show ?thesis by (cases y) auto
  next
    case (Inside c y)
    with det quiet show ?thesis by (cases y) auto
  next
    case CtxSeen
    with quiet show ?thesis by auto
  qed
qed

text \<open>Without the client, every step of the two leaves them with less to do.\<close>

lemma event_own: "event_label e = Some l \<Longrightarrow> returned_call e \<noteq> None \<Longrightarrow> session_own l"
  by (cases e) auto

definition to_go :: "session \<times> 'p \<Rightarrow> nat" where
  "to_go x = session_left (fst x) + left (snd x)"

lemma event_left:
  assumes "session_step env s l s'" and "event_label e = Some l" and "exit_inv s" and "\<not> event_panics e"
  shows "session_left s' + (if returned_call e = None then 0 else 1) \<le> session_left s"
proof (cases "returned_call e")
  case None
  with assms(2,4) obtain x where "l = ProcDet x" by (cases e) auto
  with assms(1) show ?thesis using None by (auto elim: session_step.cases simp: session_left_def)
next
  case (Some c)
  have "\<forall>m. l \<noteq> StartReturns (Panic m)" using assms(2,4) by (cases e) auto
  from session_own_step [OF assms(1) event_own [OF assms(2)] assms(3) this] Some show ?thesis by simp
qed

lemma to_go_step:
  assumes "joint_step env pstep ev x l y" and "drain_ok env x" and "no_client client l"
  shows "to_go y < to_go x"
  using assms(1)
proof cases
  case (joint_session s l s' p)
  with assms have "exit_inv s" "session_own l" "\<forall>m. l \<noteq> StartReturns (Panic m)"
    by (auto simp: drain_ok_def joint_ok_def session_inv_def)
  with joint_session session_own_step show ?thesis by (simp add: to_go_def)
next
  case (joint_quiet s k p p')
  with assms have i: "pinv p" "dinv p" "\<not> client k" by (simp_all add: drain_ok_def joint_ok_def)
  have e: "\<not> event_panics (ev k)" "returned_call (ev k) = None" using joint_quiet(7) by (cases "ev k"; simp)+
  from d_left [OF joint_quiet(6) i e(1)] e(2) joint_quiet show ?thesis by (simp add: to_go_def)
next
  case (joint_event s k p p' m s')
  with assms have i: "pinv p" "dinv p" "\<not> client k" "exit_inv s" by (simp_all add: drain_ok_def joint_ok_def session_inv_def)
  have "needs_init (ev k) \<longrightarrow> inited p"
    using assms(2) ready_inited [OF drain_joint joint_event(4)] joint_event(1) by blast
  with p_safe [OF joint_event(5) i(1)] have e: "\<not> event_panics (ev k)" by simp
  have "to_go y + 1 \<le> to_go x"
    using d_left [OF joint_event(5) i(1-3) e] event_left [OF joint_event(7,6) i(4) e] joint_event(1,3)
    by (simp add: to_go_def split: if_splits)
  then show ?thesis by simp
qed (use assms(3) in simp)

text \<open>And some step is possible, until everything but the copiers has returned.\<close>

definition drained :: "session \<times> 'p \<Rightarrow> bool" where
  "drained x \<longleftrightarrow> session_drained (fst x) \<and> CallCleanup \<in> set (s_calls (fst x)) \<and> live (snd x) = {}"

lemma proc_progress:
  assumes "pstep p k p'" and "caller_ready s (ev k)" and "drain_ok env (s, p)" and "\<not> client k"
  shows "\<exists>l y. joint_step env pstep ev (s, p) l y \<and> no_client client l"
proof -
  from proc_moves [OF assms(1-3)] obtain s' where "joint_step env pstep ev (s, p) (OfProcess k) (s', p')" by blast
  with assms(4) show ?thesis by (intro exI [of _ "OfProcess k"] exI [of _ "(s', p')"]) simp
qed

lemma inited_now:
  assumes "drain_ok env (s, p)" and "calls_now s c"
  shows "inited p \<longleftrightarrow> c \<noteq> CallInit" and "\<not> answered p c"
proof -
  from assms(1) have i: "session_inv env s" "s_crash s = None" "inited p = (CallInit \<in> set (s_calls s))"
    by (simp_all add: drain_ok_def joint_ok_def)
  from calls_now_new [OF i(1,2) assms(2)] have new: "c \<notin> set (s_calls s)" .
  show "inited p \<longleftrightarrow> c \<noteq> CallInit"
    using new i(3) ready_inited [OF drain_joint [OF assms(1)], of "Inside c None"] assms(2)
    by (auto simp: caller_ready_def needs_init_def)
  show "\<not> answered p c" using new assms(1) by (auto simp: drain_ok_def)
qed

lemma begun_inited: "joint_ok env (s, p) \<Longrightarrow> s_main s \<notin> {MainIdle, MainInit} \<Longrightarrow> inited p"
  by (cases "s_calls s") (auto simp: joint_ok_def begun_def)

lemma drain_progress:
  assumes ok: "drain_ok env (s, p)" and ctx: "s_ctx s" and run: "s_main s \<noteq> MainIdle" and more: "\<not> drained (s, p)"
  shows "\<exists>l y. joint_step env pstep ev (s, p) l y \<and> no_client client l"
proof -
  from ok have i: "session_inv env s" "watched_inv s" "s_crash s = None" "pinv p" "dinv p" "s_waited s = waited p"
      "CallCleanup \<in> set (s_calls s) \<longrightarrow> cleaned p" "s_main s = MainWait \<longrightarrow> started p" "inside p \<longrightarrow> s_main s = MainWait"
    by (simp_all add: drain_ok_def joint_ok_def)
  then have "cause_inv s" by (simp add: session_inv_def)
  note go = proc_progress [OF _ _ ok]
  have ready: "caller_ready s e" if "case event_call e of None \<Rightarrow> True | Some c \<Rightarrow> calls_now s c" for e
    using that ctx by (simp add: caller_ready_def)
  from i(1-3) ctx run show ?thesis
  proof (cases rule: session_goes_on)
    case (own l s')
    with joint_session [OF own(1,2)] show ?thesis
      by (intro exI [of _ "OfSession l"] exI [of _ "(s', p)"]) simp
  next
    case (call c)
    from d_call [OF i(4,5) call(2) inited_now(2,1) [OF ok call(1)]] obtain k p' where
      "pstep p k p'" "\<not> client k" "event_call (ev k) = Some c" by blast
    with call(1) show ?thesis using go ready [of "ev k"] by simp
  next
    case waiting
    with \<open>cause_inv s\<close> i(6) have "waited p = None" by (simp add: cause_inv_def)
    with d_wait [OF i(4,5)] begun_inited [OF drain_joint [OF ok]] waiting i(7,8) obtain k p' where k: "pstep p k p'"
        "\<not> client k" "event_call (ev k) \<in> {None, Some CallWait}" by auto
    moreover have "calls_now s CallWait" using waiting by (simp add: calls_now_def)
    ultimately show ?thesis using go [OF k(1)] ready [of "ev k"] by (auto split: option.splits)
  next
    case drained
    then have "s_main s \<notin> {MainIdle, MainInit, MainWait}" by (auto simp: session_drained_def)
    with d_drain [OF i(4,5)] begun_inited [OF drain_joint [OF ok]] drained i(7,9) more obtain k p' where
      k: "pstep p k p'" "\<not> client k" "event_call (ev k) = None" by (auto simp: drained_def)
    then show ?thesis using go [OF k(1)] ready [of "ev k"] by simp
  qed
qed

lemma joint_stays:
  assumes "joint_step env pstep ev x l y" and "joint_ok env x" and "s_ctx (fst x)" and "s_main (fst x) \<noteq> MainIdle"
  shows "s_ctx (fst y) \<and> s_main (fst y) \<noteq> MainIdle"
  using assms(1)
proof cases
  case (joint_session s l s' p)
  with assms s_ctx_mono [OF joint_session(4)] main_idle_step [OF joint_session(4)] show ?thesis by (simp add: joint_ok_def)
next
  case (joint_quiet s k p p')
  with assms show ?thesis by simp
next
  case (joint_event s k p p' l s')
  with assms s_ctx_mono [OF joint_event(7)] main_idle_step [OF joint_event(7)] show ?thesis by (simp add: joint_ok_def)
next
  case (joint_misuse s k p p' x s')
  with assms s_ctx_mono [OF joint_misuse(8)] main_idle_step [OF joint_misuse(8)] show ?thesis by (simp add: joint_ok_def)
qed

lemma drain_ok_new:
  assumes "pinv p" and "dinv p" and "\<not> inited p" and "waited p = None" and "\<And>c. \<not> answered p c"
    and "\<not> cleaning p" and "\<not> inside p"
  shows "drain_ok env (new_session lg, p)"
  using assms joint_ok_new [OF assms(1,3,4), of env lg]
  by (simp add: drain_ok_def) (simp add: new_session_def watched_inv_def)

end

sublocale draining_process \<subseteq> draining: step_invariant "joint_step env pstep ev" "drain_ok env" for env
  by unfold_locales (rule drain_ok_step)

sublocale draining_process \<subseteq> undisturbed: step_bound "\<lambda>x l y. joint_step env pstep ev x l y \<and> no_client client l"
    "\<lambda>x. drain_ok env x \<and> s_ctx (fst x) \<and> s_main (fst x) \<noteq> MainIdle" "\<lambda>l. True" to_go for env
proof
  fix x l y
  assume step: "joint_step env pstep ev x l y \<and> no_client client l"
    and ok: "drain_ok env x \<and> s_ctx (fst x) \<and> s_main (fst x) \<noteq> MainIdle"
  then show "drain_ok env y \<and> s_ctx (fst y) \<and> s_main (fst y) \<noteq> MainIdle"
    using drain_ok_step joint_stays [OF _ drain_joint] by blast
  from step ok to_go_step [of env x l y] show "to_go y + (if True then 1 else 0) \<le> to_go x" by simp
qed

context draining_process
begin

lemma run_undisturbed:
  "run_path (joint_step env pstep ev) x ls y \<Longrightarrow> list_all (no_client client) ls \<Longrightarrow>
     run_path (\<lambda>x l y. joint_step env pstep ev x l y \<and> no_client client l) x ls y"
  by (induction rule: run_path.induct) (auto intro: run_path.intros)

text \<open>
  From the new session on: undisturbed, a session whose context is done comes to its end within a
  fixed number of steps, with the exit status sent, and the detector knows only goroutines that copy.
\<close>

lemma session_drains:
  assumes "run_path (joint_step env pstep ev) (new_session lg, p0) ks (s, p)"
    and "drain_ok env (new_session lg, p0)" and "s_ctx s" and "s_main s \<noteq> MainIdle"
    and "run_path (joint_step env pstep ev) (s, p) ls (s', p')" and "list_all (no_client client) ls"
  shows "length ls \<le> 25 + left p \<and>
    ((\<forall>l y. joint_step env pstep ev (s', p') l y \<longrightarrow> \<not> no_client client l) \<longrightarrow>
     session_drained s' \<and> (\<exists>status. s_exits s' = [status]) \<and> CallCleanup \<in> set (s_calls s') \<and>
     outstanding (s_detector s') = s_copiers s')"
proof
  have ok: "drain_ok env (fst (s, p), snd (s, p)) \<and> s_ctx (fst (s, p)) \<and> s_main (fst (s, p)) \<noteq> MainIdle"
    using draining.run_inv [OF assms(1,2)] assms(3,4) by simp
  then have "exit_inv s" by (simp add: drain_ok_def joint_ok_def session_inv_def)
  note run = run_undisturbed [OF assms(5,6)]
  from undisturbed.run_bound [OF run] ok session_left_bound [OF \<open>exit_inv s\<close>]
  show "length ls \<le> 25 + left p" by (simp add: to_go_def)
  have ok': "drain_ok env (s', p')" "s_ctx s'" "s_main s' \<noteq> MainIdle" using undisturbed.run_inv [OF run] ok by simp_all
  then have j: "joint_ok env (s', p')" "exit_inv s'" by (simp_all add: drain_ok_def joint_ok_def session_inv_def)
  show "(\<forall>l y. joint_step env pstep ev (s', p') l y \<longrightarrow> \<not> no_client client l) \<longrightarrow>
     session_drained s' \<and> (\<exists>status. s_exits s' = [status]) \<and> CallCleanup \<in> set (s_calls s') \<and>
     outstanding (s_detector s') = s_copiers s'"
  proof
    assume "\<forall>l y. joint_step env pstep ev (s', p') l y \<longrightarrow> \<not> no_client client l"
    with drain_progress [OF ok'] have d: "session_drained s'" "CallCleanup \<in> set (s_calls s')" "live p' = {}"
      by (auto simp: drained_def)
    moreover have "live_names s' = s_copiers s'" using d(1) by (auto simp: session_drained_def live_names_def)
    moreover have "\<exists>status. s_exits s' = [status]" using d(1) j(2) by (auto simp: session_drained_def exit_inv_def Let_def)
    ultimately show "session_drained s' \<and> (\<exists>status. s_exits s' = [status]) \<and> CallCleanup \<in> set (s_calls s') \<and>
       outstanding (s_detector s') = s_copiers s'"
      using joint_names [OF j(1)] by simp
  qed
qed

end

end
