(* ===== verification/ReplDrain.thy ===== *)
theory ReplDrain
  imports ReplSession Drain
begin

text \<open>
  A session with a read-eval-print loop drains: the contract of theory \<open>Drain\<close> holds for the
  goroutines of \<open>config/terminal/process.go\<close>.  After \<open>Cleanup\<close> the context of the loop is
  cancelled, so that the loop ends, and with it \<open>Wait\<close>.
\<close>

section \<open>Where the methods stand\<close>

definition repl_started :: "'m repl_sys \<Rightarrow> bool" where
  "repl_started p \<longleftrightarrow> rs_loop p \<noteq> LoopIdle"

definition repl_cleaning :: "'m repl_sys \<Rightarrow> bool" where
  "repl_cleaning p \<longleftrightarrow> rs_clean p \<noteq> ReplCleanIdle"

definition repl_cleaned :: "'m repl_sys \<Rightarrow> bool" where
  "repl_cleaned p \<longleftrightarrow> rs_clean p = ReplCleanDone"

definition repl_inside :: "'m repl_sys \<Rightarrow> bool" where
  "repl_inside p \<longleftrightarrow> (case rs_wait p of ReplWaitIdle \<Rightarrow> False | ReplWaitDone code \<Rightarrow> False | _ \<Rightarrow> True)"

definition repl_answered :: "'m repl_sys \<Rightarrow> proc_call \<Rightarrow> bool" where
  "repl_answered p c \<longleftrightarrow> (c = CallStart \<and> rs_start p = StartDone) \<or> (c = CallCleanup \<and> rs_clean p = ReplCleanDone)"

fun start_pc_left :: "repl_start_pc \<Rightarrow> nat" where
  "start_pc_left StartIdle = 3" | "start_pc_left StartOpened = 2" | "start_pc_left (StartLeaving q) = 1" | "start_pc_left StartDone = 0"

fun wait_pc_left :: "repl_wait_pc \<Rightarrow> nat" where
  "wait_pc_left ReplWaitIdle = 4" | "wait_pc_left ReplWaitBlocked = 3" | "wait_pc_left (ReplWaitGot code) = 2"
| "wait_pc_left (ReplWaitLeaving code) = 1" | "wait_pc_left (ReplWaitDone code) = 0"

fun clean_pc_left :: "repl_clean_pc \<Rightarrow> nat" where
  "clean_pc_left ReplCleanIdle = 5" | "clean_pc_left ReplCleanPipes = 4" | "clean_pc_left ReplCleanUnhang = 3"
| "clean_pc_left ReplCleanTerminal = 2" | "clean_pc_left ReplCleanLeaving = 1" | "clean_pc_left ReplCleanDone = 0"

text \<open>Without another line, the loop is given at most the one that it has read already.\<close>

fun loop_pc_left :: "repl_loop_pc \<Rightarrow> nat" where
  "loop_pc_left LoopIdle = 11" | "loop_pc_left LoopWelcome = 10" | "loop_pc_left (LoopRecheck x) = (case x of ReadLine line \<Rightarrow> 9 | ReadErr e \<Rightarrow> 5)"
| "loop_pc_left (LoopEval line) = 8" | "loop_pc_left LoopCheck = 7" | "loop_pc_left LoopRead = 6" | "loop_pc_left LoopClosing = 3"
| "loop_pc_left LoopSignal = 2" | "loop_pc_left LoopLeaving = 1" | "loop_pc_left LoopGone = 0"

definition repl_left :: "'m repl_sys \<Rightarrow> nat" where
  "repl_left p = start_pc_left (rs_start p) + loop_pc_left (rs_loop p) + wait_pc_left (rs_wait p) + clean_pc_left (rs_clean p)"

lemma repl_left_bound: "repl_left p \<le> 23"
proof -
  have "start_pc_left (rs_start p) \<le> 3" by (cases "rs_start p") simp_all
  moreover have "loop_pc_left (rs_loop p) \<le> 11" by (cases "rs_loop p") (simp_all split: read_line.split)
  moreover have "wait_pc_left (rs_wait p) \<le> 4" by (cases "rs_wait p") simp_all
  moreover have "clean_pc_left (rs_clean p) \<le> 5" by (cases "rs_clean p") simp_all
  ultimately show ?thesis by (simp add: repl_left_def)
qed

text \<open>A line that is read comes from the client.\<close>

fun repl_client :: "repl_label \<Rightarrow> bool" where
  "repl_client (ReplLoops (LoopReads (ReadLine line))) = True"
| "repl_client l = False"

text \<open>\<open>Start\<close> returns without an error only after it has started the loop.\<close>

definition repl_dinv :: "bool \<Rightarrow> 'm repl_sys \<Rightarrow> bool" where
  "repl_dinv isPty p \<longleftrightarrow> loop_shape isPty p \<and> (rs_start p = StartLeaving (Ok ()) \<longrightarrow> rs_loop p \<noteq> LoopIdle) \<and>
     (rs_clean p \<noteq> ReplCleanIdle \<longrightarrow> repl_cancelled p)"

lemmas repl_place_defs = repl_started_def repl_cleaning_def repl_cleaned_def repl_inside_def repl_answered_def

lemma repl_wait_frame:
  assumes "repl_wait_next l p = Some p'"
  shows "rs_repl p' = rs_repl p \<and> rs_start p' = rs_start p \<and> rs_clean p' = rs_clean p \<and> rs_loop p' = rs_loop p"
  using assms by (cases l) (auto split: if_splits option.splits repl_wait_pc.splits)

lemma repl_method_frame:
  assumes "repl_method_next lib isPty c q p = Some p'"
  shows "rs_start p' = rs_start p \<and> rs_clean p' = rs_clean p \<and> c \<in> {CallInit, CallStdout, CallStderr, CallStdin}"
  using assms by (auto simp: repl_method_next_def split: if_splits prod.splits)

lemma repl_dinv_step:
  assumes step: "repl_step lib isPty p l p'" and inv: "repl_inv lib p" and dinv: "repl_dinv isPty p"
    and order: "repl_cleaning p \<longrightarrow> event_call (repl_event isPty l) \<in> {None, Some CallWait, Some CallCleanup}"
  shows "repl_dinv isPty p'"
proof -
  have shape: "loop_shape isPty p'" using loop_shape_step [OF step] dinv by (simp add: repl_dinv_def)
  from step show ?thesis
  proof (cases rule: repl_step_cases)
    case (mcall c q)
    with repl_method_frame [OF mcall(2)] repl_method_inited [OF mcall(2)] dinv order shape show ?thesis
      by (auto simp: repl_dinv_def repl_cleaning_def)
  next
    case (loop m)
    with loop_frame [OF loop(2)] dinv shape show ?thesis by (simp add: repl_dinv_def)
  next
    case panic
    with no_loop_panic [OF inv] show ?thesis by simp
  next
    case start
    then have idle: "rs_clean p = ReplCleanIdle" using order by (auto simp: repl_cleaning_def)
    have "rs_start p' = StartLeaving (Ok ()) \<Longrightarrow> rs_loop p' \<noteq> LoopIdle"
      using start dinv repl_start_inited [OF start(2)]
      by (cases l) (auto simp: repl_dinv_def go_bind_Ok_iff is_ok_iff split: if_splits prod.splits)
    with idle shape repl_start_inited [OF start(2)] show ?thesis by (simp add: repl_dinv_def)
  next
    case wait
    with repl_wait_frame [OF wait(2)] dinv shape show ?thesis by (simp add: repl_dinv_def)
  next
    case clean
    note f = repl_clean_frame [OF clean(2)]
    have "p' = p \<or> l = ReplCleanCancels \<or> rs_clean p \<noteq> ReplCleanIdle"
      using clean(2) by (cases l) (simp_all split: if_splits)
    with f dinv shape show ?thesis by (auto simp: repl_dinv_def)
  qed
qed

section \<open>Who goes on\<close>

lemma loop_goes_down:
  assumes "loop_next lib isPty m p = Some p'" and "\<not> repl_client (ReplLoops m)"
  shows "repl_left p' < repl_left p"
proof -
  have "loop_pc_left (rs_loop p') < loop_pc_left (rs_loop p)"
    using assms by (cases isPty; cases m)
      (auto simp: loop_next_def repl_next_defs split: if_splits option.splits prod.splits read_line.splits repl_loop_pc.splits)
  with loop_frame [OF assms(1)] show ?thesis by (simp add: repl_left_def)
qed

lemma loop_goes_on:
  assumes "repl_inv lib p" and "repl_dinv isPty p" and "rs_loop p \<notin> {LoopIdle, LoopGone}"
  shows "\<exists>l p'. repl_step lib isPty p l p' \<and> \<not> repl_client l \<and> event_call (repl_event isPty l) = None"
proof -
  from assms(2) have c: "loop_shape isPty p" by (simp add: repl_dinv_def)
  from loop_can_go_on [OF assms(1) c assms(3)] obtain m p' where step: "repl_step lib isPty p (ReplLoops m) p'"
    and m: "\<forall>line. m \<noteq> LoopReads (ReadLine line)" by blast
  then have "\<not> repl_client (ReplLoops m)" by (cases "ReplLoops m" rule: repl_client.cases) auto
  with step show ?thesis by (intro exI [of _ "ReplLoops m"] exI [of _ p']) simp
qed

lemma repl_start_goes_on:
  assumes "rs_start p \<noteq> StartDone" and "repl_inv lib p"
  shows "\<exists>l p'. repl_step lib isPty p l p' \<and> \<not> repl_client l \<and> event_call (repl_event isPty l) = Some CallStart"
proof (cases "rs_start p")
  case StartIdle
  then show ?thesis
    by (intro exI [of _ ReplOpens]) (simp add: repl_step_def split: prod.split)
next
  case StartOpened
  with assms(2) have "rs_loop p = LoopIdle" by (simp add: repl_inv_def)
  with StartOpened show ?thesis by (intro exI [of _ ReplAddsLoop]) (simp add: repl_step_def)
next
  case (StartLeaving q)
  then show ?thesis by (intro exI [of _ "ReplStartReturns q"]) (simp add: repl_step_def)
qed (use assms in simp)

lemma repl_clean_goes_on:
  assumes "rs_clean p \<noteq> ReplCleanDone" and "repl_inv lib p" and "rs_inited p"
  shows "\<exists>l p'. repl_step lib isPty p l p' \<and> \<not> repl_client l \<and> event_call (repl_event isPty l) = Some CallCleanup"
proof (cases "rs_clean p")
  case ReplCleanIdle
  moreover have "r_cancel (rs_repl p) \<noteq> None" using assms(2,3) by (simp add: repl_inv_def)
  ultimately show ?thesis by (intro exI [of _ ReplCleanCancels]) (simp add: repl_step_def)
next
  case ReplCleanPipes
  then show ?thesis
    by (intro exI [of _ ReplCleanClosesPipes]) (simp add: repl_step_def split: prod.split)
next
  case ReplCleanUnhang
  then show ?thesis by (intro exI [of _ ReplCleanUnhangs]) (simp add: repl_step_def)
next
  case ReplCleanTerminal
  then show ?thesis
    by (intro exI [of _ ReplCleanCloses]) (simp add: repl_step_def split: prod.split)
next
  case ReplCleanLeaving
  then show ?thesis by (intro exI [of _ ReplCleanReturns]) (simp add: repl_step_def)
qed (use assms in simp)

lemma repl_wait_goes_on:
  assumes inv: "repl_inv lib p" and "repl_dinv isPty p" and "rs_inited p" and "repl_started p" and "repl_waited p = None"
  shows "\<exists>l p'. repl_step lib isPty p l p' \<and> \<not> repl_client l \<and> event_call (repl_event isPty l) \<in> {None, Some CallWait}"
proof (cases "rs_wait p")
  case ReplWaitIdle
  then show ?thesis by (intro exI [of _ ReplWaitAdds]) (simp add: repl_step_def)
next
  case ReplWaitBlocked
  show ?thesis
  proof (cases "r_waiter (rs_repl p) = Some True")
    case True
    with ReplWaitBlocked show ?thesis
      by (intro exI [of _ ReplWaitGets]) (simp add: repl_step_def repl_wait_def)
  next
    case False
    with inv assms(3,4) have "rs_loop p \<notin> {LoopIdle, LoopGone}" by (auto simp: repl_inv_def repl_started_def)
    from loop_goes_on [OF inv assms(2) this] show ?thesis by fastforce
  qed
next
  case (ReplWaitGot code)
  then show ?thesis by (intro exI [of _ ReplWaitLeaves]) (simp add: repl_step_def)
next
  case (ReplWaitLeaving code)
  then show ?thesis by (intro exI [of _ "ReplWaitReturns code"]) (simp add: repl_step_def)
next
  case (ReplWaitDone code)
  with assms(5) show ?thesis by (simp add: repl_waited_def)
qed

lemma repl_call_goes_on:
  assumes "repl_inv lib p" and "c \<noteq> CallWait" and "\<not> repl_answered p c" and "rs_inited p \<longleftrightarrow> c \<noteq> CallInit"
  shows "\<exists>l p'. repl_step lib isPty p l p' \<and> \<not> repl_client l \<and> event_call (repl_event isPty l) = Some c"
proof (cases "c = CallStart \<or> c = CallCleanup")
  case True
  with repl_start_goes_on [of p lib isPty] repl_clean_goes_on [of p lib isPty] assms show ?thesis
    by (auto simp: repl_answered_def)
next
  case False
  then have c: "c \<in> {CallInit, CallStdout, CallStderr, CallStdin}" using assms(2) by (cases c) auto
  obtain q r k where "repl_call lib isPty c (rs_repl p, rs_os p) = (q, r, k)" by (metis prod.exhaust)
  with c assms(4) show ?thesis
    by (intro exI [of _ "ReplMethod c q"]) (simp add: repl_step_def repl_method_next_def)
qed

text \<open>What every action does to the places of the methods.\<close>

lemma repl_places_step:
  assumes "repl_step lib isPty p l p'" and "repl_inv lib p"
  shows "(repl_answered p' c \<longrightarrow> repl_answered p c \<or> returned_call (repl_event isPty l) = Some c) \<and>
    (repl_cleaning p' \<longrightarrow> repl_cleaning p \<or> event_call (repl_event isPty l) = Some CallCleanup) \<and>
    (repl_cleaned p \<or> returned_call (repl_event isPty l) = Some CallCleanup \<longrightarrow> repl_cleaned p') \<and>
    (repl_inside p' \<longrightarrow> (repl_inside p \<or> event_call (repl_event isPty l) = Some CallWait) \<and>
      returned_call (repl_event isPty l) \<noteq> Some CallWait) \<and>
    (repl_started p \<or> (rs_start p = StartLeaving (Ok ()) \<longrightarrow> rs_loop p \<noteq> LoopIdle) \<and> repl_event isPty l = Returns CallStart (Ok ())
      \<longrightarrow> repl_started p')"
  using assms(1)
proof (cases rule: repl_step_cases)
  case (mcall m q)
  with repl_method_frame [OF mcall(2)] repl_method_inited [OF mcall(2)] show ?thesis
    by (auto simp: repl_place_defs)
next
  case (loop m)
  with loop_frame [OF loop(2)] show ?thesis by (auto simp: repl_place_defs)
next
  case panic
  with no_loop_panic [OF assms(2)] show ?thesis by simp
next
  case start
  with repl_start_inited [OF start(2)] show ?thesis
    by (cases l) (auto simp: repl_place_defs split: if_splits prod.splits)
next
  case wait
  then show ?thesis
    by (cases l) (auto simp: repl_place_defs split: if_splits option.splits repl_wait_pc.splits)
next
  case clean
  then show ?thesis by (cases l) (auto simp: repl_place_defs Let_def split: if_splits prod.splits)
qed

lemma repl_left_step:
  assumes "repl_step lib isPty p l p'" and "repl_inv lib p" and "\<not> repl_client l" and "\<not> event_panics (repl_event isPty l)"
  shows "repl_left p' + (if returned_call (repl_event isPty l) = None then 1 else 0) \<le> repl_left p"
  using assms(1)
proof (cases rule: repl_step_cases)
  case (mcall c q)
  with repl_method_frame [OF mcall(2)] repl_method_inited [OF mcall(2)] show ?thesis by (simp add: repl_left_def)
next
  case (loop m)
  with loop_goes_down [OF loop(2)] assms(3) show ?thesis by simp
next
  case panic
  with assms(4) show ?thesis by simp
next
  case start
  have "rs_start p = StartOpened \<Longrightarrow> rs_loop p = LoopIdle" using assms(2) by (simp add: repl_inv_def)
  with start show ?thesis by (cases l) (auto simp: repl_left_def split: if_splits prod.splits)
next
  case wait
  then show ?thesis
    by (cases l) (auto simp: repl_left_def split: if_splits option.splits repl_wait_pc.splits)
next
  case clean
  then show ?thesis using assms(4) by (cases l) (auto simp: repl_left_def Let_def split: if_splits prod.splits)
qed

interpretation repl_drain: draining_process "repl_step lib isPty" "repl_event isPty" "repl_inv lib" rs_inited
    "repl_live isPty" repl_waited "repl_dinv isPty" repl_started repl_cleaning repl_cleaned repl_inside repl_answered repl_client
    repl_left
  for lib isPty
proof
  fix p l p' c r
  assume step: "repl_step lib isPty p l p'"
  show "repl_event isPty l = Returns c r \<Longrightarrow> c \<noteq> CallWait \<and> c \<noteq> CallCleanup"
    using step repl_method_frame by (cases rule: repl_step_cases) fastforce+
  show "repl_inv lib p \<Longrightarrow> repl_dinv isPty p \<Longrightarrow>
      repl_cleaning p \<longrightarrow> event_call (repl_event isPty l) \<in> {None, Some CallWait, Some CallCleanup} \<Longrightarrow> repl_dinv isPty p'"
    by (rule repl_dinv_step [OF step])
  assume inv: "repl_inv lib p"
  show "\<not> repl_client l \<Longrightarrow> \<not> event_panics (repl_event isPty l) \<Longrightarrow>
      repl_left p' + (if returned_call (repl_event isPty l) = None then 1 else 0) \<le> repl_left p"
    by (rule repl_left_step [OF step inv])
  note place = repl_places_step [OF step inv, of c]
  show "repl_cleaning p' \<Longrightarrow> repl_cleaning p \<or> event_call (repl_event isPty l) = Some CallCleanup" using place by blast
  assume dinv: "repl_dinv isPty p"
  show "repl_answered p' c \<Longrightarrow> repl_answered p c \<or> returned_call (repl_event isPty l) = Some c" using place by blast
  show "repl_started p \<or> repl_event isPty l = Returns CallStart (Ok ()) \<Longrightarrow> repl_started p'"
    using place dinv by (auto simp: repl_dinv_def)
  show "repl_cleaned p \<or> returned_call (repl_event isPty l) = Some CallCleanup \<Longrightarrow> repl_cleaned p'" using place by blast
  show "repl_inside p' \<Longrightarrow> (repl_inside p \<or> event_call (repl_event isPty l) = Some CallWait) \<and>
      returned_call (repl_event isPty l) \<noteq> Some CallWait" using place by blast
next
  fix p c
  assume "repl_inv lib p" "repl_dinv isPty p" "c \<noteq> CallWait" "\<not> repl_answered p c" "rs_inited p \<longleftrightarrow> c \<noteq> CallInit"
  then show "\<exists>l p'. repl_step lib isPty p l p' \<and> \<not> repl_client l \<and> event_call (repl_event isPty l) = Some c"
    by (intro repl_call_goes_on)
next
  fix p
  assume "repl_inv lib p" "repl_dinv isPty p" "rs_inited p" "repl_started p" "repl_waited p = None"
  then show "\<exists>l p'. repl_step lib isPty p l p' \<and> \<not> repl_client l \<and>
      event_call (repl_event isPty l) \<in> {None, Some CallWait}"
    by (rule repl_wait_goes_on)
next
  fix p
  assume p: "repl_inv lib p" "repl_dinv isPty p" "repl_cleaned p" "\<not> repl_inside p" "repl_live isPty p \<noteq> {}"
  then have "rs_loop p \<notin> {LoopIdle, LoopGone}"
    by (auto simp: repl_live_def repl_inside_def split: if_splits repl_wait_pc.splits)
  with p show "\<exists>l p'. repl_step lib isPty p l p' \<and> \<not> repl_client l \<and> event_call (repl_event isPty l) = None"
    by (intro loop_goes_on)
qed

section \<open>Properties\<close>

lemma repl_drain_ok:
  assumes "open_safe lib" and "repl_handle cfg = Ok r"
  shows "repl_drain.drain_ok lib isPty env (new_session lg, repl_sys_init r k)"
proof (rule repl_drain.drain_ok_new [OF repl_sys_fresh(1) [OF assms] _ repl_sys_fresh(2,3) [OF assms]])
  show "repl_dinv isPty (repl_sys_init r k)"
    using repl_sys_fresh(5) [OF assms, of isPty] by (simp add: repl_dinv_def) (simp add: repl_sys_init_def)
qed (simp_all add: repl_place_defs repl_sys_init_def)


text \<open>
  The client disconnects while the loop waits for a line, and \<open>Wait\<close> for the loop; the session
  exits, the process is cleaned up, and the loop ends with its input.
\<close>

definition repl_stuck_schedule :: "repl_label joint_label list" where
  "repl_stuck_schedule = repl_start_schedule @
     map OfProcess [ReplWaitAdds, ReplLoops LoopWelcomes, ReplLoops LoopChecks] @ [OfSession CtxDone]"

definition repl_drain_schedule :: "repl_label joint_label list" where
  "repl_drain_schedule =
     map OfSession (WatchFires # replicate 6 (WatchFin []) @ [WatchReturns]) @
     map OfProcess [ReplCleanCancels, ReplCleanClosesPipes, ReplCleanUnhangs, ReplCleanCloses, ReplCleanReturns,
       ReplLoops (LoopReads (ReadErr EOF)), ReplLoops LoopSignals, ReplLoops LoopEnds,
       ReplWaitGets, ReplWaitLeaves, ReplWaitReturns 0] @
     map OfSession [MainFin [], RunReturns]"

lemma repl_stuck_exec:
  "map_option (\<lambda>(s, p). (s_ctx s, s_main s, rs_loop p, rs_wait p))
     (joint_exec toy_env (repl_next toy_tty False) (repl_event False) repl_stuck_schedule (new_session [], toy_repl_sys)) =
   Some (True, MainWait, LoopRead, ReplWaitBlocked)"
  "map_option (\<lambda>(s, p). (s_exits s, s_copiers s))
     (joint_exec toy_env (repl_next toy_tty False) (repl_event False) (repl_stuck_schedule @ repl_drain_schedule)
       (new_session [], toy_repl_sys)) =
   Some ([255], {''session: stdin'', ''session: stderr'', ''session: stdout''})"
  by code_simp+


end
