(* ===== verification/SystemSession.thy ===== *)
theory SystemSession
  imports OsExec Drain
begin

text \<open>
  The goroutines of a process of the host (\<open>config/osexec/process.go\<close>) that touch what the
  session shares with it: the methods, with \<open>Wait\<close> and its calls of the leak detector one action
  at a time.  A session with such a process is the joint relation of theory \<open>Joint\<close>.
\<close>

section \<open>State and steps\<close>

datatype sys_wait_pc =
    SysIdle | SysBlocked | SysEnded int "go_error option" | SysLeaving int "go_error option" | SysDone int "go_error option"

record 'm sys_sys =
  ss_proc :: "'m system_process"
  ss_os :: "'m os"
  ss_inited :: bool
  ss_wait :: sys_wait_pc

definition sys_init :: "'m system_process \<Rightarrow> 'm os \<Rightarrow> 'm sys_sys" where
  "sys_init sp k = \<lparr>ss_proc = sp, ss_os = k, ss_inited = False, ss_wait = SysIdle\<rparr>"

datatype sys_label =
    SysMethod proc_call "unit go" | SysWaitAdds | SysWaitEnds int "go_error option" | SysWaitPanics | SysWaitLeaves
  | SysWaitReturns int "go_error option" | SysCleans bool | SysCleanPanics

abbreviation sys_wait_name :: string where
  "sys_wait_name \<equiv> ''osexec: Wait''"

definition sys_method_next ::
  "'m exec_os \<Rightarrow> 'm tty_lib \<Rightarrow> string \<Rightarrow> bool \<Rightarrow> proc_call \<Rightarrow> unit go \<Rightarrow> 'm sys_sys \<Rightarrow> 'm sys_sys option" where
  "sys_method_next x lib Term isPty c q p =
     (if c \<notin> {CallWait, CallCleanup} \<and> (c = CallInit \<longrightarrow> \<not> ss_inited p)
      then (case sp_call x lib Term isPty c (ss_proc p, ss_os p) of
              (q', sp, k) \<Rightarrow>
                if q' = q then Some (p\<lparr>ss_proc := sp, ss_os := k, ss_inited := ss_inited p \<or> c = CallInit\<rparr>) else None)
      else None)"

text \<open>\<open>cmd.Wait\<close> ends when the command does, between the two calls of the detector.\<close>

fun sys_next ::
  "'m exec_os \<Rightarrow> 'm tty_lib \<Rightarrow> string \<Rightarrow> bool \<Rightarrow> sys_label \<Rightarrow> 'm sys_sys \<Rightarrow> 'm sys_sys option" where
  "sys_next x lib Term isPty (SysMethod c q) p = sys_method_next x lib Term isPty c q p"
| "sys_next x lib Term isPty SysWaitAdds p = (if ss_wait p = SysIdle then Some (p\<lparr>ss_wait := SysBlocked\<rparr>) else None)"
| "sys_next x lib Term isPty (SysWaitEnds code err) p =
     (if ss_wait p = SysBlocked \<and> sp_wait x (ss_proc p) (ss_os p) = Ok (code, err)
      then Some (p\<lparr>ss_wait := SysEnded code err\<rparr>) else None)"
| "sys_next x lib Term isPty SysWaitPanics p =
     (if ss_wait p = SysBlocked \<and> is_panic (sp_wait x (ss_proc p) (ss_os p)) then Some p else None)"
| "sys_next x lib Term isPty SysWaitLeaves p =
     (case ss_wait p of SysEnded code err \<Rightarrow> Some (p\<lparr>ss_wait := SysLeaving code err\<rparr>) | _ \<Rightarrow> None)"
| "sys_next x lib Term isPty (SysWaitReturns code err) p =
     (if ss_wait p = SysLeaving code err then Some (p\<lparr>ss_wait := SysDone code err\<rparr>) else None)"
| "sys_next x lib Term isPty (SysCleans b) p =
     (case sp_cleanup x lib (ss_proc p) (ss_os p) of
        (q, sp, k) \<Rightarrow> if q = Ok b then Some (p\<lparr>ss_proc := sp, ss_os := k\<rparr>) else None)"
| "sys_next x lib Term isPty SysCleanPanics p =
     (if is_panic (fst (sp_cleanup x lib (ss_proc p) (ss_os p))) then Some p else None)"

definition sys_step ::
  "'m exec_os \<Rightarrow> 'm tty_lib \<Rightarrow> string \<Rightarrow> bool \<Rightarrow> 'm sys_sys \<Rightarrow> sys_label \<Rightarrow> 'm sys_sys \<Rightarrow> bool" where
  "sys_step x lib Term isPty p l p' \<longleftrightarrow> sys_next x lib Term isPty l p = Some p'"

fun sys_event :: "sys_label \<Rightarrow> proc_event" where
  "sys_event (SysMethod c q) = Returns c q"
| "sys_event SysWaitAdds = Inside CallWait (Some (DetAdd sys_wait_name ''process.go''))"
| "sys_event (SysWaitEnds code err) = Inside CallWait None"
| "sys_event SysWaitPanics = Panics (Some CallWait)"
| "sys_event SysWaitLeaves = Inside CallWait (Some (DetDone sys_wait_name))"
| "sys_event (SysWaitReturns code err) = WaitReturned code err"
| "sys_event (SysCleans b) = CleanReturned b"
| "sys_event SysCleanPanics = Panics (Some CallCleanup)"

section \<open>The contract with the session\<close>

definition sys_live :: "'m sys_sys \<Rightarrow> string set" where
  "sys_live p = (case ss_wait p of SysBlocked \<Rightarrow> {sys_wait_name} | SysEnded code err \<Rightarrow> {sys_wait_name} | _ \<Rightarrow> {})"

definition sys_waited :: "'m sys_sys \<Rightarrow> (int \<times> go_error option) option" where
  "sys_waited p = (case ss_wait p of SysDone code err \<Rightarrow> Some (code, err) | _ \<Rightarrow> None)"

text \<open>How \<open>Wait\<close>'s results come about.\<close>

definition sys_result :: "'m exec_os \<Rightarrow> int \<Rightarrow> go_error option \<Rightarrow> bool" where
  "sys_result x code err \<longleftrightarrow>
     (\<exists>cmd k. (cmd_Wait x cmd k = Exited code \<and> err = None) \<or>
        (\<exists>e. cmd_Wait x cmd k = WaitFailed e \<and> code = 255 \<and> err = Some (ErrWrap e ''cmd.Wait() returned non-exit-error'')))"

definition sys_inv :: "'m exec_os \<Rightarrow> 'm sys_sys \<Rightarrow> bool" where
  "sys_inv x p \<longleftrightarrow> exec_safe x \<and>
     (if ss_inited p then sp_cmd (ss_proc p) \<noteq> None else findable x (ss_proc p) \<and> ss_wait p = SysIdle) \<and>
     (\<forall>code err. ss_wait p \<in> {SysEnded code err, SysLeaving code err, SysDone code err} \<longrightarrow> sys_result x code err)"

lemma sys_wait_name_session [simp]: "\<not> session_name sys_wait_name"
  by (simp add: session_name_def)

lemma sp_wait_result: "sp_wait x sp k = Ok (code, err) \<Longrightarrow> sys_result x code err"
  by (auto simp: sp_wait_def sys_result_def split: option.splits wait_end.splits)

lemma sys_method_safe:
  assumes "sys_method_next x lib Term isPty c q p = Some p'" and "sys_inv x p" and "c \<noteq> CallInit \<longrightarrow> ss_inited p"
  shows "sys_inv x p' \<and> \<not> is_panic q \<and> ss_wait p' = ss_wait p \<and> ss_inited p' = (ss_inited p \<or> c = CallInit)"
proof -
  obtain q' sp k where call: "sp_call x lib Term isPty c (ss_proc p, ss_os p) = (q', sp, k)" by (metis prod.exhaust)
  with assms(1) have p': "p' = p\<lparr>ss_proc := sp, ss_os := k, ss_inited := ss_inited p \<or> c = CallInit\<rparr>" "q' = q"
    and c: "c = CallInit \<longrightarrow> \<not> ss_inited p"
    by (auto simp: sys_method_next_def split: if_splits)
  have "\<not> is_panic q \<and> exec_safe x \<and> sp_cmd sp \<noteq> None"
  proof (cases "c = CallInit")
    case True
    with c assms(2) have "findable x (fst (ss_proc p, ss_os p))" by (simp add: sys_inv_def)
    from system.init_safe [OF this] call p'(2) True show ?thesis by fastforce
  next
    case False
    with assms(2,3) have "exec_safe x \<and> sp_cmd (fst (ss_proc p, ss_os p)) \<noteq> None" by (simp add: sys_inv_def)
    from system.call_safe [OF this False] call p'(2) show ?thesis by fastforce
  qed
  moreover have "ss_wait p = SysIdle" if "c = CallInit"
    using that c assms(2) by (simp add: sys_inv_def)
  ultimately show ?thesis using assms(2,3) p' by (auto simp: sys_inv_def)
qed

lemma sys_cleanup_inv:
  assumes "ss_inited p" and "sys_inv x p" and "sp_cleanup x lib (ss_proc p) (ss_os p) = (q, sp, k)"
  shows "\<not> is_panic q \<and> sys_inv x (p\<lparr>ss_proc := sp, ss_os := k\<rparr>)"
  using sp_cleanup_safe [of "ss_proc p" x lib "ss_os p"] assms by (simp add: sys_inv_def)

interpretation sys_proc: session_process "sys_step x lib Term isPty" sys_event "sys_inv x" ss_inited sys_live sys_waited
  for x lib Term isPty
proof
  fix p l p'
  assume step: "sys_step x lib Term isPty p l p'" and inv: "sys_inv x p"
  have mcall: "ss_wait p' = ss_wait p \<and> ss_inited p' = (ss_inited p \<or> c = CallInit)" if "l = SysMethod c q" for c q
    using step that by (auto simp: sys_step_def sys_method_next_def split: if_splits prod.splits)
  show "ss_inited p' \<longleftrightarrow> ss_inited p \<or> (\<exists>r. sys_event l = Returns CallInit r)"
    using step mcall by (cases l) (auto simp: sys_step_def split: if_splits prod.splits sys_wait_pc.splits)
  show "sys_waited p' = waited_after (sys_event l) (sys_waited p)"
    using step mcall by (cases l)
      (auto simp: sys_step_def sys_waited_def waited_after_def split: if_splits prod.splits sys_wait_pc.splits)
next
  fix p l p'
  assume step: "sys_step x lib Term isPty p l p'" and inv: "sys_inv x p"
    and ready: "needs_init (sys_event l) \<longrightarrow> ss_inited p"
  show "sys_inv x p' \<and> \<not> event_panics (sys_event l)"
  proof (cases l)
    case (SysMethod c q)
    with step ready sys_method_safe [of x lib Term isPty c q p p'] inv show ?thesis
      by (auto simp: sys_step_def needs_init_def)
  next
    case (SysCleans b)
    obtain q sp k where c: "sp_cleanup x lib (ss_proc p) (ss_os p) = (q, sp, k)" by (metis prod.exhaust)
    have "ss_inited p" using ready SysCleans by (simp add: needs_init_def)
    from sys_cleanup_inv [OF this inv c] step SysCleans c show ?thesis by (auto simp: sys_step_def split: if_splits)
  next
    case SysCleanPanics
    then have "ss_inited p" using ready by (simp add: needs_init_def)
    with inv sp_cleanup_safe [of "ss_proc p" x lib "ss_os p"] step SysCleanPanics show ?thesis
      by (simp add: sys_step_def sys_inv_def)
  next
    case SysWaitPanics
    then have "ss_inited p" using ready by (simp add: needs_init_def)
    with inv sp_wait_safe [of "ss_proc p" x "ss_os p"] step SysWaitPanics show ?thesis
      by (simp add: sys_step_def sys_inv_def)
  qed (use step ready inv sp_wait_result in \<open>auto simp: sys_step_def sys_inv_def needs_init_def split: if_splits sys_wait_pc.splits\<close>)
  show "case event_det (sys_event l) of
      None \<Rightarrow> sys_live p' = sys_live p
    | Some y \<Rightarrow> \<not> session_name (det_name y) \<and> spec_op y (sys_live p) = Some (sys_live p')"
    using step by (cases l)
      (auto simp: sys_step_def sys_live_def sys_method_next_def split: if_splits prod.splits sys_wait_pc.splits)
next
  fix p
  assume "sys_inv x p" "\<not> ss_inited p"
  then show "sys_live p = {}" by (simp add: sys_inv_def sys_live_def)
qed

text \<open>\<open>Wait\<close> always goes on: the command that is waited for ends.\<close>

definition sys_inside :: "'m sys_sys \<Rightarrow> bool" where
  "sys_inside p \<longleftrightarrow> (case ss_wait p of SysIdle \<Rightarrow> False | SysDone code err \<Rightarrow> False | _ \<Rightarrow> True)"

definition sys_left :: "'m sys_sys \<Rightarrow> nat" where
  "sys_left p = (case ss_wait p of SysIdle \<Rightarrow> 4 | SysBlocked \<Rightarrow> 3 | SysEnded code err \<Rightarrow> 2 | SysLeaving code err \<Rightarrow> 1 | _ \<Rightarrow> 0)"

lemma sp_cleanup_no_err: "fst (sp_cleanup x lib sp k) \<noteq> Err e"
  by (auto simp: sp_cleanup_def Let_def split: prod.splits option.splits go.splits)

lemma sp_wait_no_err: "sp_wait x sp k \<noteq> Err e"
  by (auto simp: sp_wait_def split: option.splits wait_end.splits)

lemma sys_wait_goes_on:
  assumes "sys_inv x p" and "ss_inited p" and "sys_waited p = None"
  shows "\<exists>l p'. sys_step x lib Term isPty p l p' \<and> event_call (sys_event l) = Some CallWait"
proof (cases "ss_wait p")
  case SysIdle
  then show ?thesis by (intro exI [of _ SysWaitAdds]) (simp add: sys_step_def)
next
  case SysBlocked
  have "\<not> is_panic (sp_wait x (ss_proc p) (ss_os p))"
    using assms(1,2) sp_wait_safe [of "ss_proc p" x "ss_os p"] by (simp add: sys_inv_def)
  then obtain code err where "sp_wait x (ss_proc p) (ss_os p) = Ok (code, err)"
    using sp_wait_no_err by (cases "sp_wait x (ss_proc p) (ss_os p)") auto
  with SysBlocked show ?thesis by (intro exI [of _ "SysWaitEnds code err"]) (simp add: sys_step_def)
next
  case (SysEnded code err)
  then show ?thesis by (intro exI [of _ SysWaitLeaves]) (simp add: sys_step_def)
next
  case (SysLeaving code err)
  then show ?thesis by (intro exI [of _ "SysWaitReturns code err"]) (simp add: sys_step_def)
next
  case (SysDone code err)
  with assms(3) show ?thesis by (simp add: sys_waited_def)
qed

lemma sys_call_goes_on:
  assumes "sys_inv x p" and "c \<noteq> CallWait" and "ss_inited p \<longleftrightarrow> c \<noteq> CallInit"
  shows "\<exists>l p'. sys_step x lib Term isPty p l p' \<and> event_call (sys_event l) = Some c"
proof (cases "c = CallCleanup")
  case True
  obtain q sp k where c: "sp_cleanup x lib (ss_proc p) (ss_os p) = (q, sp, k)" by (metis prod.exhaust)
  with True assms sys_cleanup_inv [of p x lib q sp k] sp_cleanup_no_err [of x lib "ss_proc p" "ss_os p"]
  obtain b where "q = Ok b" by (cases q) auto
  with c True show ?thesis by (intro exI [of _ "SysCleans b"]) (simp add: sys_step_def)
next
  case False
  obtain q sp k where "sp_call x lib Term isPty c (ss_proc p, ss_os p) = (q, sp, k)" by (metis prod.exhaust)
  with False assms(2,3) show ?thesis
    by (intro exI [of _ "SysMethod c q"]) (simp add: sys_step_def sys_method_next_def)
qed

interpretation sys_drain: draining_process "sys_step x lib Term isPty" sys_event "sys_inv x" ss_inited sys_live sys_waited
    "\<lambda>p. True" "\<lambda>p. True" "\<lambda>p. False" "\<lambda>p. True" sys_inside "\<lambda>p c. False" "\<lambda>l. False" sys_left
  for x lib Term isPty
proof
  fix p l p' c r
  assume step: "sys_step x lib Term isPty p l p'"
  then show "sys_event l = Returns c r \<Longrightarrow> c \<noteq> CallWait \<and> c \<noteq> CallCleanup"
    by (cases l) (auto simp: sys_step_def sys_method_next_def split: if_splits)
  from step show "sys_inside p' \<Longrightarrow>
      (sys_inside p \<or> event_call (sys_event l) = Some CallWait) \<and> returned_call (sys_event l) \<noteq> Some CallWait"
    by (cases l) (auto simp: sys_step_def sys_inside_def sys_method_next_def split: if_splits prod.splits sys_wait_pc.splits)
  from step show "\<not> event_panics (sys_event l) \<Longrightarrow>
      sys_left p' + (if returned_call (sys_event l) = None then 1 else 0) \<le> sys_left p"
    by (cases l) (auto simp: sys_step_def sys_left_def sys_method_next_def split: if_splits prod.splits sys_wait_pc.splits)
next
  fix p :: "'a sys_sys"
  assume "\<not> sys_inside p" "sys_live p \<noteq> {}"
  then show "\<exists>l p'. sys_step x lib Term isPty p l p' \<and> \<not> False \<and> event_call (sys_event l) = None"
    by (auto simp: sys_inside_def sys_live_def split: sys_wait_pc.splits)
next
  fix p
  assume "sys_inv x p" "ss_inited p" "sys_waited p = None"
  from sys_wait_goes_on [OF this]
  show "\<exists>l p'. sys_step x lib Term isPty p l p' \<and> \<not> False \<and> event_call (sys_event l) \<in> {None, Some CallWait}" by fastforce
qed (use sys_call_goes_on in simp_all)

section \<open>Properties\<close>

text \<open>A schedule for the examples: the command ends with status 0.\<close>

definition sys_schedule :: "sys_label joint_label list" where
  "sys_schedule =
     OfSession RunCall #
     map OfProcess
       ([SysMethod CallInit (Ok ()), SysMethod CallStdout (Ok ()), SysMethod CallStderr (Ok ()), SysMethod CallStdin (Ok ()),
         SysMethod CallStart (Ok ()), SysWaitAdds]) @
     map OfSession [CopierReturns ''session: stdin''] @
     map OfProcess [SysWaitEnds 0 None, SysWaitLeaves, SysWaitReturns 0 None] @
     map OfSession (replicate 6 (MainFin [])) @ [OfProcess (SysCleans True)]"

definition toy_sys :: "nat sys_sys" where
  "toy_sys = sys_init (new_system_process ''sh'' []) toy_os"

lemma sys_exec:
  "map_option (\<lambda>(s, p). (s_exits s, s_calls s, s_ctx s, live_names s, s_waited s))
     (joint_exec toy_env (sys_next toy_exec toy_tty ''xterm'' False) sys_event sys_schedule (new_session [], toy_sys)) =
   Some ([0], [CallInit, CallStdout, CallStderr, CallStdin, CallStart, CallWait, CallCleanup], False,
     {''session: context cancel'', ''session: stderr'', ''session: stdout''}, Some (0, None))"
  by code_simp

lemma sys_exec_run:
  "joint_exec env (sys_next x lib Term isPty) ev ks a = Some b \<Longrightarrow> run_path (joint_step env (sys_step x lib Term isPty) ev) a ks b"
  by (rule joint_exec_run) (simp_all add: sys_step_def)

lemma sys_fresh:
  assumes "exec_safe x" and "LookPath x (sp_command sp) = Ok exe"
  shows "sys_inv x (sys_init sp k)" "\<not> ss_inited (sys_init sp k)" "sys_waited (sys_init sp k) = None"
  using assms by (simp_all add: sys_inv_def sys_init_def sys_waited_def findable_def)

lemma toy_exec_safe: "exec_safe toy_exec" "LookPath toy_exec ''sh'' = Ok ''/bin/sh''"
  by (simp_all add: exec_safe_def toy_exec_def)

lemma toy_sys_run:
  obtains s p where "run_path (joint_step toy_env (sys_step toy_exec toy_tty ''xterm'' False) sys_event)
      (new_session [], sys_init (new_system_process ''sh'' []) toy_os) sys_schedule (s, p)"
    and "s_exits s = [0]" "live_names s = {''session: context cancel'', ''session: stderr'', ''session: stdout''}"
    and "s_ctx s = False" "s_waited s = Some (0, None)"
    and "joint_exec toy_env (sys_next toy_exec toy_tty ''xterm'' False) sys_event sys_schedule (new_session [], toy_sys) = Some (s, p)"
proof -
  from sys_exec obtain s p where run: "joint_exec toy_env (sys_next toy_exec toy_tty ''xterm'' False) sys_event sys_schedule
      (new_session [], toy_sys) = Some (s, p)" and "s_exits s = [0]"
      "live_names s = {''session: context cancel'', ''session: stderr'', ''session: stdout''}" "s_ctx s = False"
      "s_waited s = Some (0, None)"
    by auto
  with sys_exec_run [OF run] show thesis using that by (simp add: toy_sys_def)
qed





lemma sys_drain_ok:
  assumes "exec_safe x" and "LookPath x (sp_command sp) = Ok exe"
  shows "sys_drain.drain_ok x env (new_session lg, sys_init sp k)"
  by (rule sys_drain.drain_ok_new [OF sys_fresh(1) [OF assms] _ sys_fresh(2,3) [OF assms]])
    (simp_all add: sys_inside_def sys_init_def)


definition sys_cancel_schedule :: "sys_label joint_label list" where
  "sys_cancel_schedule = take 7 sys_schedule @ [OfSession CtxDone]"

definition sys_drain_schedule :: "sys_label joint_label list" where
  "sys_drain_schedule =
     map OfSession (WatchFires # replicate 6 (WatchFin []) @ [WatchReturns]) @
     map OfProcess [SysCleans True, SysWaitEnds 0 None, SysWaitLeaves, SysWaitReturns 0 None] @
     map OfSession [MainFin [], RunReturns]"

lemma sys_cancel_exec:
  "map_option (\<lambda>(s, p). (s_ctx s, s_main s))
     (joint_exec toy_env (sys_next toy_exec toy_tty ''xterm'' False) sys_event sys_cancel_schedule (new_session [], toy_sys)) =
   Some (True, MainWait)"
  "map_option (\<lambda>(s, p). (s_exits s, s_copiers s))
     (joint_exec toy_env (sys_next toy_exec toy_tty ''xterm'' False) sys_event (sys_cancel_schedule @ sys_drain_schedule)
       (new_session [], toy_sys)) =
   Some ([255], {''session: stderr'', ''session: stdin'', ''session: stdout''})"
  by code_simp+


end
