(* ===== verification/DockerStream.thy ===== *)
theory DockerStream
  imports Logging
begin

text \<open>
  The goroutines of a container process (\<open>config/dockerexec/exec.go\<close>): \<open>execAndStream\<close>
  starts one that copies the output and one that copies the input, and \<open>Wait\<close> waits for
  them in \<open>waitStreams\<close>.

  One step is one action of one goroutine: the end of its copy (whose result is up to the
  streams), a channel operation, or a call of the leak detector, which the session and the
  process share.  The goroutine that calls \<open>execAndStream\<close> and then \<open>Wait\<close> is the caller.
\<close>

section \<open>State\<close>

datatype out_pc = OutIdle | OutCopying | OutSending "go_error option" | OutLeaving | OutGone

datatype in_pc = InIdle | InCopying | InClosing | InLeaving | InGone

datatype caller_pc =
    CallerOutput | CallerInput | CallerStarted | CallerSelect | CallerSelectOutput
  | CallerLeaving "go_error option" | CallerReturned "go_error option"

text \<open>
  \<open>sm_output_chan\<close> is the buffer of \<open>outputErrChan\<close>, \<open>sm_input_done\<close> says whether
  \<open>inputDoneChan\<close> is closed, \<open>sm_ctx\<close> is \<open>ctx.Err()\<close>.  \<open>sm_copied\<close> remembers the result of
  the output's copy, \<open>sm_panic\<close> that a goroutine has panicked.
\<close>

record stream_sys =
  sm_caller :: caller_pc
  sm_out :: out_pc
  sm_in :: in_pc
  sm_output_chan :: "go_error option list"
  sm_input_done :: bool
  sm_close_write :: bool
  sm_restored :: bool
  sm_ctx :: "go_error option"
  sm_detector :: leakdet
  sm_copied :: "go_error option option"
  sm_panic :: bool

definition stream_init :: "leakdet \<Rightarrow> stream_sys" where
  "stream_init d =
     \<lparr>sm_caller = CallerOutput, sm_out = OutIdle, sm_in = InIdle, sm_output_chan = [], sm_input_done = False,
      sm_close_write = False, sm_restored = False, sm_ctx = None, sm_detector = d, sm_copied = None,
      sm_panic = False\<rparr>"

text \<open>The capacity that \<open>outputErrChan\<close> is made with.\<close>

definition output_cap :: nat where
  "output_cap = 1"

abbreviation output_name :: string where
  "output_name \<equiv> ''dockerexec: output''"

abbreviation input_name :: string where
  "input_name \<equiv> ''dockerexec: input''"

abbreviation wait_name :: string where
  "wait_name \<equiv> ''dockerexec: wait''"

definition stream_name :: "string \<Rightarrow> bool" where
  "stream_name n \<longleftrightarrow> n \<in> {output_name, input_name, wait_name}"

definition stream_det :: "det_op \<Rightarrow> stream_sys \<Rightarrow> stream_sys" where
  "stream_det x s =
     (let (r, d) = det_apply x (sm_detector s)
      in s\<lparr>sm_detector := d, sm_panic := sm_panic s \<or> is_panic r\<rparr>)"

text \<open>Closing a closed channel panics.\<close>

definition close_input_done :: "stream_sys \<Rightarrow> stream_sys" where
  "close_input_done s = (if sm_input_done s then s\<lparr>sm_panic := True\<rparr> else s\<lparr>sm_input_done := True\<rparr>)"

section \<open>Steps\<close>

datatype stream_label =
    StartOutput | StartInput | WaitCalled
  | OutputCopied "go_error option" | OutputSent | OutputEnds
  | InputCopied | InputClosed | InputEnds
  | GotOutput | GotInput | GotCtx | WaitEnds
  | StreamCtxDone go_error | SessionDet det_op

fun det_op_name :: "det_op \<Rightarrow> string" where
  "det_op_name (DetAdd name loc) = name"
| "det_op_name (DetDone name) = name"

inductive stream_step :: "bool \<Rightarrow> stream_sys \<Rightarrow> stream_label \<Rightarrow> stream_sys \<Rightarrow> bool" for isPty :: bool where
  start_output: "\<not> sm_panic s \<Longrightarrow> sm_caller s = CallerOutput \<Longrightarrow>
     stream_step isPty s StartOutput
       ((stream_det (DetAdd output_name ''exec.go'') s)\<lparr>sm_caller := CallerInput, sm_out := OutCopying\<rparr>)"
| start_input: "\<not> sm_panic s \<Longrightarrow> sm_caller s = CallerInput \<Longrightarrow>
     stream_step isPty s StartInput
       ((stream_det (DetAdd input_name ''exec.go'') s)\<lparr>sm_caller := CallerStarted, sm_in := InCopying\<rparr>)"
| wait_called: "\<not> sm_panic s \<Longrightarrow> sm_caller s = CallerStarted \<Longrightarrow>
     stream_step isPty s WaitCalled
       ((stream_det (DetAdd wait_name ''exec.go'') s)\<lparr>sm_caller := CallerSelect\<rparr>)"
| output_copied: "\<not> sm_panic s \<Longrightarrow> sm_out s = OutCopying \<Longrightarrow>
     stream_step isPty s (OutputCopied err)
       (s\<lparr>sm_out := OutSending err, sm_restored := isPty, sm_copied := Some err\<rparr>)"
| output_sent: "\<not> sm_panic s \<Longrightarrow> sm_out s = OutSending err \<Longrightarrow> length (sm_output_chan s) < output_cap \<Longrightarrow>
     stream_step isPty s OutputSent (s\<lparr>sm_out := OutLeaving, sm_output_chan := sm_output_chan s @ [err]\<rparr>)"
| output_ends: "\<not> sm_panic s \<Longrightarrow> sm_out s = OutLeaving \<Longrightarrow>
     stream_step isPty s OutputEnds ((stream_det (DetDone output_name) s)\<lparr>sm_out := OutGone\<rparr>)"
| input_copied: "\<not> sm_panic s \<Longrightarrow> sm_in s = InCopying \<Longrightarrow>
     stream_step isPty s InputCopied (s\<lparr>sm_in := InClosing, sm_close_write := True\<rparr>)"
| input_closed: "\<not> sm_panic s \<Longrightarrow> sm_in s = InClosing \<Longrightarrow>
     stream_step isPty s InputClosed ((close_input_done s)\<lparr>sm_in := InLeaving\<rparr>)"
| input_ends: "\<not> sm_panic s \<Longrightarrow> sm_in s = InLeaving \<Longrightarrow>
     stream_step isPty s InputEnds ((stream_det (DetDone input_name) s)\<lparr>sm_in := InGone\<rparr>)"
| got_output: "\<not> sm_panic s \<Longrightarrow> sm_caller s \<in> {CallerSelect, CallerSelectOutput} \<Longrightarrow> sm_output_chan s = err # rest \<Longrightarrow>
     stream_step isPty s GotOutput (s\<lparr>sm_caller := CallerLeaving err, sm_output_chan := rest\<rparr>)"
| got_input: "\<not> sm_panic s \<Longrightarrow> sm_caller s = CallerSelect \<Longrightarrow> sm_input_done s \<Longrightarrow>
     stream_step isPty s GotInput (s\<lparr>sm_caller := CallerSelectOutput\<rparr>)"
| got_ctx: "\<not> sm_panic s \<Longrightarrow> sm_caller s \<in> {CallerSelect, CallerSelectOutput} \<Longrightarrow> sm_ctx s = Some e \<Longrightarrow>
     stream_step isPty s GotCtx (s\<lparr>sm_caller := CallerLeaving (Some e)\<rparr>)"
| wait_ends: "\<not> sm_panic s \<Longrightarrow> sm_caller s = CallerLeaving err \<Longrightarrow>
     stream_step isPty s WaitEnds ((stream_det (DetDone wait_name) s)\<lparr>sm_caller := CallerReturned err\<rparr>)"
| stream_ctx_done: "\<not> sm_panic s \<Longrightarrow> sm_ctx s = None \<Longrightarrow>
     stream_step isPty s (StreamCtxDone e) (s\<lparr>sm_ctx := Some e\<rparr>)"
| session_det: "\<not> sm_panic s \<Longrightarrow> \<not> stream_name (det_op_name x) \<Longrightarrow> det_apply x (sm_detector s) = (Ok (), d) \<Longrightarrow>
     stream_step isPty s (SessionDet x) (s\<lparr>sm_detector := d\<rparr>)"

inductive_cases stream_stepE: "stream_step isPty s l s'"

section \<open>The invariant\<close>

text \<open>The names of the goroutines and of the call of \<open>Wait\<close> that are under way.\<close>

definition stream_live :: "stream_sys \<Rightarrow> string set" where
  "stream_live s =
     (if sm_out s \<in> {OutIdle, OutGone} then {} else {output_name}) \<union>
     (if sm_in s \<in> {InIdle, InGone} then {} else {input_name}) \<union>
     (case sm_caller s of
        CallerSelect \<Rightarrow> {wait_name} | CallerSelectOutput \<Rightarrow> {wait_name} | CallerLeaving e \<Rightarrow> {wait_name} | _ \<Rightarrow> {})"

definition stream_det_ok :: "stream_sys \<Rightarrow> bool" where
  "stream_det_ok s \<longleftrightarrow> det_inv (sm_detector s) \<and> {n \<in> outstanding (sm_detector s). stream_name n} = stream_live s"

text \<open>Which goroutines the caller has started.\<close>

definition stream_started :: "stream_sys \<Rightarrow> bool" where
  "stream_started s \<longleftrightarrow>
     (sm_out s = OutIdle) = (sm_caller s = CallerOutput) \<and>
     (sm_in s = InIdle) = (sm_caller s \<in> {CallerOutput, CallerInput})"

text \<open>At most one value is ever sent, the result of the copy; it is what \<open>Wait\<close> gets.\<close>

definition stream_chan_ok :: "stream_sys \<Rightarrow> bool" where
  "stream_chan_ok s \<longleftrightarrow>
     (case sm_out s of
        OutIdle \<Rightarrow> sm_copied s = None \<and> sm_output_chan s = []
      | OutCopying \<Rightarrow> sm_copied s = None \<and> sm_output_chan s = []
      | OutSending err \<Rightarrow> sm_copied s = Some err \<and> sm_output_chan s = []
      | _ \<Rightarrow> sm_copied s \<noteq> None \<and> (\<forall>err \<in> set (sm_output_chan s). sm_copied s = Some err)) \<and>
     length (sm_output_chan s) \<le> output_cap \<and>
     (\<forall>err. sm_caller s \<in> {CallerLeaving err, CallerReturned err} \<longrightarrow>
        sm_copied s = Some err \<or> (err \<noteq> None \<and> sm_ctx s = err)) \<and>
     (sm_input_done s \<longleftrightarrow> sm_in s \<in> {InLeaving, InGone})"

definition stream_inv :: "stream_sys \<Rightarrow> bool" where
  "stream_inv s \<longleftrightarrow> \<not> sm_panic s \<and> stream_det_ok s \<and> stream_started s \<and> stream_chan_ok s"

text \<open>Calls of the detector for a name that is not, or that is, outstanding.\<close>

definition tracks :: "leakdet \<Rightarrow> string set \<Rightarrow> bool" where
  "tracks d A \<longleftrightarrow> det_inv d \<and> {n \<in> outstanding d. stream_name n} = A"

lemma tracks_add:
  assumes "tracks (sm_detector s) A" and "stream_name n" and "n \<notin> A"
  shows "tracks (sm_detector (stream_det (DetAdd n loc) s)) (insert n A)"
    and "sm_panic (stream_det (DetAdd n loc) s) = sm_panic s"
proof -
  from assms have "n \<notin> outstanding (sm_detector s)" by (auto simp: tracks_def)
  with det_apply_spec [of "sm_detector s" "DetAdd n loc"] assms(1) obtain d where
      d: "det_apply (DetAdd n loc) (sm_detector s) = (Ok (), d)" "det_inv d"
        "outstanding d = insert n (outstanding (sm_detector s))"
    by (auto simp: tracks_def)
  with assms(1,2) show "tracks (sm_detector (stream_det (DetAdd n loc) s)) (insert n A)"
    "sm_panic (stream_det (DetAdd n loc) s) = sm_panic s"
    by (auto simp: tracks_def stream_det_def simp del: det_apply.simps)
qed

lemma tracks_done:
  assumes "tracks (sm_detector s) A" and "n \<in> A"
  shows "tracks (sm_detector (stream_det (DetDone n) s)) (A - {n})"
    and "sm_panic (stream_det (DetDone n) s) = sm_panic s"
proof -
  from assms have "n \<in> outstanding (sm_detector s)" by (auto simp: tracks_def)
  with det_apply_spec [of "sm_detector s" "DetDone n"] assms(1) obtain d where
      d: "det_apply (DetDone n) (sm_detector s) = (Ok (), d)" "det_inv d"
        "outstanding d = outstanding (sm_detector s) - {n}"
    by (auto simp: tracks_def)
  with assms(1) show "tracks (sm_detector (stream_det (DetDone n) s)) (A - {n})"
    "sm_panic (stream_det (DetDone n) s) = sm_panic s"
    by (auto simp: tracks_def stream_det_def simp del: det_apply.simps)
qed

lemma tracks_other:
  assumes "tracks d A" and "\<not> stream_name (det_op_name x)" and "det_apply x d = (Ok (), d')"
  shows "tracks d' A"
proof -
  from assms(1) have "det_inv d" by (simp add: tracks_def)
  from det_apply_spec [OF this, of x] assms(3) obtain B where
      B: "spec_op x (outstanding d) = Some B" "det_inv d'" "outstanding d' = B"
    by (auto split: option.splits)
  then have "outstanding d' = (case x of DetAdd n loc \<Rightarrow> insert n (outstanding d) | DetDone n \<Rightarrow> outstanding d - {n})"
    by (cases x) (simp_all split: if_splits)
  with B(2) assms(1,2) show ?thesis by (cases x) (auto simp: tracks_def)
qed

lemma stream_det_frame [simp]:
  "sm_caller (stream_det x s) = sm_caller s" "sm_out (stream_det x s) = sm_out s" "sm_in (stream_det x s) = sm_in s"
  "sm_output_chan (stream_det x s) = sm_output_chan s" "sm_input_done (stream_det x s) = sm_input_done s"
  "sm_ctx (stream_det x s) = sm_ctx s" "sm_copied (stream_det x s) = sm_copied s"
  "sm_close_write (stream_det x s) = sm_close_write s" "sm_restored (stream_det x s) = sm_restored s"
  by (simp_all add: stream_det_def split_beta)

lemma stream_names [simp]: "stream_name output_name" "stream_name input_name" "stream_name wait_name"
  by (simp_all add: stream_name_def)

lemma stream_det_ok_tracks: "stream_det_ok s = tracks (sm_detector s) (stream_live s)"
  by (simp add: stream_det_ok_def tracks_def)

lemma stream_det_step:
  assumes "stream_step isPty s l s'" and "stream_inv s"
  shows "stream_det_ok s' \<and> \<not> sm_panic s'"
proof -
  from assms(2) have ok: "tracks (sm_detector s) (stream_live s)" "\<not> sm_panic s" "stream_started s" "stream_chan_ok s"
    by (simp_all add: stream_inv_def stream_det_ok_tracks)
  show ?thesis using assms(1)
  proof cases
    case start_output
    then have "output_name \<notin> stream_live s" "sm_out s = OutIdle" using ok(3)
      by (auto simp: stream_live_def stream_started_def)
    with tracks_add [OF ok(1), of output_name "''exec.go''"] start_output ok(2) show ?thesis
      by (auto simp: stream_det_ok_tracks stream_live_def insert_commute)
  next
    case start_input
    then have "input_name \<notin> stream_live s" "sm_in s = InIdle" using ok(3)
      by (auto simp: stream_live_def stream_started_def)
    with tracks_add [OF ok(1), of input_name "''exec.go''"] start_input ok(2) show ?thesis
      by (auto simp: stream_det_ok_tracks stream_live_def insert_commute)
  next
    case wait_called
    then have "wait_name \<notin> stream_live s" by (auto simp: stream_live_def)
    with tracks_add [OF ok(1), of wait_name "''exec.go''"] wait_called ok(2) show ?thesis
      by (auto simp: stream_det_ok_tracks stream_live_def insert_commute)
  next
    case output_ends
    then have "output_name \<in> stream_live s" "stream_live s - {output_name} = stream_live (s\<lparr>sm_out := OutGone\<rparr>)"
      by (auto simp: stream_live_def split: caller_pc.splits)
    with tracks_done [OF ok(1), of output_name] output_ends ok(2) show ?thesis
      by (simp add: stream_det_ok_tracks stream_live_def)
  next
    case input_ends
    then have "input_name \<in> stream_live s" "stream_live s - {input_name} = stream_live (s\<lparr>sm_in := InGone\<rparr>)"
      by (auto simp: stream_live_def split: caller_pc.splits)
    with tracks_done [OF ok(1), of input_name] input_ends ok(2) show ?thesis
      by (simp add: stream_det_ok_tracks stream_live_def)
  next
    case (wait_ends err)
    then have "wait_name \<in> stream_live s" "stream_live s - {wait_name} = stream_live (s\<lparr>sm_caller := CallerReturned err\<rparr>)"
      by (auto simp: stream_live_def)
    with tracks_done [OF ok(1), of wait_name] wait_ends ok(2) show ?thesis
      by (simp add: stream_det_ok_tracks stream_live_def)
  next
    case (session_det x d)
    with tracks_other [OF ok(1)] ok(2) show ?thesis
      by (auto simp: stream_det_ok_tracks stream_live_def)
  next
    case input_closed
    with ok show ?thesis
      by (auto simp: stream_det_ok_tracks stream_live_def close_input_done_def stream_chan_ok_def)
  qed (use ok in \<open>auto simp: stream_det_ok_tracks stream_live_def split: caller_pc.splits\<close>)
qed

lemma stream_chan_step:
  assumes "stream_step isPty s l s'" and "stream_inv s"
  shows "stream_started s' \<and> stream_chan_ok s'"
proof -
  from assms(2) have ok: "stream_started s" "stream_chan_ok s" by (simp_all add: stream_inv_def)
  from assms(1) show ?thesis
    by cases (use ok in \<open>auto simp: stream_started_def stream_chan_ok_def close_input_done_def output_cap_def
        split: out_pc.splits\<close>)
qed

interpretation stream: step_invariant "stream_step isPty" stream_inv for isPty
  by unfold_locales (simp add: stream_inv_def stream_det_step stream_chan_step)

lemma stream_inv_init:
  assumes "det_inv d" and "\<And>n. n \<in> outstanding d \<Longrightarrow> \<not> stream_name n"
  shows "stream_inv (stream_init d)"
  using assms
  by (auto simp: stream_inv_def stream_init_def stream_det_ok_def stream_live_def stream_started_def
      stream_chan_ok_def output_cap_def)

lemmas stream_reachable = stream.run_inv [OF _ stream_inv_init]

text \<open>The actions of a call of \<open>Wait\<close>, and how far it is from its return.\<close>

definition wait_action :: "stream_label \<Rightarrow> bool" where
  "wait_action l \<longleftrightarrow> l \<in> {GotOutput, GotInput, GotCtx, WaitEnds}"

fun wait_distance :: "caller_pc \<Rightarrow> nat" where
  "wait_distance (CallerReturned err) = 0"
| "wait_distance (CallerLeaving err) = 1"
| "wait_distance CallerSelectOutput = 2"
| "wait_distance CallerSelect = 3"
| "wait_distance pc = 4"

lemma wait_action_decreases:
  "stream_step isPty s l s' \<Longrightarrow> wait_action l \<Longrightarrow> wait_distance (sm_caller s') < wait_distance (sm_caller s)"
  by (erule stream_stepE) (auto simp: wait_action_def)

text \<open>What \<open>Wait\<close> returns: the result of the output's copy, or why the context is done.\<close>

lemma wait_result:
  "stream_inv s \<Longrightarrow> sm_caller s = CallerReturned err \<Longrightarrow> sm_copied s = Some err \<or> (err \<noteq> None \<and> sm_ctx s = err)"
  by (auto simp: stream_inv_def stream_chan_ok_def)

text \<open>The same relation as a function of the label, to run a schedule.\<close>

fun stream_next :: "bool \<Rightarrow> stream_label \<Rightarrow> stream_sys \<Rightarrow> stream_sys option" where
  "stream_next isPty StartOutput s =
     (if sm_caller s = CallerOutput
      then Some ((stream_det (DetAdd output_name ''exec.go'') s)\<lparr>sm_caller := CallerInput, sm_out := OutCopying\<rparr>) else None)"
| "stream_next isPty StartInput s =
     (if sm_caller s = CallerInput
      then Some ((stream_det (DetAdd input_name ''exec.go'') s)\<lparr>sm_caller := CallerStarted, sm_in := InCopying\<rparr>) else None)"
| "stream_next isPty WaitCalled s =
     (if sm_caller s = CallerStarted
      then Some ((stream_det (DetAdd wait_name ''exec.go'') s)\<lparr>sm_caller := CallerSelect\<rparr>) else None)"
| "stream_next isPty (OutputCopied err) s =
     (if sm_out s = OutCopying
      then Some (s\<lparr>sm_out := OutSending err, sm_restored := isPty, sm_copied := Some err\<rparr>) else None)"
| "stream_next isPty OutputSent s =
     (case sm_out s of
        OutSending err \<Rightarrow>
          if length (sm_output_chan s) < output_cap
          then Some (s\<lparr>sm_out := OutLeaving, sm_output_chan := sm_output_chan s @ [err]\<rparr>) else None
      | _ \<Rightarrow> None)"
| "stream_next isPty OutputEnds s =
     (if sm_out s = OutLeaving then Some ((stream_det (DetDone output_name) s)\<lparr>sm_out := OutGone\<rparr>) else None)"
| "stream_next isPty InputCopied s =
     (if sm_in s = InCopying then Some (s\<lparr>sm_in := InClosing, sm_close_write := True\<rparr>) else None)"
| "stream_next isPty InputClosed s =
     (if sm_in s = InClosing then Some ((close_input_done s)\<lparr>sm_in := InLeaving\<rparr>) else None)"
| "stream_next isPty InputEnds s =
     (if sm_in s = InLeaving then Some ((stream_det (DetDone input_name) s)\<lparr>sm_in := InGone\<rparr>) else None)"
| "stream_next isPty GotOutput s =
     (case sm_output_chan s of
        err # rest \<Rightarrow>
          if sm_caller s \<in> {CallerSelect, CallerSelectOutput}
          then Some (s\<lparr>sm_caller := CallerLeaving err, sm_output_chan := rest\<rparr>) else None
      | [] \<Rightarrow> None)"
| "stream_next isPty GotInput s =
     (if sm_caller s = CallerSelect \<and> sm_input_done s then Some (s\<lparr>sm_caller := CallerSelectOutput\<rparr>) else None)"
| "stream_next isPty GotCtx s =
     (case sm_ctx s of
        Some e \<Rightarrow>
          if sm_caller s \<in> {CallerSelect, CallerSelectOutput} then Some (s\<lparr>sm_caller := CallerLeaving (Some e)\<rparr>) else None
      | None \<Rightarrow> None)"
| "stream_next isPty WaitEnds s =
     (case sm_caller s of
        CallerLeaving err \<Rightarrow> Some ((stream_det (DetDone wait_name) s)\<lparr>sm_caller := CallerReturned err\<rparr>)
      | _ \<Rightarrow> None)"
| "stream_next isPty (StreamCtxDone e) s = (if sm_ctx s = None then Some (s\<lparr>sm_ctx := Some e\<rparr>) else None)"
| "stream_next isPty (SessionDet x) s =
     (case det_apply x (sm_detector s) of
        (Ok u, d) \<Rightarrow> if stream_name (det_op_name x) then None else Some (s\<lparr>sm_detector := d\<rparr>)
      | _ \<Rightarrow> None)"

fun stream_exec :: "bool \<Rightarrow> stream_label list \<Rightarrow> stream_sys \<Rightarrow> stream_sys option" where
  "stream_exec isPty [] s = Some s"
| "stream_exec isPty (l # ls) s =
     (if sm_panic s then None
      else (case stream_next isPty l s of None \<Rightarrow> None | Some s' \<Rightarrow> stream_exec isPty ls s'))"

lemma stream_next_step: "stream_next isPty l s = Some s' \<Longrightarrow> \<not> sm_panic s \<Longrightarrow> stream_step isPty s l s'"
  by (cases "(isPty, l, s)" rule: stream_next.cases)
    (auto intro: stream_step.intros split: if_splits out_pc.splits caller_pc.splits option.splits list.splits prod.splits go.splits)

lemma stream_exec_run: "stream_exec isPty ls s = Some s' \<Longrightarrow> run_path (stream_step isPty) s ls s'"
  by (induction ls arbitrary: s) (auto simp: run_path_Cons_iff dest: stream_next_step split: option.splits if_splits)

section \<open>Properties\<close>

text \<open>A command whose input ends before its output, while the session uses the detector too.\<close>

definition finished_streams :: "stream_label list" where
  "finished_streams =
     [StartOutput, StartInput, SessionDet (DetAdd ''session: context cancel'' ''session.go''), WaitCalled,
      InputCopied, InputClosed, GotInput, OutputCopied None, OutputSent, GotOutput, InputEnds]"

definition cancelled_streams :: "stream_label list" where
  "cancelled_streams = [StartOutput, StartInput, WaitCalled, InputCopied, InputClosed, GotInput,
     StreamCtxDone (ErrForeign ''context canceled'')]"

lemma finished_streams_exec:
  "map_option (\<lambda>s. (sm_caller s, sm_out s, sm_in s)) (stream_exec False finished_streams (stream_init new_detector)) =
     Some (CallerLeaving None, OutLeaving, InGone)"
  "map_option sm_caller (stream_exec False (finished_streams @ [WaitEnds]) (stream_init new_detector)) =
     Some (CallerReturned None)"
  "map_option (\<lambda>s. (sm_caller s, sm_ctx s)) (stream_exec False cancelled_streams (stream_init new_detector)) =
     Some (CallerSelectOutput, Some (ErrForeign ''context canceled''))"
  by code_simp+

text \<open>
  The goroutines of a container process never go wrong: whatever the interleaving, with
  the session calling the same detector, no call of the detector panics and no channel is
  closed twice, the names of the process that are outstanding are exactly those of what is
  under way, and the output goroutine can always send its result, whether or not anybody
  still waits for it, so that it never leaks.
\<close>

theorem docker_goroutines_exact:
  assumes "run_path (stream_step isPty) (stream_init d) ls s"
    and "det_inv d" and "\<And>n. n \<in> outstanding d \<Longrightarrow> \<not> stream_name n"
  shows "\<not> sm_panic s \<and> {n \<in> outstanding (sm_detector s). stream_name n} = stream_live s \<and>
    ((\<exists>err. sm_out s = OutSending err) = (\<exists>s'. stream_step isPty s OutputSent s'))"
proof -
  have inv: "stream_inv s" using stream_reachable [OF assms] .
  have "\<exists>s'. stream_step isPty s OutputSent s'" if "sm_out s = OutSending err" for err
    by (rule exI, rule output_sent [of s err]) (use inv that in \<open>auto simp: stream_inv_def stream_chan_ok_def output_cap_def\<close>)
  moreover have "\<exists>err. sm_out s = OutSending err" if "stream_step isPty s OutputSent s'" for s'
    using that by (auto elim: stream_stepE)
  ultimately show ?thesis using inv by (auto simp: stream_inv_def stream_det_ok_def)
qed

theorem docker_goroutines_exact_witness:
  "\<exists>s. stream_exec False finished_streams (stream_init new_detector) = Some s \<and>
     {n \<in> outstanding (sm_detector s). stream_name n} = {output_name, wait_name}"
proof -
  obtain s where s: "stream_exec False finished_streams (stream_init new_detector) = Some s"
    and pc: "sm_caller s = CallerLeaving None" "sm_out s = OutLeaving" "sm_in s = InGone"
    using finished_streams_exec(1) by auto
  from docker_goroutines_exact [OF stream_exec_run [OF s]] have
    "{n \<in> outstanding (sm_detector s). stream_name n} = stream_live s" by simp
  with s pc show ?thesis by (auto simp: stream_live_def)
qed

text \<open>
  \<open>Wait\<close> returns when the context is done: in every reachable state in which it is under
  way and the context is done, one of its own actions is possible, and each of them brings
  it closer to its return, which is at most three of them away, whatever the streams and the
  other goroutines do.
\<close>

theorem docker_wait_progress:
  assumes "run_path (stream_step isPty) (stream_init d) ls s"
    and "det_inv d" and "\<And>n. n \<in> outstanding d \<Longrightarrow> \<not> stream_name n"
    and "sm_ctx s = Some e" and "wait_distance (sm_caller s) \<in> {1, 2, 3}"
  shows "(\<exists>l s'. wait_action l \<and> stream_step isPty s l s') \<and>
    (\<forall>l s'. wait_action l \<and> stream_step isPty s l s' \<longrightarrow> wait_distance (sm_caller s') < wait_distance (sm_caller s))"
proof
  from stream_reachable [OF assms(1-3)] have "\<not> sm_panic s" by (simp add: stream_inv_def)
  moreover have "(\<exists>err. sm_caller s = CallerLeaving err) \<or> sm_caller s \<in> {CallerSelect, CallerSelectOutput}"
    using assms(5) by (cases "sm_caller s") auto
  ultimately show "\<exists>l s'. wait_action l \<and> stream_step isPty s l s'"
    using assms(4) wait_ends [of s _ isPty] got_ctx [of s e isPty] by (auto simp: wait_action_def; blast)
qed (use wait_action_decreases in blast)

theorem docker_wait_progress_witness:
  "\<exists>s l s'. stream_exec False cancelled_streams (stream_init new_detector) = Some s \<and>
     stream_step False s l s' \<and> wait_distance (sm_caller s') < 2"
proof -
  obtain s where s: "stream_exec False cancelled_streams (stream_init new_detector) = Some s"
    and pc: "sm_caller s = CallerSelectOutput" "sm_ctx s = Some (ErrForeign ''context canceled'')"
    using finished_streams_exec(3) by auto
  from docker_wait_progress [OF stream_exec_run [OF s] _ _ pc(2)] pc(1) have
    "\<exists>l s'. wait_action l \<and> stream_step False s l s' \<and> wait_distance (sm_caller s') < 2"
    by fastforce
  with s show ?thesis by blast
qed

end
