(* ===== verification/DockerExec.thy ===== *)
theory DockerExec
  imports Docker DockerStream
begin

text \<open>
  \<open>config/dockerexec/exec.go\<close>: the process that executes a command in a container through the
  docker daemon.

  The daemon's answers are the parameters \<open>docker_exec\<close>.  A hijacked connection is its
  \<open>net.Conn\<close> and its reader, each of which may be nil.  The goroutines that \<open>execAndStream\<close>
  starts, the leak detector and \<open>waitStreams\<close> are the steps of theory \<open>DockerStream\<close>; here
  are what the methods do to the process itself.
\<close>

section \<open>State\<close>

record exec_options =
  AttachStdin :: bool
  AttachStderr :: bool
  AttachStdout :: bool
  Cmd :: "string list"
  Env :: "string list"
  Tty :: bool

record hijacked =
  hj_Conn :: "nat option"
  hj_Reader :: "nat option"

text \<open>
  \<open>cep_exited\<close> is the field \<open>exited\<close>; \<open>cep_streaming\<close> says whether the two channels and
  the goroutines that serve them were made.
\<close>

record 'm exec_process =
  cep_containerID :: string
  cep_config :: exec_options
  cep_pipes :: pipes
  cep_terminal :: "'m pair option"
  cep_execID :: string
  cep_conn :: "hijacked option"
  cep_streaming :: bool
  cep_exited :: bool

definition new_container_exec_process :: "string \<Rightarrow> string list \<Rightarrow> 'm exec_process" where
  "new_container_exec_process containerID command =
     \<lparr>cep_containerID = containerID,
      cep_config = \<lparr>AttachStdin = True, AttachStderr = True, AttachStdout = True, Cmd = command, Env = [], Tty = False\<rparr>,
      cep_pipes = no_pipes, cep_terminal = None, cep_execID = [], cep_conn = None, cep_streaming = False,
      cep_exited = False\<rparr>"

definition cep_string :: "'m exec_process option \<Rightarrow> string" where
  "cep_string cep =
     (case cep of None \<Rightarrow> [] | Some c \<Rightarrow> cep_containerID c @ '' '' @ go_join (Cmd (cep_config c)) '' '')"

text \<open>
  An attachment gives a response and an error; an inspection gives the exit code and an error.
\<close>

record docker_exec =
  ContainerExecCreate :: "string \<Rightarrow> exec_options \<Rightarrow> go_error + string"
  ContainerExecAttach :: "string \<Rightarrow> bool \<Rightarrow> hijacked \<times> go_error option"
  ContainerExecInspect :: "string \<Rightarrow> int \<times> go_error option"

section \<open>Starting\<close>

definition cep_init_plain :: "unit go" where
  "cep_init_plain = Ok ()"

definition cep_init_term :: "'m tty_lib \<Rightarrow> 'm exec_process \<Rightarrow> 'm os \<Rightarrow> unit go \<times> 'm exec_process \<times> 'm os" where
  "cep_init_term lib cep k =
     (let (r, p, k1) = pair_open lib True zero_pair k in (r, cep\<lparr>cep_terminal := Some p\<rparr>, k1))"

definition cep_init :: "'m tty_lib \<Rightarrow> bool \<Rightarrow> 'm exec_process \<Rightarrow> 'm os \<Rightarrow> unit go \<times> 'm exec_process \<times> 'm os" where
  "cep_init lib isTerm cep k =
     (if isTerm then cep_init_term lib (cep\<lparr>cep_config := (cep_config cep)\<lparr>Tty := True\<rparr>\<rparr>) k
      else (cep_init_plain, cep, k))"

text \<open>
  The error of the attachment is assigned and not looked at.  The goroutines that
  \<open>cep_streaming\<close> stands for are those of theory \<open>DockerStream\<close>, and what they copy between
  is in \<open>output_streams\<close> and \<open>input_streams\<close> below.
\<close>

definition exec_and_stream :: "docker_exec \<Rightarrow> bool \<Rightarrow> 'm exec_process \<Rightarrow> unit go \<times> 'm exec_process" where
  "exec_and_stream x isPty cep =
     (case ContainerExecCreate x (cep_containerID cep) (cep_config cep) of
        Inl e \<Rightarrow> (Err e, cep)
      | Inr execID \<Rightarrow>
          (let cep1 = cep\<lparr>cep_execID := execID\<rparr>;
               (conn, err) = ContainerExecAttach x (cep_execID cep1) isPty
           in (Ok (), cep1\<lparr>cep_conn := Some conn, cep_streaming := True\<rparr>)))"

definition cep_start ::
  "docker_exec \<Rightarrow> string \<Rightarrow> bool \<Rightarrow> 'm exec_process \<Rightarrow> nat option go \<times> 'm exec_process" where
  "cep_start x Term isPty cep =
     (let cep1 = (if isPty
                  then cep\<lparr>cep_config := (cep_config cep)\<lparr>Env := Env (cep_config cep) @ [''TERM='' @ Term]\<rparr>\<rparr>
                  else cep)
      in case exec_and_stream x isPty cep1 of
           (Ok u, cep2) \<Rightarrow> (Ok (external (cep_terminal cep2)), cep2)
         | (Err e, cep2) \<Rightarrow> (Err e, cep2)
         | (Panic m, cep2) \<Rightarrow> (Panic m, cep2))"

text \<open>
  The goroutine that \<open>Start\<close> starts for a terminal.  A resize of a pty process reaches the terminal and then the daemon; \<open>resizes\<close> lists the
  calls of \<open>ContainerExecResize\<close>, with the height first and both widened to \<open>uint\<close>.
\<close>

definition cep_resize_effect :: "string \<Rightarrow> win_size \<Rightarrow> (string \<times> nat \<times> nat) list \<Rightarrow> (string \<times> nat \<times> nat) list" where
  "cep_resize_effect execID sz resizes = resizes @ [(execID, unat (Height sz), unat (Width sz))]"

definition cep_handle_resizes ::
  "'m tty_lib \<Rightarrow> 'm exec_process \<Rightarrow> win_size list option \<Rightarrow> 'm os \<times> (string \<times> nat \<times> nat) list
     \<Rightarrow> unit go \<times> 'm os \<times> (string \<times> nat \<times> nat) list" where
  "cep_handle_resizes lib cep events s =
     (case cep_terminal cep of
        None \<Rightarrow> (if events = None then (Ok (), s) else (Panic ''nil pointer dereference'', s))
      | Some p \<Rightarrow> handle_with lib p events (Some (cep_resize_effect (cep_execID cep))) s)"

section \<open>Streaming\<close>

text \<open>
  What the two goroutines read from and write to: the connection on one side, and the inner
  terminal or the pipes on the other.
\<close>

datatype endpoint = EndFile "nat option" | EndConn "nat option" | EndReader "nat option"

definition output_streams :: "bool \<Rightarrow> 'm exec_process \<Rightarrow> hijacked \<Rightarrow> endpoint list \<times> endpoint" where
  "output_streams isPty cep conn =
     (if isPty then ([EndFile (internal (cep_terminal cep))], EndReader (hj_Reader conn))
      else ([EndFile (StdoutPipe (cep_pipes cep)), EndFile (StderrPipe (cep_pipes cep))], EndReader (hj_Reader conn)))"

definition input_streams :: "bool \<Rightarrow> 'm exec_process \<Rightarrow> hijacked \<Rightarrow> endpoint \<times> endpoint" where
  "input_streams isPty cep conn =
     (EndConn (hj_Conn conn),
      if isPty then EndFile (internal (cep_terminal cep)) else EndFile (StdinPipe (cep_pipes cep)))"

text \<open>
  The first \<open>Read\<close> of an endpoint: on a nil file it is an error, on the nil reader of a
  failed attachment it dereferences a nil pointer.
\<close>

fun first_read :: "endpoint \<Rightarrow> unit go" where
  "first_read (EndReader None) = Panic ''nil pointer dereference''"
| "first_read (EndReader (Some r)) = Ok ()"
| "first_read (EndConn None) = Panic ''nil pointer dereference''"
| "first_read (EndConn (Some c)) = Ok ()"
| "first_read (EndFile None) = Err ErrInvalid"
| "first_read (EndFile (Some f)) = Ok ()"

section \<open>Waiting\<close>

text \<open>\<open>streamErr\<close> is the result of \<open>waitStreams\<close> (theory \<open>DockerStream\<close>).\<close>

definition cep_wait :: "docker_exec \<Rightarrow> go_error option \<Rightarrow> 'm exec_process \<Rightarrow> (int \<times> go_error option) \<times> 'm exec_process" where
  "cep_wait x streamErr cep =
     (case streamErr of
        Some e \<Rightarrow> ((0, Some e), cep)
      | None \<Rightarrow>
          (let (code, err) = ContainerExecInspect x (cep_execID cep);
               cep1 = (if err = None then cep\<lparr>cep_exited := True\<rparr> else cep)
           in ((code, err), cep1)))"

section \<open>Cleaning up\<close>

text \<open>\<open>HijackedResponse.Close\<close> calls \<open>Close\<close> of its connection.\<close>

definition hijacked_close :: "hijacked \<Rightarrow> unit go" where
  "hijacked_close h = (case hj_Conn h of None \<Rightarrow> Panic ''nil pointer dereference'' | Some c \<Rightarrow> Ok ())"

definition cep_cleanup :: "'m tty_lib \<Rightarrow> 'm exec_process \<Rightarrow> 'm os \<Rightarrow> bool go \<times> 'm exec_process \<times> 'm os" where
  "cep_cleanup lib cep k =
     (let k1 = unhang_hack (cep_terminal cep) k;
          (t, k2) = pair_close lib (cep_terminal cep) k1;
          (ps, k3) = close_pipes (cep_pipes cep) k2;
          cep1 = cep\<lparr>cep_terminal := t, cep_pipes := ps\<rparr>
      in case cep_conn cep1 of
           None \<Rightarrow> (Ok (cep_exited cep1), cep1, k3)
         | Some conn \<Rightarrow>
             (case hijacked_close conn of
                Panic m \<Rightarrow> (Panic m, cep1, k3)
              | q \<Rightarrow> (Ok (cep_exited cep1), cep1\<lparr>cep_conn := None\<rparr>, k3)))"

text \<open>\<open>streamErr\<close> is the outcome of the streams that the one call of \<open>Wait\<close> finds.\<close>

fun cep_call :: "docker_exec \<Rightarrow> 'm tty_lib \<Rightarrow> string \<Rightarrow> bool \<Rightarrow> go_error option \<Rightarrow> proc_call
    \<Rightarrow> 'm exec_process \<times> 'm os \<Rightarrow> unit go \<times> 'm exec_process \<times> 'm os" where
  "cep_call x lib Term isPty se CallInit (cep, k) = cep_init lib isPty cep k"
| "cep_call x lib Term isPty se CallStdout (cep, k) =
     (case pipes_stdout (cep_pipes cep) k of (q, ps, k1) \<Rightarrow> (go_bind q (\<lambda>f. Ok ()), cep\<lparr>cep_pipes := ps\<rparr>, k1))"
| "cep_call x lib Term isPty se CallStderr (cep, k) =
     (case pipes_stderr (cep_pipes cep) k of (q, ps, k1) \<Rightarrow> (go_bind q (\<lambda>f. Ok ()), cep\<lparr>cep_pipes := ps\<rparr>, k1))"
| "cep_call x lib Term isPty se CallStdin (cep, k) =
     (case pipes_stdin (cep_pipes cep) k of (q, ps, k1) \<Rightarrow> (go_bind q (\<lambda>f. Ok ()), cep\<lparr>cep_pipes := ps\<rparr>, k1))"
| "cep_call x lib Term isPty se CallStart (cep, k) =
     (case cep_start x Term isPty cep of (q, cep') \<Rightarrow> (go_bind q (\<lambda>f. Ok ()), cep', k))"
| "cep_call x lib Term isPty se CallWait (cep, k) = (Ok (), snd (cep_wait x se cep), k)"
| "cep_call x lib Term isPty se CallCleanup (cep, k) =
     (case cep_cleanup lib cep k of (q, cep', k1) \<Rightarrow> (go_bind q (\<lambda>b. Ok ()), cep', k1))"

section \<open>Lemmas\<close>

text \<open>An attachment without an error gives a connection; this is the documented behaviour.\<close>

definition attach_ok :: "docker_exec \<Rightarrow> bool" where
  "attach_ok x \<longleftrightarrow> (\<forall>e b. snd (ContainerExecAttach x e b) = None \<and>
     hj_Conn (fst (ContainerExecAttach x e b)) \<noteq> None \<and> hj_Reader (fst (ContainerExecAttach x e b)) \<noteq> None)"

definition conn_ok :: "'m exec_process \<Rightarrow> bool" where
  "conn_ok cep \<longleftrightarrow> (case cep_conn cep of None \<Rightarrow> True | Some h \<Rightarrow> hj_Conn h \<noteq> None)"

lemma exec_and_stream_safe:
  assumes "attach_ok x" and "conn_ok cep"
  shows "\<not> is_panic (fst (exec_and_stream x isPty cep)) \<and> conn_ok (snd (exec_and_stream x isPty cep))"
  using assms
  by (auto simp: exec_and_stream_def conn_ok_def attach_ok_def Let_def split: sum.splits prod.splits)
    (metis fst_conv)

lemma cep_start_safe:
  assumes "attach_ok x" and "conn_ok cep"
  shows "\<not> is_panic (fst (cep_start x Term isPty cep)) \<and> conn_ok (snd (cep_start x Term isPty cep))"
proof -
  let ?c = "if isPty then cep\<lparr>cep_config := (cep_config cep)\<lparr>Env := Env (cep_config cep) @ [''TERM='' @ Term]\<rparr>\<rparr> else cep"
  have "conn_ok ?c" using assms(2) by (simp add: conn_ok_def)
  from exec_and_stream_safe [OF assms(1) this, of isPty] show ?thesis
    by (cases "exec_and_stream x isPty ?c"; cases "fst (exec_and_stream x isPty ?c)")
      (auto simp: cep_start_def Let_def)
qed

lemma cep_cleanup_safe:
  "conn_ok cep \<Longrightarrow> \<not> is_panic (fst (cep_cleanup lib cep k)) \<and> conn_ok (fst (snd (cep_cleanup lib cep k)))"
  by (auto simp: cep_cleanup_def conn_ok_def hijacked_close_def Let_def split: prod.splits option.splits)

lemma cep_conn_frame [simp]:
  "conn_ok (cep\<lparr>cep_pipes := ps\<rparr>) = conn_ok cep" "conn_ok (cep\<lparr>cep_terminal := t\<rparr>) = conn_ok cep"
  "conn_ok (cep\<lparr>cep_config := c\<rparr>) = conn_ok cep" "conn_ok (cep\<lparr>cep_exited := e\<rparr>) = conn_ok cep"
  by (simp_all add: conn_ok_def)

lemma cep_wait_conn: "conn_ok (snd (cep_wait x se cep)) = conn_ok cep"
  by (auto simp: cep_wait_def Let_def split: option.splits prod.splits)

interpretation dockerexec: process_impl "cep_call x lib Term isPty se"
    "\<lambda>s. attach_ok x \<and> open_safe lib \<and> conn_ok (fst s)"
    "\<lambda>s. attach_ok x \<and> open_safe lib \<and> conn_ok (fst s)" for x lib Term isPty se
proof
  fix s :: "'a exec_process \<times> 'a os" and r s'
  assume a: "attach_ok x \<and> open_safe lib \<and> conn_ok (fst s)" "cep_call x lib Term isPty se CallInit s = (r, s')"
  obtain cep k where s: "s = (cep, k)" by (metis prod.exhaust)
  from a s pair_open_safe [of lib True zero_pair k]
  show "\<not> is_panic r \<and> attach_ok x \<and> open_safe lib \<and> conn_ok (fst s')"
    by (auto simp: cep_init_def cep_init_term_def cep_init_plain_def Let_def split: if_splits prod.splits)
next
  fix s :: "'a exec_process \<times> 'a os" and c r s'
  assume a: "attach_ok x \<and> open_safe lib \<and> conn_ok (fst s)" "c \<noteq> CallInit"
    "cep_call x lib Term isPty se c s = (r, s')"
  obtain cep k where s: "s = (cep, k)" by (metis prod.exhaust)
  show "\<not> is_panic r \<and> attach_ok x \<and> open_safe lib \<and> conn_ok (fst s')"
  proof (cases c)
    case CallStart
    with a s cep_start_safe [of x cep Term isPty] show ?thesis
      by (cases "cep_start x Term isPty cep") (auto simp: is_panic_bind_Ok)
  next
    case CallCleanup
    with a s cep_cleanup_safe [of cep lib k] show ?thesis
      by (cases "cep_cleanup lib cep k") (auto simp: is_panic_bind_Ok)
  next
    case CallWait
    with a s show ?thesis by (auto simp: cep_wait_conn)
  qed (use a s pipes_safe [of "cep_pipes cep" k] in \<open>auto simp: is_panic_bind_Ok split: prod.splits\<close>)
qed

section \<open>Properties\<close>

text \<open>A daemon for the examples, and one that refuses to attach.\<close>

definition toy_docker_exec :: docker_exec where
  "toy_docker_exec =
     \<lparr>ContainerExecCreate = (\<lambda>c opts. Inr ''e1''),
      ContainerExecAttach = (\<lambda>e tty. (\<lparr>hj_Conn = Some 1, hj_Reader = Some 2\<rparr>, None)),
      ContainerExecInspect = (\<lambda>e. (7, None))\<rparr>"

definition refusing_docker_exec :: docker_exec where
  "refusing_docker_exec = toy_docker_exec\<lparr>ContainerExecAttach :=
     (\<lambda>e tty. (\<lparr>hj_Conn = None, hj_Reader = None\<rparr>, Some (ErrForeign ''refused'')))\<rparr>"

definition context_Canceled :: go_error where
  "context_Canceled = ErrForeign ''context canceled''"

definition failed_wait_schedule :: "session_label list" where
  "failed_wait_schedule = start_schedule @ [WaitReturns 0 (Some context_Canceled)] @ replicate 6 (MainFin [])"

lemma failed_wait_exec:
  "map_option (\<lambda>s. (s_exits s, s_waited s)) (session_exec toy_env failed_wait_schedule (new_session [])) =
     Some ([0], Some (0, Some context_Canceled))"
  by code_simp

text \<open>
  A container process reports success only when all of its output has arrived: when
  \<open>Wait\<close> returns no error, the output stream has ended without an error (the end of the input
  alone is never enough), the status is the one that the daemon reports for the execution, and
  the process is marked as exited.
\<close>

theorem docker_wait_success:
  assumes "run_path (stream_step isPty) (stream_init d) ls s"
    and "det_inv d" and "\<And>n. n \<in> outstanding d \<Longrightarrow> \<not> stream_name n"
    and "sm_caller s = CallerReturned streamErr" and "cep_wait x streamErr cep = ((code, None), cep')"
  shows "sm_copied s = Some None \<and> ContainerExecInspect x (cep_execID cep) = (code, None) \<and> cep_exited cep'"
proof -
  from assms(5) have "streamErr = None" "ContainerExecInspect x (cep_execID cep) = (code, None)" "cep_exited cep'"
    by (auto simp: cep_wait_def Let_def split: option.splits prod.splits)
  with wait_result [OF stream_reachable [OF assms(1-3)] assms(4)] show ?thesis by auto
qed

theorem docker_wait_success_witness:
  "\<exists>s cep'. stream_exec False (finished_streams @ [WaitEnds]) (stream_init new_detector) = Some s \<and>
     cep_wait toy_docker_exec None (new_container_exec_process ''c1'' [''sh''] :: nat exec_process) = ((7, None), cep') \<and>
     sm_copied s = Some None \<and> cep_exited cep'"
proof -
  let ?cep = "new_container_exec_process ''c1'' [''sh''] :: nat exec_process"
  obtain s where s: "stream_exec False (finished_streams @ [WaitEnds]) (stream_init new_detector) = Some s"
    and pc: "sm_caller s = CallerReturned None"
    using finished_streams_exec(2) by auto
  obtain cep' where c: "cep_wait toy_docker_exec None ?cep = ((7, None), cep')"
    by (simp add: cep_wait_def toy_docker_exec_def)
  from docker_wait_success [OF stream_exec_run [OF s] _ _ pc c] s c show ?thesis by simp
qed

text \<open>
  When the streams fail or the connection is lost, \<open>Wait\<close> returns the status 0 together
  with its error, and a session that gets this result is exited with status 0, as if the
  command had succeeded.
\<close>

theorem docker_wait_error_exits_zero:
  "fst (cep_wait x (Some e) cep) = (0, Some e) \<and>
   (\<exists>ls s. WaitReturns 0 (Some context_Canceled) \<in> set ls \<and>
      run_path (session_step toy_env) (new_session []) ls s \<and> s_exits s = [0])"
proof
  show "fst (cep_wait x (Some e) cep) = (0, Some e)" by (simp add: cep_wait_def)
  obtain s where "session_exec toy_env failed_wait_schedule (new_session []) = Some s" "s_exits s = [0]"
    using failed_wait_exec by auto
  moreover have "WaitReturns 0 (Some context_Canceled) \<in> set failed_wait_schedule"
    by (simp add: failed_wait_schedule_def)
  ultimately show "\<exists>ls s. WaitReturns 0 (Some context_Canceled) \<in> set ls \<and>
      run_path (session_step toy_env) (new_session []) ls s \<and> s_exits s = [0]"
    by (auto simp: session_exec_run)
qed

text \<open>
  C34.  An error of \<open>ContainerExecAttach\<close> is not noticed: \<open>Start\<close> succeeds all the same, the
  goroutine that copies the output then dereferences a nil reader, and so does \<open>Cleanup\<close> with
  the connection, outside of any function that recovers.
\<close>

theorem attach_error_crashes:
  assumes "ContainerExecCreate x (cep_containerID cep) (cep_config cep) = Inr execID"
    and "ContainerExecAttach x execID False = (\<lparr>hj_Conn = None, hj_Reader = None\<rparr>, Some e)"
    and "cep_start x Term False cep = (r, cep')"
  shows "is_ok r \<and>
    (\<exists>conn. cep_conn cep' = Some conn \<and> is_panic (first_read (snd (output_streams False cep' conn)))) \<and>
    is_panic (fst (cep_cleanup lib cep' k))"
  using assms
  by (auto simp: cep_start_def exec_and_stream_def Let_def output_streams_def cep_cleanup_def hijacked_close_def
      split: prod.splits)

theorem attach_error_crashes_witness:
  "\<exists>cep'. cep_start refusing_docker_exec ''xterm'' False (new_container_exec_process ''c1'' [''sh''] :: nat exec_process) =
       (Ok None, cep') \<and> is_panic (fst (cep_cleanup toy_tty cep' toy_os))"
proof -
  let ?cep = "new_container_exec_process ''c1'' [''sh''] :: nat exec_process"
  obtain r cep' where run: "cep_start refusing_docker_exec ''xterm'' False ?cep = (r, cep')" by (metis prod.exhaust)
  have "is_panic (fst (cep_cleanup toy_tty cep' toy_os))"
    using attach_error_crashes [OF _ _ run, of "''e1''" "ErrForeign ''refused''"]
    by (simp add: refusing_docker_exec_def toy_docker_exec_def)
  moreover have "r = Ok None"
    using run by (auto simp: cep_start_def exec_and_stream_def refusing_docker_exec_def toy_docker_exec_def
        new_container_exec_process_def external_def)
  ultimately show ?thesis using run by blast
qed

text \<open>
  Otherwise no schedule of a session makes a method of a container process panic: when
  the daemon accepts every attachment, all calls that a session has made return, whether or
  not the execution could be created, a terminal be opened, or the streams be read.
\<close>

theorem docker_session_never_panics:
  assumes "run_path (session_step env) (new_session lg) ls s" and "attach_ok x" and "open_safe lib"
  shows "\<not> is_panic (fst (run_calls (cep_call x lib Term isPty se) (s_calls s)
    (new_container_exec_process containerID command, k)))"
  by (rule dockerexec.session_safe [OF assms(1)])
    (simp add: assms(2,3) conn_ok_def new_container_exec_process_def)

theorem docker_session_never_panics_witness:
  "\<exists>s. session_exec toy_env normal_schedule (new_session []) = Some s \<and> length (s_calls s) = 7 \<and>
     \<not> is_panic (fst (run_calls (cep_call toy_docker_exec toy_tty ''xterm'' True None) (s_calls s)
        (new_container_exec_process ''c1'' [''sh''], toy_os)))"
proof -
  obtain s where run: "run_path (session_step toy_env) (new_session []) normal_schedule s"
    and "s_calls s = [CallInit, CallStdout, CallStderr, CallStdin, CallStart, CallWait, CallCleanup]"
    by (rule normal_run)
  moreover have "attach_ok toy_docker_exec" by (simp add: attach_ok_def toy_docker_exec_def)
  moreover have "open_safe toy_tty" by (simp add: open_safe_def toy_tty_def os_Pipe_def)
  ultimately show ?thesis using docker_session_never_panics [OF run, of toy_docker_exec toy_tty]
    by (auto simp: session_exec_run)
qed

end
