(* ===== verification/DockerSession.thy ===== *)
theory DockerSession
  imports DockerExec Joint
begin

text \<open>
  A session with a container process (\<open>config/dockerexec/exec.go\<close>): the methods of theory
  \<open>DockerExec\<close> and the goroutines of theory \<open>DockerStream\<close> are one process of the joint relation
  (theory \<open>Joint\<close>).  The stream state's own copy of the detector sees the process's calls only;
  the detector that is shared is the session's, and both see every call of the process.
\<close>

section \<open>State and steps\<close>

datatype dock_start_pc = DockIdle | DockStreaming | DockLeaving "unit go" | DockStarted

text \<open>\<open>ds_conn\<close> is the variable \<open>conn\<close> that the goroutines hold on to.\<close>

record 'm dock_sys =
  ds_cep :: "'m exec_process"
  ds_os :: "'m os"
  ds_inited :: bool
  ds_start :: dock_start_pc
  ds_conn :: "hijacked option"
  ds_streams :: stream_sys
  ds_inspected :: "(int \<times> go_error option) option"
  ds_waited :: "(int \<times> go_error option) option"

definition dock_init :: "'m exec_process \<Rightarrow> 'm os \<Rightarrow> 'm dock_sys" where
  "dock_init cep k =
     \<lparr>ds_cep = cep, ds_os = k, ds_inited = False, ds_start = DockIdle, ds_conn = None,
      ds_streams = stream_init new_detector, ds_inspected = None, ds_waited = None\<rparr>"

datatype dock_label =
    DockMethod proc_call "unit go" | DockStarts | DockStartReturns "unit go" | DockStreams stream_label | DockStreamPanics
  | DockInspects | DockWaitReturns int "go_error option" | DockCleans bool | DockCleanPanics

definition dock_method_next ::
  "docker_exec \<Rightarrow> 'm tty_lib \<Rightarrow> string \<Rightarrow> bool \<Rightarrow> proc_call \<Rightarrow> unit go \<Rightarrow> 'm dock_sys \<Rightarrow> 'm dock_sys option" where
  "dock_method_next x lib Term isPty c q p =
     (if c \<in> {CallInit, CallStdout, CallStderr, CallStdin} \<and> (c = CallInit \<longrightarrow> \<not> ds_inited p)
      then (case cep_call x lib Term isPty None c (ds_cep p, ds_os p) of
              (q', cep, k) \<Rightarrow>
                if q' = q then Some (p\<lparr>ds_cep := cep, ds_os := k, ds_inited := ds_inited p \<or> c = CallInit\<rparr>) else None)
      else None)"

text \<open>The goroutines are started one after the other when the connection is there.\<close>

definition dock_start_next :: "docker_exec \<Rightarrow> string \<Rightarrow> bool \<Rightarrow> 'm dock_sys \<Rightarrow> 'm dock_sys option" where
  "dock_start_next x Term isPty p =
     (if ds_start p = DockIdle
      then (case cep_start x Term isPty (ds_cep p) of
              (q, cep) \<Rightarrow>
                Some (p\<lparr>ds_cep := cep, ds_conn := (if is_ok q then cep_conn cep else None),
                        ds_start := if is_ok q then DockStreaming else DockLeaving (go_bind q (\<lambda>f. Ok ()))\<rparr>)) else None)"

definition start_returned :: "unit go \<Rightarrow> 'm dock_sys \<Rightarrow> bool" where
  "start_returned q p \<longleftrightarrow> ds_start p = DockLeaving q \<or>
     (ds_start p = DockStreaming \<and> sm_caller (ds_streams p) = CallerStarted \<and> q = Ok ())"

fun stream_label_ok :: "stream_label \<Rightarrow> 'm dock_sys \<Rightarrow> bool" where
  "stream_label_ok StartOutput p = (ds_start p = DockStreaming)"
| "stream_label_ok StartInput p = (ds_start p = DockStreaming)"
| "stream_label_ok WaitCalled p = (ds_start p = DockStarted)"
| "stream_label_ok (SessionDet y) p = False"
| "stream_label_ok l p = True"

text \<open>The output is read from the connection's reader, the input written to its connection.\<close>

definition stream_panics :: "'m dock_sys \<Rightarrow> bool" where
  "stream_panics p \<longleftrightarrow>
     (case ds_conn p of
        None \<Rightarrow> False
      | Some conn \<Rightarrow>
          (sm_out (ds_streams p) = OutCopying \<and> is_panic (first_read (EndReader (hj_Reader conn)))) \<or>
          (sm_in (ds_streams p) = InCopying \<and> is_panic (first_read (EndConn (hj_Conn conn))))) \<or>
     sm_panic (ds_streams p)"

definition dock_wait_next :: "docker_exec \<Rightarrow> 'm dock_sys \<Rightarrow> 'm dock_sys option" where
  "dock_wait_next x p =
     (case sm_caller (ds_streams p) of
        CallerReturned streamErr \<Rightarrow>
          if ds_inspected p = None
          then (case cep_wait x streamErr (ds_cep p) of (r, cep) \<Rightarrow> Some (p\<lparr>ds_cep := cep, ds_inspected := Some r\<rparr>))
          else None
      | _ \<Rightarrow> None)"

fun dock_next ::
  "docker_exec \<Rightarrow> 'm tty_lib \<Rightarrow> string \<Rightarrow> bool \<Rightarrow> dock_label \<Rightarrow> 'm dock_sys \<Rightarrow> 'm dock_sys option" where
  "dock_next x lib Term isPty (DockMethod c q) p = dock_method_next x lib Term isPty c q p"
| "dock_next x lib Term isPty DockStarts p = dock_start_next x Term isPty p"
| "dock_next x lib Term isPty (DockStartReturns q) p =
     (if start_returned q p then Some (p\<lparr>ds_start := DockStarted\<rparr>) else None)"
| "dock_next x lib Term isPty (DockStreams l) p =
     (if stream_label_ok l p \<and> \<not> sm_panic (ds_streams p)
      then map_option (\<lambda>st. p\<lparr>ds_streams := st\<rparr>) (stream_next isPty l (ds_streams p)) else None)"
| "dock_next x lib Term isPty DockStreamPanics p = (if stream_panics p then Some p else None)"
| "dock_next x lib Term isPty DockInspects p = dock_wait_next x p"
| "dock_next x lib Term isPty (DockWaitReturns code err) p =
     (if ds_inspected p = Some (code, err) \<and> ds_waited p = None then Some (p\<lparr>ds_waited := Some (code, err)\<rparr>) else None)"
| "dock_next x lib Term isPty (DockCleans b) p =
     (case cep_cleanup lib (ds_cep p) (ds_os p) of
        (q, cep, k) \<Rightarrow> if q = Ok b then Some (p\<lparr>ds_cep := cep, ds_os := k\<rparr>) else None)"
| "dock_next x lib Term isPty DockCleanPanics p =
     (if is_panic (fst (cep_cleanup lib (ds_cep p) (ds_os p))) then Some p else None)"

definition dock_step ::
  "docker_exec \<Rightarrow> 'm tty_lib \<Rightarrow> string \<Rightarrow> bool \<Rightarrow> 'm dock_sys \<Rightarrow> dock_label \<Rightarrow> 'm dock_sys \<Rightarrow> bool" where
  "dock_step x lib Term isPty p l p' \<longleftrightarrow> dock_next x lib Term isPty l p = Some p'"

text \<open>Who does each action, and the calls of the detector.\<close>

fun stream_event :: "stream_label \<Rightarrow> proc_event" where
  "stream_event StartOutput = Inside CallStart (Some (DetAdd output_name ''exec.go''))"
| "stream_event StartInput = Inside CallStart (Some (DetAdd input_name ''exec.go''))"
| "stream_event WaitCalled = Inside CallWait (Some (DetAdd wait_name ''exec.go''))"
| "stream_event OutputEnds = Own (Some (DetDone output_name))"
| "stream_event InputEnds = Own (Some (DetDone input_name))"
| "stream_event GotOutput = Inside CallWait None"
| "stream_event GotInput = Inside CallWait None"
| "stream_event GotCtx = Inside CallWait None"
| "stream_event WaitEnds = Inside CallWait (Some (DetDone wait_name))"
| "stream_event (StreamCtxDone e) = CtxSeen"
| "stream_event l = Own None"

fun dock_event :: "dock_label \<Rightarrow> proc_event" where
  "dock_event (DockMethod c q) = Returns c q"
| "dock_event DockStarts = Inside CallStart None"
| "dock_event (DockStartReturns q) = Returns CallStart q"
| "dock_event (DockStreams l) = stream_event l"
| "dock_event DockStreamPanics = Panics None"
| "dock_event DockInspects = Inside CallWait None"
| "dock_event (DockWaitReturns code err) = WaitReturned code err"
| "dock_event (DockCleans b) = CleanReturned b"
| "dock_event DockCleanPanics = Panics (Some CallCleanup)"

section \<open>The contract with the session\<close>

definition hijacked_ok :: "hijacked \<Rightarrow> bool" where
  "hijacked_ok h \<longleftrightarrow> hj_Conn h \<noteq> None \<and> hj_Reader h \<noteq> None"

text \<open>The execution that the daemon has created in the container.\<close>

definition created :: "docker_exec \<Rightarrow> string \<Rightarrow> string \<Rightarrow> bool" where
  "created x containerID execID \<longleftrightarrow> (\<exists>opts. ContainerExecCreate x containerID opts = Inr execID)"

text \<open>Where a result of \<open>Wait\<close> comes from.\<close>

definition dock_result :: "docker_exec \<Rightarrow> string \<Rightarrow> stream_sys \<Rightarrow> int \<times> go_error option \<Rightarrow> bool" where
  "dock_result x containerID st r \<longleftrightarrow>
     (case sm_caller st of
        CallerReturned None \<Rightarrow> \<exists>execID. created x containerID execID \<and> r = ContainerExecInspect x execID
      | CallerReturned (Some e) \<Rightarrow> r = (0, Some e)
      | _ \<Rightarrow> False)"

definition dock_inv :: "docker_exec \<Rightarrow> 'm tty_lib \<Rightarrow> string \<Rightarrow> 'm dock_sys \<Rightarrow> bool" where
  "dock_inv x lib containerID p \<longleftrightarrow> attach_ok x \<and> open_safe lib \<and> conn_ok (ds_cep p) \<and> stream_inv (ds_streams p) \<and>
     cep_containerID (ds_cep p) = containerID \<and>
     (\<forall>h. ds_conn p = Some h \<longrightarrow> hijacked_ok h) \<and>
     (\<not> ds_inited p \<longrightarrow> ds_start p = DockIdle) \<and>
     (ds_start p = DockIdle \<or> (\<exists>q. ds_start p = DockLeaving q) \<longrightarrow> sm_caller (ds_streams p) = CallerOutput) \<and>
     (ds_start p = DockStreaming \<or> sm_caller (ds_streams p) \<noteq> CallerOutput \<longrightarrow> created x containerID (cep_execID (ds_cep p))) \<and>
     (\<forall>q. ds_start p = DockLeaving q \<longrightarrow> \<not> is_panic q) \<and>
     (\<forall>r. ds_inspected p = Some r \<longrightarrow> dock_result x containerID (ds_streams p) r) \<and>
     (\<forall>r. ds_waited p = Some r \<longrightarrow> ds_inspected p = Some r)"

lemma stream_live_names: "n \<in> stream_live s \<Longrightarrow> stream_name n \<and> \<not> session_name n"
  by (auto simp: stream_live_def session_name_def stream_name_def split: if_splits caller_pc.splits)

lemma stream_names_distinct [simp]:
  "\<not> session_name output_name" "\<not> session_name input_name" "\<not> session_name wait_name"
  by (simp_all add: session_name_def)

lemma stream_names_neq [simp]:
  "output_name \<noteq> input_name" "input_name \<noteq> output_name" "output_name \<noteq> wait_name" "wait_name \<noteq> output_name"
  "input_name \<noteq> wait_name" "wait_name \<noteq> input_name"
  by simp_all

text \<open>The calls of the detector, one label at a time; the three names are independent of each other.\<close>

lemma stream_live_step:
  assumes "stream_step isPty s l s'" and "stream_started s" and "\<nexists>y. l = SessionDet y"
  shows "case event_det (stream_event l) of
      None \<Rightarrow> stream_live s' = stream_live s
    | Some y \<Rightarrow> \<not> session_name (det_name y) \<and> spec_op y (stream_live s) = Some (stream_live s')"
  using assms(1)
proof cases
  case start_output
  with assms(2) have "output_name \<notin> stream_live s" "stream_live s' = insert output_name (stream_live s)"
    by (simp_all add: stream_live_def stream_started_def)
  with start_output show ?thesis by simp
next
  case start_input
  with assms(2) have "input_name \<notin> stream_live s" "stream_live s' = insert input_name (stream_live s)"
    by (auto simp: stream_live_def stream_started_def)
  with start_input show ?thesis by simp
next
  case wait_called
  then have "wait_name \<notin> stream_live s" "stream_live s' = insert wait_name (stream_live s)"
    by (simp_all add: stream_live_def)
  with wait_called show ?thesis by simp
next
  case output_ends
  then have "output_name \<in> stream_live s" "stream_live s' = stream_live s - {output_name}"
    by (auto simp: stream_live_def split: caller_pc.splits)
  with output_ends show ?thesis by simp
next
  case input_ends
  then have "input_name \<in> stream_live s" "stream_live s' = stream_live s - {input_name}"
    by (auto simp: stream_live_def split: caller_pc.splits)
  with input_ends show ?thesis by simp
next
  case (wait_ends err)
  then have "wait_name \<in> stream_live s" "stream_live s' = stream_live s - {wait_name}"
    by (auto simp: stream_live_def)
  with wait_ends show ?thesis by simp
next
  case input_closed
  then have "stream_live s' = stream_live s" by (simp add: stream_live_def close_input_done_def)
  with input_closed show ?thesis by simp
next
  case (got_output err rest)
  then have "stream_live s' = stream_live s" by (elim insertE emptyE) (simp_all add: stream_live_def)
  with got_output show ?thesis by simp
next
  case (got_ctx e)
  then have "stream_live s' = stream_live s" by (elim insertE emptyE) (simp_all add: stream_live_def)
  with got_ctx show ?thesis by simp
next
  case session_det
  with assms(3) show ?thesis by simp
qed (simp_all add: stream_live_def)

lemma stream_caller_next:
  "stream_step isPty s l s' \<Longrightarrow>
     sm_caller s' = sm_caller s \<or> (sm_caller s = CallerOutput \<and> l = StartOutput) \<or>
     (sm_caller s \<noteq> CallerOutput \<and> sm_caller s' \<noteq> CallerOutput \<and> (\<forall>e. sm_caller s \<noteq> CallerReturned e))"
  by (erule stream_stepE) (simp_all add: close_input_done_def, safe, simp_all)

text \<open>The names of a process: the container's is fixed, the execution's is set by \<open>Start\<close>.\<close>

definition same_ids :: "'m exec_process \<Rightarrow> 'm exec_process \<Rightarrow> bool" where
  "same_ids cep cep' \<longleftrightarrow> cep_containerID cep' = cep_containerID cep \<and> cep_execID cep' = cep_execID cep"

lemma cep_ids:
  "c \<noteq> CallStart \<Longrightarrow> cep_call x lib Term isPty se c (cep, k) = (q, cep', k') \<Longrightarrow> same_ids cep cep'"
  by (cases c) (auto simp: same_ids_def cep_init_def cep_init_term_def cep_wait_def cep_cleanup_def Let_def
      split: if_splits prod.splits option.splits go.splits)

lemma attach_hijacked: "attach_ok x \<Longrightarrow> ContainerExecAttach x e b = (h, err) \<Longrightarrow> hijacked_ok h"
  by (simp add: attach_ok_def hijacked_ok_def) (metis fst_conv)

lemma cep_start_ids:
  assumes "cep_start x Term isPty cep = (q, cep')" and "attach_ok x"
  shows "cep_containerID cep' = cep_containerID cep"
    and "is_ok q \<Longrightarrow> created x (cep_containerID cep) (cep_execID cep') \<and> (\<forall>h. cep_conn cep' = Some h \<longrightarrow> hijacked_ok h)"
  using assms
  by (auto simp: cep_start_def exec_and_stream_def Let_def created_def
      split: if_splits prod.splits sum.splits go.splits dest: attach_hijacked [OF assms(2)])

text \<open>The steps of the process, one group at a time.\<close>

lemma dock_method_inv:
  assumes "dock_method_next x lib Term isPty c q p = Some p'" and "dock_inv x lib cid p"
  shows "dock_inv x lib cid p' \<and> \<not> is_panic q \<and> ds_inited p' = (ds_inited p \<or> c = CallInit) \<and>
    ds_streams p' = ds_streams p \<and> ds_waited p' = ds_waited p"
proof -
  obtain q' cep k where call: "cep_call x lib Term isPty None c (ds_cep p, ds_os p) = (q', cep, k)" by (metis prod.exhaust)
  with assms(1) have p': "p' = p\<lparr>ds_cep := cep, ds_os := k, ds_inited := ds_inited p \<or> c = CallInit\<rparr>" "q' = q"
    and c: "c \<in> {CallInit, CallStdout, CallStderr, CallStdin}"
    by (auto simp: dock_method_next_def split: if_splits)
  let ?ok = "\<lambda>s :: 'a exec_process \<times> 'a os. attach_ok x \<and> open_safe lib \<and> conn_ok (fst s)"
  have ok: "?ok (ds_cep p, ds_os p)" using assms(2) by (simp add: dock_inv_def)
  have "\<not> is_panic q' \<and> ?ok (cep, k)"
  proof (cases "c = CallInit")
    case True
    with dockerexec.init_safe [OF ok, of Term isPty None q' "(cep, k)"] call show ?thesis by simp
  next
    case False
    with dockerexec.call_safe [OF ok, of c Term isPty None q' "(cep, k)"] call show ?thesis by simp
  qed
  moreover have "same_ids (ds_cep p) cep" using cep_ids [OF _ call] c by auto
  ultimately show ?thesis using assms(2) p' by (simp add: dock_inv_def same_ids_def)
qed

lemma dock_start_inv:
  assumes "dock_start_next x Term isPty p = Some p'" and "dock_inv x lib cid p" and "ds_inited p"
  shows "dock_inv x lib cid p'"
proof -
  obtain q cep where start: "cep_start x Term isPty (ds_cep p) = (q, cep)" by (metis prod.exhaust)
  with assms(1) have p': "ds_start p = DockIdle" "p' = p\<lparr>ds_cep := cep, ds_conn := (if is_ok q then cep_conn cep else None),
      ds_start := if is_ok q then DockStreaming else DockLeaving (go_bind q (\<lambda>f. Ok ()))\<rparr>"
    by (auto simp: dock_start_next_def split: if_splits)
  from assms(2) have i: "attach_ok x" "conn_ok (ds_cep p)" "cep_containerID (ds_cep p) = cid"
      "sm_caller (ds_streams p) = CallerOutput"
    using p'(1) by (simp_all add: dock_inv_def)
  have "\<not> is_panic q \<and> conn_ok cep" using cep_start_safe [OF i(1,2), of Term isPty] start by simp
  with cep_start_ids [OF start i(1)] i assms(2,3) p' show ?thesis
    by (auto simp: dock_inv_def is_panic_bind_Ok)
qed

lemma dock_stream_inv:
  assumes "stream_step isPty (ds_streams p) l st" and "stream_label_ok l p" and "dock_inv x lib cid p"
  shows "dock_inv x lib cid (p\<lparr>ds_streams := st\<rparr>)"
proof -
  from assms(3) have i: "stream_inv (ds_streams p)" by (simp add: dock_inv_def)
  have st: "stream_inv st" by (rule stream.inv_step [OF assms(1) i])
  have start: "ds_start p = DockStreaming" if "l = StartOutput" using assms(2) that by simp
  have result: "dock_result x cid st r" if "dock_result x cid (ds_streams p) r" for r
  proof -
    from that obtain e where "sm_caller (ds_streams p) = CallerReturned e" by (auto simp: dock_result_def split: caller_pc.splits)
    with stream_caller_next [OF assms(1)] that show ?thesis by (auto simp: dock_result_def)
  qed
  have caller: "sm_caller st = CallerOutput" if "sm_caller (ds_streams p) = CallerOutput" "l \<noteq> StartOutput"
    using stream_caller_next [OF assms(1)] that by auto
  have idle: "sm_caller st = CallerOutput" if "ds_start p = DockIdle \<or> (\<exists>q. ds_start p = DockLeaving q)"
  proof (rule caller)
    show "sm_caller (ds_streams p) = CallerOutput" using that assms(3) by (simp add: dock_inv_def)
    show "l \<noteq> StartOutput" using that start by auto
  qed
  have made: "created x cid (cep_execID (ds_cep p))" if "ds_start p = DockStreaming \<or> sm_caller st \<noteq> CallerOutput"
  proof (cases "ds_start p = DockStreaming \<or> sm_caller (ds_streams p) \<noteq> CallerOutput")
    case True
    with assms(3) show ?thesis by (simp add: dock_inv_def)
  next
    case False
    with that caller start show ?thesis by auto
  qed
  from assms(3) st idle made result show ?thesis
    unfolding dock_inv_def by simp
qed

lemma dock_wait_inv:
  assumes "dock_wait_next x p = Some p'" and "dock_inv x lib cid p"
  shows "dock_inv x lib cid p' \<and> ds_inited p' = ds_inited p \<and> ds_streams p' = ds_streams p \<and> ds_waited p' = ds_waited p"
proof -
  from assms(1) obtain se r cep where w: "sm_caller (ds_streams p) = CallerReturned se" "ds_inspected p = None"
      "cep_wait x se (ds_cep p) = (r, cep)" "p' = p\<lparr>ds_cep := cep, ds_inspected := Some r\<rparr>"
    by (auto simp: dock_wait_next_def split: caller_pc.splits if_splits prod.splits)
  from w(1) assms(2) have "created x cid (cep_execID (ds_cep p))" by (simp add: dock_inv_def)
  with w(1,3) have "dock_result x cid (ds_streams p) r"
    by (auto simp: dock_result_def cep_wait_def Let_def split: option.splits prod.splits)
  moreover have "conn_ok cep = conn_ok (ds_cep p)" using cep_wait_conn [of x se "ds_cep p"] w(3) by simp
  moreover have "same_ids (ds_cep p) cep"
    using w(3) by (auto simp: same_ids_def cep_wait_def Let_def split: option.splits prod.splits)
  ultimately show ?thesis using assms(2) w by (auto simp: dock_inv_def same_ids_def)
qed

lemma dock_cleanup_inv:
  assumes "cep_cleanup lib (ds_cep p) (ds_os p) = (q, cep, k)" and "dock_inv x lib cid p"
  shows "\<not> is_panic q \<and> dock_inv x lib cid (p\<lparr>ds_cep := cep, ds_os := k\<rparr>)"
proof -
  have "same_ids (ds_cep p) cep" using cep_ids [of CallCleanup x lib "[]" False None "ds_cep p" "ds_os p"] assms(1) by simp
  with cep_cleanup_safe [of "ds_cep p" lib "ds_os p"] assms show ?thesis by (simp add: dock_inv_def same_ids_def)
qed

lemma dock_no_panic:
  assumes "stream_panics p"
  shows "\<not> dock_inv x lib cid p"
proof
  assume i: "dock_inv x lib cid p"
  then have "\<not> sm_panic (ds_streams p)" by (simp add: dock_inv_def stream_inv_def)
  with assms obtain conn where c: "ds_conn p = Some conn"
      "is_panic (first_read (EndReader (hj_Reader conn))) \<or> is_panic (first_read (EndConn (hj_Conn conn)))"
    by (auto simp: stream_panics_def split: option.splits)
  with i have "hijacked_ok conn" by (simp add: dock_inv_def)
  with c(2) show False by (auto simp: hijacked_ok_def)
qed

text \<open>The parts of a step that the contract speaks of.\<close>

lemma dock_returned_inv:
  assumes "start_returned q p" and "dock_inv x lib cid p" and "ds_inited p"
  shows "dock_inv x lib cid (p\<lparr>ds_start := DockStarted\<rparr>) \<and> \<not> is_panic q"
proof -
  have "\<not> is_panic q" using assms(1,2) unfolding start_returned_def dock_inv_def by auto
  moreover have "ds_start p = DockStreaming \<or> sm_caller (ds_streams p) = CallerOutput"
    using assms(1,2) unfolding start_returned_def dock_inv_def by auto
  ultimately show ?thesis using assms(2,3) unfolding dock_inv_def by simp
qed

lemma stream_event_quiet: "\<not> event_panics (stream_event m)"
  by (cases m) simp_all

lemma dock_step_safe:
  assumes "dock_step x lib Term isPty p l p'" and "dock_inv x lib cid p" and "needs_init (dock_event l) \<longrightarrow> ds_inited p"
  shows "dock_inv x lib cid p' \<and> \<not> event_panics (dock_event l)"
proof (cases l)
  case (DockMethod c q)
  with assms(1) have "dock_method_next x lib Term isPty c q p = Some p'" by (simp add: dock_step_def)
  from dock_method_inv [OF this assms(2)] DockMethod show ?thesis by simp
next
  case DockStarts
  with assms(1,3) have "dock_start_next x Term isPty p = Some p'" "ds_inited p"
    by (simp_all add: dock_step_def needs_init_def)
  from dock_start_inv [OF this(1) assms(2) this(2)] DockStarts show ?thesis by simp
next
  case (DockStartReturns q)
  with assms(1,3) have "start_returned q p" "p' = p\<lparr>ds_start := DockStarted\<rparr>" "ds_inited p"
    by (simp_all add: dock_step_def needs_init_def split: if_splits)
  with dock_returned_inv [OF this(1) assms(2) this(3)] DockStartReturns show ?thesis by simp
next
  case (DockStreams m)
  with assms(1) obtain st where st: "stream_step isPty (ds_streams p) m st" "stream_label_ok m p" "p' = p\<lparr>ds_streams := st\<rparr>"
    by (auto simp: dock_step_def split: if_splits dest: stream_next_step)
  with DockStreams dock_stream_inv [OF st(1,2) assms(2)] show ?thesis by (simp add: stream_event_quiet)
next
  case DockStreamPanics
  with assms(1) have "stream_panics p" by (simp add: dock_step_def split: if_splits)
  with dock_no_panic assms(2) show ?thesis by blast
next
  case DockInspects
  with assms(1) have "dock_wait_next x p = Some p'" by (simp add: dock_step_def)
  from dock_wait_inv [OF this assms(2)] DockInspects show ?thesis by simp
next
  case (DockWaitReturns code err)
  with assms(1) have "ds_inspected p = Some (code, err)" "p' = p\<lparr>ds_waited := Some (code, err)\<rparr>"
    by (simp_all add: dock_step_def split: if_splits)
  then have "dock_inv x lib cid p'" using assms(2) unfolding dock_inv_def by simp
  with DockWaitReturns show ?thesis by simp
next
  case (DockCleans b)
  obtain q cep k where c: "cep_cleanup lib (ds_cep p) (ds_os p) = (q, cep, k)" by (metis prod.exhaust)
  with DockCleans assms(1) have "p' = p\<lparr>ds_cep := cep, ds_os := k\<rparr>" by (simp add: dock_step_def split: if_splits)
  with DockCleans dock_cleanup_inv [OF c assms(2)] show ?thesis by simp
next
  case DockCleanPanics
  obtain q cep k where c: "cep_cleanup lib (ds_cep p) (ds_os p) = (q, cep, k)" by (metis prod.exhaust)
  with DockCleanPanics assms(1) have "is_panic q" by (simp add: dock_step_def split: if_splits)
  with dock_cleanup_inv [OF c assms(2)] show ?thesis by simp
qed

lemma dock_step_streams:
  assumes "dock_step x lib Term isPty p l p'" and "\<nexists>m. l = DockStreams m"
  shows "ds_streams p' = ds_streams p"
  using assms by (cases l) (auto simp: dock_step_def dock_method_next_def dock_start_next_def dock_wait_next_def
      split: if_splits prod.splits caller_pc.splits)

lemma dock_step_fields:
  assumes "dock_step x lib Term isPty p l p'"
  shows "ds_inited p' \<longleftrightarrow> ds_inited p \<or> (\<exists>r. dock_event l = Returns CallInit r)"
    and "ds_waited p' = waited_after (dock_event l) (ds_waited p)"
proof -
  have s: "\<not> (\<exists>r. stream_event m = Returns CallInit r)" "waited_after (stream_event m) w = w" for m w
    by (cases m; simp add: waited_after_def)+
  show "ds_inited p' \<longleftrightarrow> ds_inited p \<or> (\<exists>r. dock_event l = Returns CallInit r)"
    "ds_waited p' = waited_after (dock_event l) (ds_waited p)"
    using assms s by (cases l; auto simp: dock_step_def dock_method_next_def dock_start_next_def dock_wait_next_def waited_after_def
      split: if_splits prod.splits caller_pc.splits)+
qed

lemma dock_det:
  assumes "dock_step x lib Term isPty p l p'" and "dock_inv x lib cid p"
  shows "case event_det (dock_event l) of
      None \<Rightarrow> stream_live (ds_streams p') = stream_live (ds_streams p)
    | Some y \<Rightarrow> \<not> session_name (det_name y) \<and> spec_op y (stream_live (ds_streams p)) = Some (stream_live (ds_streams p'))"
proof (cases "\<exists>m. l = DockStreams m")
  case True
  then obtain m where m: "l = DockStreams m" by blast
  with assms(1) obtain st where st: "stream_step isPty (ds_streams p) m st" "stream_label_ok m p" "p' = p\<lparr>ds_streams := st\<rparr>"
    by (auto simp: dock_step_def split: if_splits dest: stream_next_step)
  have "stream_started (ds_streams p)" using assms(2) by (simp add: dock_inv_def stream_inv_def)
  moreover have "\<nexists>y. m = SessionDet y" using st(2) by auto
  ultimately show ?thesis using stream_live_step [OF st(1)] m st(3) by (simp cong: option.case_cong)
next
  case False
  with dock_step_streams [OF assms(1)] show ?thesis by (cases l) auto
qed

interpretation dock_proc: session_process "dock_step x lib Term isPty" dock_event "dock_inv x lib cid" ds_inited
    "\<lambda>p. stream_live (ds_streams p)" ds_waited for x lib Term isPty cid
proof
  fix p :: "'a dock_sys"
  assume "dock_inv x lib cid p" "\<not> ds_inited p"
  then have "sm_caller (ds_streams p) = CallerOutput" "stream_started (ds_streams p)"
    by (simp_all add: dock_inv_def stream_inv_def)
  then show "stream_live (ds_streams p) = {}" by (simp add: stream_live_def stream_started_def)
qed (rule dock_step_safe dock_step_fields dock_det; assumption)+

lemma dock_fresh:
  fixes cid :: string and command :: "string list" and os :: "'m os"
  assumes "attach_ok x" and "open_safe lib"
  defines "p \<equiv> dock_init (new_container_exec_process cid command) os"
  shows "dock_inv x lib cid p" and "\<not> ds_inited p" and "ds_waited p = None"
proof -
  have "stream_inv (stream_init new_detector)" by (rule stream_inv_init) simp_all
  moreover have "sm_caller (stream_init new_detector) = CallerOutput" by (simp add: stream_init_def)
  ultimately show "dock_inv x lib cid p" "\<not> ds_inited p" "ds_waited p = None"
    using assms(1,2) by (simp_all add: p_def dock_inv_def dock_init_def new_container_exec_process_def conn_ok_def)
qed

text \<open>The context's error comes from the session's context.\<close>

lemma stream_ctx_source:
  "stream_step isPty s l s' \<Longrightarrow> sm_ctx s' \<noteq> None \<Longrightarrow> sm_ctx s \<noteq> None \<or> stream_event l = CtxSeen"
  by (erule stream_stepE) (auto simp: close_input_done_def split: if_splits)

lemma dock_ctx_source:
  assumes "dock_step x lib Term isPty p l p'" and "sm_ctx (ds_streams p') \<noteq> None"
  shows "sm_ctx (ds_streams p) \<noteq> None \<or> dock_event l = CtxSeen"
proof (cases "\<exists>m. l = DockStreams m")
  case True
  then obtain m where m: "l = DockStreams m" by blast
  with assms(1) obtain st where "stream_step isPty (ds_streams p) m st" "p' = p\<lparr>ds_streams := st\<rparr>"
    by (auto simp: dock_step_def split: if_splits dest: stream_next_step)
  with stream_ctx_source [of isPty "ds_streams p" m st] assms(2) m show ?thesis by simp
next
  case False
  with dock_step_streams [OF assms(1)] assms(2) show ?thesis by simp
qed

lemma dock_ctx:
  assumes "run_path (joint_step env (dock_step x lib Term isPty) dock_event) (s0, dock_init cep k) ks (s, p)"
    and "sm_ctx (ds_streams p) \<noteq> None"
  shows "s_ctx s"
proof -
  have "sm_ctx (ds_streams (dock_init cep k)) = None" by (simp add: dock_init_def stream_init_def)
  with joint_ctx_seen [OF assms(1), of "\<lambda>p. sm_ctx (ds_streams p) \<noteq> None"] dock_ctx_source assms(2)
  show ?thesis by fastforce
qed

section \<open>Properties\<close>

text \<open>A schedule for the examples: the output ends, and the daemon reports the status 7.\<close>

definition dock_schedule :: "dock_label joint_label list" where
  "dock_schedule =
     OfSession RunCall #
     map OfProcess
       ([DockMethod CallInit (Ok ()), DockMethod CallStdout (Ok ()), DockMethod CallStderr (Ok ()), DockMethod CallStdin (Ok ()),
         DockStarts, DockStreams StartOutput, DockStreams StartInput, DockStartReturns (Ok ()), DockStreams WaitCalled,
         DockStreams (OutputCopied None), DockStreams OutputSent, DockStreams GotOutput, DockStreams OutputEnds,
         DockStreams WaitEnds, DockInspects, DockWaitReturns 7 None]) @
     map OfSession (replicate 6 (MainFin [])) @ [OfProcess (DockCleans True)]"

definition toy_dock :: "nat dock_sys" where
  "toy_dock = dock_init (new_container_exec_process ''c1'' [''sh'']) toy_os"

lemma dock_exec:
  "map_option (\<lambda>(s, p). (s_exits s, s_ctx s, s_waited s, stream_live (ds_streams p)))
     (joint_exec toy_env (dock_next toy_docker_exec toy_tty ''xterm'' False) dock_event dock_schedule (new_session [], toy_dock)) =
   Some ([7], False, Some (7, None), {''dockerexec: input''})"
  by code_simp

lemma dock_exec_run:
  "joint_exec env (dock_next x lib Term isPty) ev ks a = Some b \<Longrightarrow> run_path (joint_step env (dock_step x lib Term isPty) ev) a ks b"
  by (rule joint_exec_run) (simp_all add: dock_step_def)

text \<open>The result of the copy can be sent as soon as there is one.\<close>

lemma dock_sends:
  assumes "stream_inv (ds_streams p)" and "s_crash s = None"
  shows "(\<exists>err. sm_out (ds_streams p) = OutSending err) \<longleftrightarrow>
    (\<exists>y. joint_step env (dock_step x lib Term isPty) dock_event (s, p) (OfProcess (DockStreams OutputSent)) y)"
proof
  assume "\<exists>err. sm_out (ds_streams p) = OutSending err"
  then obtain err where out: "sm_out (ds_streams p) = OutSending err" by blast
  with assms(1) have "sm_output_chan (ds_streams p) = []" "\<not> sm_panic (ds_streams p)"
    by (simp_all add: stream_inv_def stream_chan_ok_def)
  with out have "\<exists>p'. dock_step x lib Term isPty p (DockStreams OutputSent) p'"
    by (simp add: dock_step_def output_cap_def)
  then obtain p' where "dock_step x lib Term isPty p (DockStreams OutputSent) p'" by blast
  then have "joint_step env (dock_step x lib Term isPty) dock_event (s, p) (OfProcess (DockStreams OutputSent)) (s, p')"
    using assms(2) by (intro joint_quiet) (simp_all add: caller_ready_def)
  then show "\<exists>y. joint_step env (dock_step x lib Term isPty) dock_event (s, p) (OfProcess (DockStreams OutputSent)) y" by blast
next
  assume "\<exists>y. joint_step env (dock_step x lib Term isPty) dock_event (s, p) (OfProcess (DockStreams OutputSent)) y"
  then obtain p' where "dock_step x lib Term isPty p (DockStreams OutputSent) p'"
    by (auto elim: joint_step.cases)
  then show "\<exists>err. sm_out (ds_streams p) = OutSending err"
    by (auto simp: dock_step_def split: if_splits out_pc.splits)
qed


lemma toy_docker_ok: "attach_ok toy_docker_exec" "open_safe toy_tty"
  by (simp_all add: attach_ok_def toy_docker_exec_def open_safe_def toy_tty_def os_Pipe_def)

lemma toy_dock_run:
  obtains s p where "run_path (joint_step toy_env (dock_step toy_docker_exec toy_tty ''xterm'' False) dock_event)
      (new_session [], dock_init (new_container_exec_process ''c1'' [''sh'']) toy_os) dock_schedule (s, p)"
    and "s_exits s = [7]" "stream_live (ds_streams p) = {''dockerexec: input''}" "s_ctx s = False" "s_waited s = Some (7, None)"
    and "joint_exec toy_env (dock_next toy_docker_exec toy_tty ''xterm'' False) dock_event dock_schedule (new_session [], toy_dock) =
      Some (s, p)"
proof -
  from dock_exec obtain s p where run: "joint_exec toy_env (dock_next toy_docker_exec toy_tty ''xterm'' False) dock_event
      dock_schedule (new_session [], toy_dock) = Some (s, p)" and "s_exits s = [7]" "s_ctx s = False"
      "s_waited s = Some (7, None)" "stream_live (ds_streams p) = {''dockerexec: input''}"
    by auto
  with dock_exec_run [OF run] show thesis using that by (simp add: toy_dock_def)
qed




end
