(* ===== verification/DockerDrain.thy ===== *)
theory DockerDrain
  imports DockerSession Drain
begin

text \<open>
  A session in a container drains: the contract of theory \<open>Drain\<close> holds for the methods and the
  goroutines of \<open>config/dockerexec/exec.go\<close>.  \<open>Wait\<close> returns when the context is done, and the
  copies of the streams end, as \<open>Cleanup\<close> closes the connection and the pipes.
\<close>

section \<open>Where the methods stand\<close>

definition dock_started :: "'m dock_sys \<Rightarrow> bool" where
  "dock_started p \<longleftrightarrow> ds_start p = DockStarted \<and> sm_caller (ds_streams p) \<notin> {CallerOutput, CallerInput}"

fun caller_inside :: "caller_pc \<Rightarrow> bool" where
  "caller_inside CallerSelect = True" | "caller_inside CallerSelectOutput = True" | "caller_inside (CallerLeaving err) = True"
| "caller_inside pc = False"

definition dock_inside :: "'m dock_sys \<Rightarrow> bool" where
  "dock_inside p \<longleftrightarrow> caller_inside (sm_caller (ds_streams p))"

definition dock_answered :: "'m dock_sys \<Rightarrow> proc_call \<Rightarrow> bool" where
  "dock_answered p c \<longleftrightarrow> c = CallStart \<and> ds_start p = DockStarted"

fun caller_left :: "caller_pc \<Rightarrow> nat" where
  "caller_left CallerOutput = 6" | "caller_left CallerInput = 5" | "caller_left CallerStarted = 4" | "caller_left CallerSelect = 3"
| "caller_left CallerSelectOutput = 2" | "caller_left (CallerLeaving err) = 1" | "caller_left (CallerReturned err) = 0"

fun out_left :: "out_pc \<Rightarrow> nat" where
  "out_left OutIdle = 4" | "out_left OutCopying = 3" | "out_left (OutSending err) = 2" | "out_left OutLeaving = 1" | "out_left OutGone = 0"

fun in_left :: "in_pc \<Rightarrow> nat" where
  "in_left InIdle = 4" | "in_left InCopying = 3" | "in_left InClosing = 2" | "in_left InLeaving = 1" | "in_left InGone = 0"

definition stream_left :: "stream_sys \<Rightarrow> nat" where
  "stream_left st = caller_left (sm_caller st) + out_left (sm_out st) + in_left (sm_in st) + (if sm_ctx st = None then 1 else 0)"

definition dock_left :: "'m dock_sys \<Rightarrow> nat" where
  "dock_left p = (if ds_start p = DockIdle then 1 else 0) + stream_left (ds_streams p) + (if ds_inspected p = None then 1 else 0)"

text \<open>\<open>Start\<close> returns without an error only after it has started both goroutines.\<close>

definition dock_dinv :: "'m dock_sys \<Rightarrow> bool" where
  "dock_dinv p \<longleftrightarrow> ds_start p \<noteq> DockLeaving (Ok ()) \<and>
     (ds_start p = DockStreaming \<longrightarrow> sm_caller (ds_streams p) \<in> {CallerOutput, CallerInput, CallerStarted})"

lemma stream_left_step:
  "stream_step isPty s l s' \<Longrightarrow> stream_started s \<Longrightarrow> \<nexists>y. l = SessionDet y \<Longrightarrow> stream_left s' < stream_left s"
  by (erule stream_stepE) (auto simp: stream_left_def stream_started_def close_input_done_def)

lemma stream_caller_cases:
  "stream_step isPty s l s' \<Longrightarrow>
     (case l of
        StartOutput \<Rightarrow> sm_caller s = CallerOutput \<and> sm_caller s' = CallerInput
      | StartInput \<Rightarrow> sm_caller s = CallerInput \<and> sm_caller s' = CallerStarted
      | WaitCalled \<Rightarrow> sm_caller s = CallerStarted \<and> sm_caller s' = CallerSelect
      | _ \<Rightarrow> sm_caller s' = sm_caller s \<or> (caller_inside (sm_caller s) \<and> sm_caller s' \<notin> {CallerOutput, CallerInput, CallerStarted}))"
  by (erule stream_stepE) (auto simp: close_input_done_def)

lemma dock_streams_step:
  assumes "dock_step x lib Term isPty p (DockStreams m) p'"
  obtains st where "stream_step isPty (ds_streams p) m st" "stream_label_ok m p" "p' = p\<lparr>ds_streams := st\<rparr>"
  using assms by (auto simp: dock_step_def split: if_splits dest: stream_next_step)

lemma dock_other_step:
  assumes "dock_step x lib Term isPty p l p'" and "\<nexists>m. l = DockStreams m"
  shows "ds_start p' = ds_start p \<or> l = DockStarts \<or> (\<exists>q. l = DockStartReturns q)"
  using assms by (cases l) (auto simp: dock_step_def dock_method_next_def dock_wait_next_def
      split: if_splits prod.splits caller_pc.splits)

lemma stream_event_facts [simp]: "returned_call (stream_event m) = None" "stream_event m \<noteq> Returns c r"
  by (cases m; simp)+

lemma dock_dinv_step:
  assumes step: "dock_step x lib Term isPty p l p'" and inv: "dock_inv x lib cid p" and dinv: "dock_dinv p"
  shows "dock_dinv p'"
proof (cases "\<exists>m. l = DockStreams m")
  case True
  then obtain m where m: "l = DockStreams m" by blast
  with step obtain st where "stream_step isPty (ds_streams p) m st" "stream_label_ok m p" "p' = p\<lparr>ds_streams := st\<rparr>"
    by (auto elim: dock_streams_step)
  with stream_caller_cases [of isPty "ds_streams p" m st] dinv show ?thesis
    by (cases m) (auto simp: dock_dinv_def)
next
  case False
  note same = dock_step_streams [OF step False]
  from dock_other_step [OF step False] show ?thesis
  proof (elim disjE exE)
    assume "ds_start p' = ds_start p"
    with same dinv show ?thesis by (simp add: dock_dinv_def)
  next
    assume "l = DockStarts"
    with step inv have "ds_start p = DockIdle" "sm_caller (ds_streams p) = CallerOutput"
      "ds_start p' \<noteq> DockLeaving (Ok ())"
      by (auto simp: dock_step_def dock_start_next_def dock_inv_def go_bind_Ok_iff is_ok_iff split: if_splits prod.splits)
    with same show ?thesis by (simp add: dock_dinv_def)
  next
    fix q
    assume "l = DockStartReturns q"
    with step have "ds_start p' = DockStarted" by (auto simp: dock_step_def split: if_splits)
    then show ?thesis by (simp add: dock_dinv_def)
  qed
qed

text \<open>What every action does to the places of the methods.\<close>

lemma dock_places_step:
  assumes step: "dock_step x lib Term isPty p l p'" and inv: "dock_inv x lib cid p" and dinv: "dock_dinv p"
  shows "(dock_answered p' c \<longrightarrow> dock_answered p c \<or> returned_call (dock_event l) = Some c) \<and>
    (dock_started p \<or> dock_event l = Returns CallStart (Ok ()) \<longrightarrow> dock_started p') \<and>
    (dock_inside p' \<longrightarrow> (dock_inside p \<or> event_call (dock_event l) = Some CallWait) \<and>
      returned_call (dock_event l) \<noteq> Some CallWait)"
proof (cases "\<exists>m. l = DockStreams m")
  case True
  then obtain m where m: "l = DockStreams m" by blast
  with step obtain st where "stream_step isPty (ds_streams p) m st" "stream_label_ok m p" "p' = p\<lparr>ds_streams := st\<rparr>"
    by (auto elim: dock_streams_step)
  with m stream_caller_cases [of isPty "ds_streams p" m st] show ?thesis
    by (cases m) (auto simp: dock_answered_def dock_started_def dock_inside_def)
next
  case False
  note same = dock_step_streams [OF step False]
  have "returned_call (dock_event l) = Some CallWait \<Longrightarrow> \<not> dock_inside p"
    using step inv False by (cases l)
      (auto simp: dock_step_def dock_inv_def dock_result_def dock_inside_def dock_method_next_def split: if_splits caller_pc.splits)
  moreover from dock_other_step [OF step False] have
    "(dock_answered p' c \<longrightarrow> dock_answered p c \<or> returned_call (dock_event l) = Some c) \<and>
     (dock_started p \<or> dock_event l = Returns CallStart (Ok ()) \<longrightarrow> dock_started p')"
  proof (elim disjE exE)
    assume s: "ds_start p' = ds_start p"
    have "dock_event l = Returns CallStart (Ok ()) \<Longrightarrow> ds_start p' \<noteq> ds_start p"
      using step False dinv by (cases l)
        (auto simp: dock_step_def dock_method_next_def start_returned_def split: if_splits)
    with s same show ?thesis by (auto simp: dock_answered_def dock_started_def)
  next
    assume "l = DockStarts"
    with step have "ds_start p = DockIdle" "ds_start p' \<noteq> DockStarted"
      by (auto simp: dock_step_def dock_start_next_def split: if_splits prod.splits)
    with \<open>l = DockStarts\<close> show ?thesis by (simp add: dock_answered_def dock_started_def)
  next
    fix q
    assume l: "l = DockStartReturns q"
    with step dinv have "ds_start p' = DockStarted" "start_returned q p" "ds_start p \<noteq> DockStarted"
      by (auto simp: dock_step_def start_returned_def split: if_splits)
    with l same dinv show ?thesis
      by (auto simp: dock_answered_def dock_started_def start_returned_def dock_dinv_def)
  qed
  ultimately show ?thesis using same by (auto simp: dock_inside_def)
qed

section \<open>Who goes on\<close>

text \<open>A step of the streams, as one of the process.\<close>

lemma dock_stream_moves:
  assumes "stream_next isPty m (ds_streams p) = Some st" and "stream_label_ok m p" and "dock_inv x lib cid p"
  shows "\<exists>p'. dock_step x lib Term isPty p (DockStreams m) p'"
  using assms by (simp add: dock_step_def dock_inv_def stream_inv_def)

lemma dock_left_step:
  assumes step: "dock_step x lib Term isPty p l p'" and inv: "dock_inv x lib cid p" and "\<not> event_panics (dock_event l)"
  shows "dock_left p' + (if returned_call (dock_event l) = None then 1 else 0) \<le> dock_left p"
proof (cases "\<exists>m. l = DockStreams m")
  case True
  then obtain m where m: "l = DockStreams m" by blast
  with step obtain st where st: "stream_step isPty (ds_streams p) m st" "stream_label_ok m p" "p' = p\<lparr>ds_streams := st\<rparr>"
    by (auto elim: dock_streams_step)
  have "\<nexists>y. m = SessionDet y" "stream_started (ds_streams p)" using st(2) inv by (auto simp: dock_inv_def stream_inv_def)
  with stream_left_step [OF st(1)] m st(3) show ?thesis by (simp add: dock_left_def)
next
  case False
  with step assms(3) show ?thesis
    by (cases l) (auto simp: dock_step_def dock_method_next_def dock_start_next_def dock_wait_next_def dock_left_def
      start_returned_def split: if_splits prod.splits caller_pc.splits)
qed

lemma dock_left_bound: "dock_left p \<le> 17"
proof -
  have "caller_left (sm_caller (ds_streams p)) \<le> 6" by (cases "sm_caller (ds_streams p)") simp_all
  moreover have "out_left (sm_out (ds_streams p)) \<le> 4" by (cases "sm_out (ds_streams p)") simp_all
  moreover have "in_left (sm_in (ds_streams p)) \<le> 4" by (cases "sm_in (ds_streams p)") simp_all
  ultimately show ?thesis by (simp add: dock_left_def stream_left_def)
qed

lemma dock_goroutines_go_on:
  assumes inv: "dock_inv x lib cid p" and "sm_out (ds_streams p) \<notin> {OutIdle, OutGone} \<or> sm_in (ds_streams p) \<notin> {InIdle, InGone}"
  shows "\<exists>l p'. dock_step x lib Term isPty p l p' \<and> event_call (dock_event l) = None"
proof -
  have chan: "\<exists>err. sm_out (ds_streams p) = OutSending err \<Longrightarrow> sm_output_chan (ds_streams p) = []"
    using inv by (auto simp: dock_inv_def stream_inv_def stream_chan_ok_def)
  define m where "m = (case sm_out (ds_streams p) of
      OutCopying \<Rightarrow> OutputCopied None | OutSending err \<Rightarrow> OutputSent | OutLeaving \<Rightarrow> OutputEnds
    | _ \<Rightarrow> (case sm_in (ds_streams p) of InCopying \<Rightarrow> InputCopied | InClosing \<Rightarrow> InputClosed | _ \<Rightarrow> InputEnds))"
  have "stream_next isPty m (ds_streams p) \<noteq> None" "stream_label_ok m p" "event_call (stream_event m) = None"
    using assms(2) chan by (auto simp: m_def output_cap_def split: out_pc.splits in_pc.splits)
  then obtain st where "stream_next isPty m (ds_streams p) = Some st" "stream_label_ok m p" "event_call (dock_event (DockStreams m)) = None"
    by auto
  with dock_stream_moves [OF this(1,2) inv] show ?thesis by blast
qed

lemma dock_wait_goes_on:
  assumes inv: "dock_inv x lib cid p" and "dock_started p" and "ds_waited p = None"
  shows "\<exists>l p'. dock_step x lib Term isPty p l p' \<and> event_call (dock_event l) \<in> {None, Some CallWait}"
proof (cases "\<exists>err. sm_caller (ds_streams p) = CallerReturned err")
  case True
  then obtain err where err: "sm_caller (ds_streams p) = CallerReturned err" by blast
  show ?thesis
  proof (cases "ds_inspected p")
    case None
    obtain r cep where "cep_wait x err (ds_cep p) = (r, cep)" by (metis prod.exhaust)
    with err None show ?thesis
      by (intro exI [of _ DockInspects]) (simp add: dock_step_def dock_wait_next_def)
  next
    case (Some r)
    with assms(3) show ?thesis
      by (intro exI [of _ "DockWaitReturns (fst r) (snd r)"]) (simp add: dock_step_def)
  qed
next
  case False
  define m where "m = (case sm_caller (ds_streams p) of
      CallerStarted \<Rightarrow> WaitCalled | CallerLeaving err \<Rightarrow> WaitEnds
    | _ \<Rightarrow> (case sm_ctx (ds_streams p) of None \<Rightarrow> StreamCtxDone EOF | Some e \<Rightarrow> GotCtx))"
  have "stream_next isPty m (ds_streams p) \<noteq> None" "stream_label_ok m p" "event_call (stream_event m) \<in> {None, Some CallWait}"
    using assms(2) False by (auto simp: m_def dock_started_def split: caller_pc.splits option.splits)
  then obtain st where "stream_next isPty m (ds_streams p) = Some st" "stream_label_ok m p"
      "event_call (dock_event (DockStreams m)) \<in> {None, Some CallWait}"
    by auto
  with dock_stream_moves [OF this(1,2) inv] show ?thesis by blast
qed

lemma dock_start_goes_on:
  assumes inv: "dock_inv x lib cid p" and dinv: "dock_dinv p" and "ds_start p \<noteq> DockStarted"
  shows "\<exists>l p'. dock_step x lib Term isPty p l p' \<and> event_call (dock_event l) = Some CallStart"
proof (cases "ds_start p")
  case DockIdle
  obtain q cep where "cep_start x Term isPty (ds_cep p) = (q, cep)" by (metis prod.exhaust)
  with DockIdle show ?thesis
    by (intro exI [of _ DockStarts]) (simp add: dock_step_def dock_start_next_def)
next
  case DockStreaming
  show ?thesis
  proof (cases "sm_caller (ds_streams p) = CallerStarted")
    case True
    with DockStreaming show ?thesis
      by (intro exI [of _ "DockStartReturns (Ok ())"]) (simp add: dock_step_def start_returned_def)
  next
    case False
    with DockStreaming dinv have c: "sm_caller (ds_streams p) \<in> {CallerOutput, CallerInput}" by (auto simp: dock_dinv_def)
    define m where "m = (if sm_caller (ds_streams p) = CallerOutput then StartOutput else StartInput)"
    have "stream_next isPty m (ds_streams p) \<noteq> None" "stream_label_ok m p" "event_call (stream_event m) = Some CallStart"
      using c DockStreaming by (auto simp: m_def)
    then obtain st where "stream_next isPty m (ds_streams p) = Some st" "stream_label_ok m p"
        "event_call (dock_event (DockStreams m)) = Some CallStart"
      by auto
    with dock_stream_moves [OF this(1,2) inv] show ?thesis by blast
  qed
next
  case (DockLeaving q)
  then show ?thesis by (intro exI [of _ "DockStartReturns q"]) (simp add: dock_step_def start_returned_def)
qed (use assms in simp)

lemma cep_cleanup_no_err: "fst (cep_cleanup lib cep k) \<noteq> Err e"
  by (auto simp: cep_cleanup_def Let_def split: prod.splits option.splits go.splits)

lemma dock_call_goes_on:
  assumes inv: "dock_inv x lib cid p" and "dock_dinv p" and "c \<noteq> CallWait" and "\<not> dock_answered p c" and "ds_inited p \<longleftrightarrow> c \<noteq> CallInit"
  shows "\<exists>l p'. dock_step x lib Term isPty p l p' \<and> event_call (dock_event l) = Some c"
proof (cases c)
  case CallStart
  with dock_start_goes_on [OF inv assms(2)] assms(4) show ?thesis by (simp add: dock_answered_def)
next
  case CallCleanup
  obtain q cep k where q: "cep_cleanup lib (ds_cep p) (ds_os p) = (q, cep, k)" by (metis prod.exhaust)
  with dock_cleanup_inv [OF q inv] cep_cleanup_no_err [of lib "ds_cep p" "ds_os p"] obtain b where "q = Ok b" by (cases q) auto
  with q CallCleanup show ?thesis by (intro exI [of _ "DockCleans b"]) (simp add: dock_step_def)
next
  case CallWait
  with assms(3) show ?thesis by simp
qed (use assms(5) in \<open>auto simp: dock_step_def dock_method_next_def split: prod.splits
    intro: exI [of _ "DockMethod c (fst (cep_call x lib Term isPty None c (ds_cep p, ds_os p)))"]\<close>)

interpretation dock_drain: draining_process "dock_step x lib Term isPty" dock_event "dock_inv x lib cid" ds_inited
    "\<lambda>p. stream_live (ds_streams p)" ds_waited dock_dinv dock_started "\<lambda>p. False" "\<lambda>p. True" dock_inside dock_answered
    "\<lambda>l. False" dock_left
  for x lib Term isPty cid
proof
  fix p l p' c r
  assume step: "dock_step x lib Term isPty p l p'"
  show "dock_event l = Returns c r \<Longrightarrow> c \<noteq> CallWait \<and> c \<noteq> CallCleanup"
    using step by (cases l) (auto simp: dock_step_def dock_method_next_def split: if_splits)
  assume inv: "dock_inv x lib cid p" and dinv: "dock_dinv p"
  show "dock_dinv p'" by (rule dock_dinv_step [OF step inv dinv])
  show "\<not> event_panics (dock_event l) \<Longrightarrow>
      dock_left p' + (if returned_call (dock_event l) = None then 1 else 0) \<le> dock_left p"
    by (rule dock_left_step [OF step inv])
  note place = dock_places_step [OF step inv dinv, of c]
  show "dock_answered p' c \<Longrightarrow> dock_answered p c \<or> returned_call (dock_event l) = Some c" using place by blast
  show "dock_started p \<or> dock_event l = Returns CallStart (Ok ()) \<Longrightarrow> dock_started p'" using place by blast
  show "dock_inside p' \<Longrightarrow> (dock_inside p \<or> event_call (dock_event l) = Some CallWait) \<and>
      returned_call (dock_event l) \<noteq> Some CallWait" using place by blast
next
  fix p c
  assume "dock_inv x lib cid p" "dock_dinv p" "c \<noteq> CallWait" "\<not> dock_answered p c" "ds_inited p \<longleftrightarrow> c \<noteq> CallInit"
  from dock_call_goes_on [OF this] show "\<exists>l p'. dock_step x lib Term isPty p l p' \<and> \<not> False \<and> event_call (dock_event l) = Some c" by simp
next
  fix p
  assume "dock_inv x lib cid p" "dock_started p" "ds_waited p = None"
  from dock_wait_goes_on [OF this] show "\<exists>l p'. dock_step x lib Term isPty p l p' \<and> \<not> False \<and>
      event_call (dock_event l) \<in> {None, Some CallWait}" by simp
next
  fix p
  assume p: "dock_inv x lib cid p" "\<not> dock_inside p" "stream_live (ds_streams p) \<noteq> {}"
  then have "sm_out (ds_streams p) \<notin> {OutIdle, OutGone} \<or> sm_in (ds_streams p) \<notin> {InIdle, InGone}"
    by (auto simp: stream_live_def dock_inside_def split: caller_pc.splits if_splits)
  from dock_goroutines_go_on [OF p(1) this]
  show "\<exists>l p'. dock_step x lib Term isPty p l p' \<and> \<not> False \<and> event_call (dock_event l) = None" by simp
qed simp_all

section \<open>Properties\<close>

lemma dock_drain_ok:
  assumes "attach_ok x" and "open_safe lib"
  shows "dock_drain.drain_ok x lib containerID env
      (new_session lg, dock_init (new_container_exec_process containerID command) k)"
proof (rule dock_drain.drain_ok_new [OF dock_fresh(1) [OF assms] _ dock_fresh(2,3) [OF assms]])
  show "dock_dinv (dock_init (new_container_exec_process containerID command) k)"
    by (simp add: dock_dinv_def) (simp add: dock_init_def)
qed (simp_all add: dock_answered_def dock_inside_def dock_init_def stream_init_def)


text \<open>The client disconnects while both streams are copied, and \<open>Wait\<close> waits for them.\<close>

definition dock_stuck_schedule :: "dock_label joint_label list" where
  "dock_stuck_schedule = take 10 dock_schedule @ [OfSession CtxDone]"

definition dock_drain_schedule :: "dock_label joint_label list" where
  "dock_drain_schedule =
     map OfSession (WatchFires # replicate 6 (WatchFin []) @ [WatchReturns]) @
     map OfProcess [DockCleans False, DockStreams (StreamCtxDone context_Canceled), DockStreams GotCtx, DockStreams WaitEnds,
       DockInspects, DockWaitReturns 0 (Some context_Canceled),
       DockStreams (OutputCopied None), DockStreams OutputSent, DockStreams OutputEnds,
       DockStreams InputCopied, DockStreams InputClosed, DockStreams InputEnds] @
     map OfSession [MainFin [], RunReturns]"

lemma dock_stuck_exec:
  "map_option (\<lambda>(s, p). (s_ctx s, s_main s, stream_live (ds_streams p)))
     (joint_exec toy_env (dock_next toy_docker_exec toy_tty ''xterm'' False) dock_event dock_stuck_schedule (new_session [], toy_dock)) =
   Some (True, MainWait, {''dockerexec: output'', ''dockerexec: input'', ''dockerexec: wait''})"
  "map_option (\<lambda>(s, p). (s_exits s, stream_live (ds_streams p)))
     (joint_exec toy_env (dock_next toy_docker_exec toy_tty ''xterm'' False) dock_event (dock_stuck_schedule @ dock_drain_schedule)
       (new_session [], toy_dock)) =
   Some ([255], {})"
  by code_simp+


end
