(* ===== verification/Delivery.thy ===== *)
theory Delivery
  imports SessionInv Refinement
begin

text \<open>
  What a process without a terminal writes on its way to the client: the pipe that \<open>Stdout\<close>
  returns, the goroutine of \<open>startRegular\<close> (\<open>session.go\<close>) that copies from it, and the session's
  channel.  \<open>Run\<close> exits when \<open>Wait\<close> has returned; it does not wait for that goroutine.

  The parameter \<open>atWait\<close> says who closes the pipe: that of a command of the host
  (\<open>config/osexec\<close>) has its write end in the command, and \<open>cmd.Wait\<close> closes its read end; both
  ends of the pipes of the other two kinds (\<open>internal/term/pipes.go\<close>) are closed by
  \<open>Cleanup\<close>.  How much a pipe can hold is left open.
\<close>

section \<open>State and steps\<close>

datatype copy_end = CopyEof | CopyFailed

text \<open>\<open>dl_hand\<close> is what the goroutine has read and not yet written.\<close>

record delivery =
  dl_session :: session
  dl_running :: bool
  dl_open :: bool
  dl_written :: string
  dl_pipe :: string
  dl_hand :: string
  dl_received :: string
  dl_end :: "copy_end option"

definition delivery_init :: "session \<Rightarrow> delivery" where
  "delivery_init s =
     \<lparr>dl_session = s, dl_running = True, dl_open = True, dl_written = [], dl_pipe = [], dl_hand = [], dl_received = [],
      dl_end = None\<rparr>"

abbreviation stdout_name :: string where
  "stdout_name \<equiv> ''session: stdout''"

definition copying :: "delivery \<Rightarrow> bool" where
  "copying d \<longleftrightarrow> stdout_name \<in> s_copiers (dl_session d) \<and> dl_end d = None"

text \<open>The client can be written to until the session has exited or the connection is lost.\<close>

definition channel_open :: "delivery \<Rightarrow> bool" where
  "channel_open d \<longleftrightarrow> s_exits (dl_session d) = [] \<and> \<not> s_ctx (dl_session d)"

fun closes_pipe :: "bool \<Rightarrow> session_label \<Rightarrow> bool" where
  "closes_pipe atWait (WaitReturns code err) = atWait"
| "closes_pipe atWait (CleanupReturns b) = (\<not> atWait)"
| "closes_pipe atWait l = False"

datatype delivery_label =
    DlSession session_label | DlWrites string | DlProcessEnds | DlReads nat | DlDelivers | DlEof | DlFails

text \<open>\<open>Wait\<close> returns after the process has ended, or the connection is lost.\<close>

definition session_may :: "delivery \<Rightarrow> session_label \<Rightarrow> bool" where
  "session_may d l \<longleftrightarrow>
     (case l of
        CopierReturns name \<Rightarrow> name = stdout_name \<longrightarrow> dl_end d \<noteq> None
      | WaitReturns code err \<Rightarrow> \<not> dl_running d \<or> s_ctx (dl_session d)
      | _ \<Rightarrow> True)"

definition process_started :: "delivery \<Rightarrow> bool" where
  "process_started d \<longleftrightarrow> CallStart \<in> set (s_calls (dl_session d)) \<and> s_crash (dl_session d) = None"

fun delivery_next :: "bool \<Rightarrow> session_env \<Rightarrow> delivery_label \<Rightarrow> delivery \<Rightarrow> delivery option" where
  "delivery_next atWait env (DlSession l) d =
     (if session_may d l \<and> s_crash (dl_session d) = None
      then map_option (\<lambda>s. d\<lparr>dl_session := s, dl_open := dl_open d \<and> \<not> closes_pipe atWait l\<rparr>) (session_next env l (dl_session d))
      else None)"
| "delivery_next atWait env (DlWrites out) d =
     (if process_started d \<and> dl_running d \<and> dl_open d
      then Some (d\<lparr>dl_written := dl_written d @ out, dl_pipe := dl_pipe d @ out\<rparr>) else None)"
| "delivery_next atWait env DlProcessEnds d =
     (if process_started d \<and> dl_running d then Some (d\<lparr>dl_running := False\<rparr>) else None)"
| "delivery_next atWait env (DlReads n) d =
     (if copying d \<and> dl_hand d = [] \<and> dl_open d \<and> 0 < n \<and> n \<le> length (dl_pipe d)
      then Some (d\<lparr>dl_hand := take n (dl_pipe d), dl_pipe := drop n (dl_pipe d)\<rparr>) else None)"
| "delivery_next atWait env DlDelivers d =
     (if copying d \<and> dl_hand d \<noteq> [] \<and> channel_open d
      then Some (d\<lparr>dl_received := dl_received d @ dl_hand d, dl_hand := []\<rparr>) else None)"
| "delivery_next atWait env DlEof d =
     (if copying d \<and> dl_hand d = [] \<and> dl_pipe d = [] \<and> dl_open d \<and> atWait \<and> \<not> dl_running d
      then Some (d\<lparr>dl_end := Some CopyEof\<rparr>) else None)"
| "delivery_next atWait env DlFails d =
     (if copying d \<and> (\<not> dl_open d \<or> s_ctx (dl_session d) \<or> (dl_hand d \<noteq> [] \<and> s_exits (dl_session d) \<noteq> []))
      then Some (d\<lparr>dl_end := Some CopyFailed\<rparr>) else None)"

definition delivery_step :: "bool \<Rightarrow> session_env \<Rightarrow> delivery \<Rightarrow> delivery_label \<Rightarrow> delivery \<Rightarrow> bool" where
  "delivery_step atWait env d l d' \<longleftrightarrow> delivery_next atWait env l d = Some d'"

fun delivery_seen :: "delivery_label \<Rightarrow> session_label option" where
  "delivery_seen (DlSession l) = Some l"
| "delivery_seen l = None"

section \<open>Invariants\<close>

text \<open>What a session has done stays done.\<close>

lemma session_grows:
  assumes "session_step env s l s'"
  shows "prefix (s_exits s) (s_exits s') \<and> prefix (s_calls s) (s_calls s') \<and> (s_ctx s \<longrightarrow> s_ctx s')"
  using assms
proof (induction rule: session_step.induct)
  case (run_call s)
  then show ?case by (cases "locked (s_started s) = 0") (auto simp: run_called_simps)
next
  case (start_returns s r)
  then show ?case using start_step_frame(1,5) [of s env r]
    by (cases "(env, s_main s, r, s)" rule: start_step.cases; cases r) (auto simp: starting_def session_ops)
next
  case (wait_returns s code err)
  then show ?case by (cases err) (auto simp: session_ops)
next
  case (main_fin s f lines f' s')
  with finalize_step_effect [OF main_fin(4,3)] finalize_step_frame [OF main_fin(4)] show ?case by (simp split: if_splits)
next
  case (watch_fin s f lines f' s')
  with finalize_step_effect [OF watch_fin(4,3)] finalize_step_frame [OF watch_fin(4)] show ?case by (simp split: if_splits)
qed (auto simp: session_ops split: option.splits)

text \<open>
  Nothing is reordered or made up, the end of the input is seen only when all was delivered, and
  the copy fails only when the client is gone, the session has exited, or the pipe was closed.
\<close>

definition pipe_closed_call :: "bool \<Rightarrow> proc_call" where
  "pipe_closed_call atWait = (if atWait then CallWait else CallCleanup)"

definition delivery_inv :: "bool \<Rightarrow> delivery \<Rightarrow> bool" where
  "delivery_inv atWait d \<longleftrightarrow> dl_written d = dl_received d @ dl_hand d @ dl_pipe d \<and>
     (\<not> dl_open d \<longrightarrow> pipe_closed_call atWait \<in> set (s_calls (dl_session d))) \<and>
     (dl_end d = Some CopyEof \<longrightarrow> dl_hand d = [] \<and> dl_pipe d = [] \<and> \<not> dl_running d) \<and>
     (dl_end d = Some CopyFailed \<longrightarrow> s_exits (dl_session d) \<noteq> [] \<or> s_ctx (dl_session d) \<or>
        pipe_closed_call atWait \<in> set (s_calls (dl_session d)))"

lemma closes_pipe_called:
  assumes "session_step env s l s'" and "closes_pipe atWait l"
  shows "pipe_closed_call atWait \<in> set (s_calls s')"
  using assms by (cases l) (auto simp: pipe_closed_call_def session_step_next session_ops split: if_splits option.splits)

lemma delivery_inv_step:
  assumes "delivery_step atWait env d l d'" and "delivery_inv atWait d"
  shows "delivery_inv atWait d'"
proof (cases l)
  case (DlSession m)
  with assms(1) obtain s where s: "session_step env (dl_session d) m s"
      "d' = d\<lparr>dl_session := s, dl_open := dl_open d \<and> \<not> closes_pipe atWait m\<rparr>"
    by (auto simp: delivery_step_def session_step_next split: if_splits)
  have "s_exits (dl_session d) \<noteq> [] \<Longrightarrow> s_exits s \<noteq> []" "s_ctx (dl_session d) \<Longrightarrow> s_ctx s"
      "c \<in> set (s_calls (dl_session d)) \<Longrightarrow> c \<in> set (s_calls s)" for c
    using session_grows [OF s(1)] by (auto simp: prefix_def)
  with assms(2) s(2) closes_pipe_called [OF s(1)] show ?thesis by (auto simp: delivery_inv_def)
qed (use assms in \<open>auto simp: delivery_step_def delivery_inv_def copying_def split: if_splits\<close>)

interpretation deliver: refinement "delivery_step atWait env" "delivery_inv atWait" "session_step env" dl_session delivery_seen
  for atWait env
proof
  fix d l d'
  assume step: "delivery_step atWait env d l d'" and inv: "delivery_inv atWait d"
  then show "delivery_inv atWait d'" by (rule delivery_inv_step)
  from step show "case delivery_seen l of None \<Rightarrow> dl_session d' = dl_session d
      | Some m \<Rightarrow> session_step env (dl_session d) m (dl_session d')"
    by (cases l) (auto simp: delivery_step_def session_step_next split: if_splits)
qed

lemma delivery_inv_init: "delivery_inv atWait (delivery_init s)"
  by (simp add: delivery_inv_def delivery_init_def)

text \<open>After the exit nothing is delivered any more.\<close>

lemma exited_step:
  assumes "delivery_step atWait env d l d'" and "s_exits (dl_session d) \<noteq> []"
  shows "s_exits (dl_session d') \<noteq> [] \<and> dl_received d' = dl_received d"
proof (cases l)
  case (DlSession m)
  with assms(1) obtain s where "session_step env (dl_session d) m s" "dl_session d' = s" "dl_received d' = dl_received d"
    by (auto simp: delivery_step_def session_step_next split: if_splits)
  with session_grows [of env "dl_session d" m s] assms(2) show ?thesis by (auto simp: prefix_def)
qed (use assms in \<open>auto simp: delivery_step_def channel_open_def split: if_splits\<close>)

lemma nothing_after_exit:
  "run_path (delivery_step atWait env) d ls d' \<Longrightarrow> s_exits (dl_session d) \<noteq> [] \<Longrightarrow> dl_received d' = dl_received d"
  by (induction rule: run_path.induct) (auto dest: exited_step)

section \<open>Properties\<close>

text \<open>A run of the session alone is one of the delivery, if the pipe and its goroutine have no part in it.\<close>

fun apart :: "session_label \<Rightarrow> bool" where
  "apart (CopierReturns name) = False" | "apart (WaitReturns code err) = False" | "apart (CleanupReturns b) = False"
| "apart l = True"

lemma apart_run:
  "run_path (session_step env) s ls s' \<Longrightarrow> list_all apart ls \<Longrightarrow> dl_session d = s \<Longrightarrow>
     run_path (delivery_step atWait env) d (map DlSession ls) (d\<lparr>dl_session := s'\<rparr>)"
proof (induction arbitrary: d rule: run_path.induct)
  case (run_cons s l s' ls s'')
  then have l: "session_may d l" "\<not> closes_pipe atWait l" by (cases l; simp add: session_may_def)+
  then have "delivery_step atWait env d (DlSession l) (d\<lparr>dl_session := s'\<rparr>)"
    using run_cons(1,5) by (simp add: delivery_step_def session_step_next)
  moreover have "run_path (delivery_step atWait env) (d\<lparr>dl_session := s'\<rparr>) (map DlSession ls) (d\<lparr>dl_session := s''\<rparr>)"
    using run_cons.IH [of "d\<lparr>dl_session := s'\<rparr>"] run_cons.prems by simp
  ultimately show ?case by (auto intro: run_path.run_cons)
qed simp

definition exit_schedule :: "session_label list" where
  "exit_schedule = replicate 5 (MainFin [])"

lemma lossy_exec:
  "map_option (\<lambda>s. (s_main s, s_crash s, CallStart \<in> set (s_calls s))) (session_exec toy_env start_schedule (new_session [])) =
     Some (MainWait, None, True)"
  "map_option (\<lambda>s. (s_exits s, s_ctx s, stdout_name \<in> s_copiers s))
     (session_exec toy_env (start_schedule @ WaitReturns 0 None # exit_schedule) (new_session [])) = Some ([0], False, True)"
  by code_simp+

lemma session_exec_append:
  "session_exec env (ks @ ls) s = Option.bind (session_exec env ks s) (session_exec env ls)"
  by (induction ks arbitrary: s) (auto split: option.splits)

lemma cleaned_exited: "session_inv env s \<Longrightarrow> CallCleanup \<in> set (s_calls s) \<Longrightarrow> s_exits s \<noteq> []"
  by (auto simp: session_inv_def exit_inv_def Let_def count_list_0_iff split: if_splits)


text \<open>A schedule for the examples: two chunks, delivered before the process ends.\<close>

definition delivery_schedule :: "delivery_label list" where
  "delivery_schedule = map DlSession start_schedule @
     [DlWrites ''abc'', DlReads 2, DlDelivers, DlReads 1, DlDelivers, DlProcessEnds, DlEof, DlSession (CopierReturns stdout_name)]"

lemma delivery_exec:
  "map_option (\<lambda>d. (dl_end d, dl_written d)) (run_next (delivery_next True toy_env) delivery_schedule (delivery_init (new_session []))) =
     Some (Some CopyEof, ''abc'')"
  by code_simp

lemma delivery_run:
  "run_next (delivery_next atWait env) ls d = Some d' \<Longrightarrow> run_path (delivery_step atWait env) d ls d'"
proof -
  have "delivery_step atWait env = (\<lambda>d l d'. delivery_next atWait env l d = Some d')"
    by (intro ext) (simp add: delivery_step_def)
  then show "run_next (delivery_next atWait env) ls d = Some d' \<Longrightarrow> run_path (delivery_step atWait env) d ls d'"
    by (simp add: run_next_path)
qed




end
