(* ===== verification/Resize.thy ===== *)
theory Resize
  imports Term Refinement
begin

text \<open>
  Window sizes of a session with a terminal: \<open>startPty\<close> in \<open>session.go\<close> starts a goroutine that
  forwards the windows that the client asks for from \<open>winCh\<close> to the unbuffered \<open>resizeChan\<close>, and
  \<open>HandleWith\<close> in \<open>internal/term/pair.go\<close> starts one that resizes the terminal by what arrives
  there and calls the effect that it has been given.

  One step is one action of one of them; a value is handed over an unbuffered channel in one step
  of both.  The theorems compare the two goroutines with \<open>handle_with\<close> of theory \<open>Term\<close>, which
  handles a list of events at once.
\<close>

section \<open>State\<close>

text \<open>A window of the library has the width and the height as integers.\<close>

type_synonym ssh_window = "int \<times> int"

definition to_size :: "ssh_window \<Rightarrow> win_size" where
  "to_size win = \<lparr>Width = word_of_int (fst win), Height = word_of_int (snd win)\<rparr>"

datatype fwd_pc = FwdRange | FwdSend win_size | FwdGone

datatype hand_pc = HandIdle | HandRange | HandResize win_size | HandEffect win_size | HandGone

text \<open>
  \<open>rz_winCh\<close> is what \<open>winCh\<close> holds, \<open>rz_effect\<close> is the state that the effect works on.
  \<open>rz_requests\<close> and \<open>rz_done\<close> remember what has been asked for, and what has been handled.
\<close>

record ('m, 'e) resize_sys =
  rz_winCh :: "ssh_window list"
  rz_winCh_closed :: bool
  rz_fwd :: fwd_pc
  rz_chan_closed :: bool
  rz_hand :: hand_pc
  rz_os :: "'m os"
  rz_effect :: 'e
  rz_panic :: bool
  rz_requests :: "ssh_window list"
  rz_done :: "win_size list"

definition resize_init :: "'m os \<Rightarrow> 'e \<Rightarrow> ('m, 'e) resize_sys" where
  "resize_init k x =
     \<lparr>rz_winCh = [], rz_winCh_closed = False, rz_fwd = FwdRange, rz_chan_closed = False, rz_hand = HandIdle,
      rz_os = k, rz_effect = x, rz_panic = False, rz_requests = [], rz_done = []\<rparr>"

section \<open>Steps\<close>

datatype resize_label =
    WindowChanges ssh_window | WindowsClosed | FwdTakes | FwdCloses | HandleStarts | HandsOver | Resizes | Reports | HandEnds

text \<open>The loop over \<open>winCh\<close>, and \<open>close(resizeChan)\<close> after it.\<close>

fun forward_next :: "resize_label \<Rightarrow> ('m, 'e) resize_sys \<Rightarrow> ('m, 'e) resize_sys option" where
  "forward_next FwdTakes s =
     (case (rz_fwd s, rz_winCh s) of
        (FwdRange, win # ws) \<Rightarrow> Some (s\<lparr>rz_fwd := FwdSend (to_size win), rz_winCh := ws\<rparr>)
      | _ \<Rightarrow> None)"
| "forward_next FwdCloses s =
     (if rz_fwd s = FwdRange \<and> rz_winCh s = [] \<and> rz_winCh_closed s
      then (if rz_chan_closed s then Some (s\<lparr>rz_panic := True\<rparr>) else Some (s\<lparr>rz_fwd := FwdGone, rz_chan_closed := True\<rparr>))
      else None)"
| "forward_next HandsOver s =
     (case rz_fwd s of
        FwdSend sz \<Rightarrow> if rz_hand s = HandRange then Some (s\<lparr>rz_fwd := FwdRange, rz_hand := HandResize sz\<rparr>) else None
      | _ \<Rightarrow> None)"
| "forward_next l s = None"

text \<open>The loop over \<open>resizeChan\<close>; the goroutine is started by the process, or never.\<close>

fun handle_next ::
  "'m tty_lib \<Rightarrow> 'm pair \<Rightarrow> (win_size \<Rightarrow> 'e \<Rightarrow> 'e) option \<Rightarrow> resize_label \<Rightarrow> ('m, 'e) resize_sys \<Rightarrow> ('m, 'e) resize_sys option" where
  "handle_next lib p effect HandleStarts s = (if rz_hand s = HandIdle then Some (s\<lparr>rz_hand := HandRange\<rparr>) else None)"
| "handle_next lib p effect Resizes s =
     (case rz_hand s of
        HandResize sz \<Rightarrow>
          (case terminal_resize lib (p_pty p) sz (rz_os s) of
             (Ok u, k) \<Rightarrow>
               (case effect of
                  None \<Rightarrow> Some (s\<lparr>rz_hand := HandRange, rz_os := k, rz_done := rz_done s @ [sz]\<rparr>)
                | Some f \<Rightarrow> Some (s\<lparr>rz_hand := HandEffect sz, rz_os := k\<rparr>))
           | (r, k) \<Rightarrow> Some (s\<lparr>rz_panic := True\<rparr>))
      | _ \<Rightarrow> None)"
| "handle_next lib p effect Reports s =
     (case (rz_hand s, effect) of
        (HandEffect sz, Some f) \<Rightarrow>
          Some (s\<lparr>rz_hand := HandRange, rz_effect := f sz (rz_effect s), rz_done := rz_done s @ [sz]\<rparr>)
      | _ \<Rightarrow> None)"
| "handle_next lib p effect HandEnds s =
     (if rz_hand s = HandRange \<and> rz_chan_closed s then Some (s\<lparr>rz_hand := HandGone\<rparr>) else None)"
| "handle_next lib p effect l s = None"

text \<open>The library sends the windows and closes \<open>winCh\<close>.\<close>

fun client_next :: "resize_label \<Rightarrow> ('m, 'e) resize_sys \<Rightarrow> ('m, 'e) resize_sys option" where
  "client_next (WindowChanges win) s =
     (if rz_winCh_closed s then None
      else Some (s\<lparr>rz_winCh := rz_winCh s @ [win], rz_requests := rz_requests s @ [win]\<rparr>))"
| "client_next WindowsClosed s = (if rz_winCh_closed s then None else Some (s\<lparr>rz_winCh_closed := True\<rparr>))"
| "client_next l s = None"

definition resize_next ::
  "'m tty_lib \<Rightarrow> 'm pair \<Rightarrow> (win_size \<Rightarrow> 'e \<Rightarrow> 'e) option \<Rightarrow> resize_label \<Rightarrow> ('m, 'e) resize_sys \<Rightarrow> ('m, 'e) resize_sys option" where
  "resize_next lib p effect l s =
     (if rz_panic s then None
      else (case client_next l s of
              Some s' \<Rightarrow> Some s'
            | None \<Rightarrow> (case forward_next l s of Some s' \<Rightarrow> Some s' | None \<Rightarrow> handle_next lib p effect l s)))"

definition resize_step ::
  "'m tty_lib \<Rightarrow> 'm pair \<Rightarrow> (win_size \<Rightarrow> 'e \<Rightarrow> 'e) option \<Rightarrow> ('m, 'e) resize_sys \<Rightarrow> resize_label \<Rightarrow> ('m, 'e) resize_sys \<Rightarrow> bool" where
  "resize_step lib p effect s l s' \<longleftrightarrow> resize_next lib p effect l s = Some s'"

lemma resize_step_iff:
  "resize_step lib p effect s l s' \<longleftrightarrow>
     \<not> rz_panic s \<and> Some s' \<in> {client_next l s, forward_next l s, handle_next lib p effect l s}"
  by (cases l) (auto simp: resize_step_def resize_next_def split: option.splits)

section \<open>The invariant\<close>

text \<open>The sizes that are on their way, in the order in which they will be handled.\<close>

definition on_the_way :: "('m, 'e) resize_sys \<Rightarrow> win_size list" where
  "on_the_way s =
     (case rz_hand s of HandResize sz \<Rightarrow> [sz] | HandEffect sz \<Rightarrow> [sz] | _ \<Rightarrow> []) @
     (case rz_fwd s of FwdSend sz \<Rightarrow> [sz] | _ \<Rightarrow> []) @
     map to_size (rz_winCh s)"

definition handled ::
  "'m tty_lib \<Rightarrow> 'm pair \<Rightarrow> (win_size \<Rightarrow> 'e \<Rightarrow> 'e) option \<Rightarrow> 'm os \<times> 'e \<Rightarrow> ('m, 'e) resize_sys \<Rightarrow> bool" where
  "handled lib p effect start s \<longleftrightarrow>
     (case rz_hand s of
        HandEffect sz \<Rightarrow> effect \<noteq> None \<and>
          (\<exists>k. handle_with lib p (Some (rz_done s)) effect start = (Ok (), k, rz_effect s) \<and>
             terminal_resize lib (p_pty p) sz k = (Ok (), rz_os s))
      | _ \<Rightarrow> handle_with lib p (Some (rz_done s)) effect start = (Ok (), rz_os s, rz_effect s))"

definition resize_inv ::
  "'m tty_lib \<Rightarrow> 'm pair \<Rightarrow> (win_size \<Rightarrow> 'e \<Rightarrow> 'e) option \<Rightarrow> 'm os \<times> 'e \<Rightarrow> ('m, 'e) resize_sys \<Rightarrow> bool" where
  "resize_inv lib p effect start s \<longleftrightarrow> p_pty p \<noteq> None \<and> \<not> rz_panic s \<and> handled lib p effect start s \<and>
     rz_done s @ on_the_way s = map to_size (rz_requests s) \<and>
     (rz_chan_closed s \<longleftrightarrow> rz_fwd s = FwdGone) \<and>
     (rz_fwd s = FwdGone \<longrightarrow> rz_winCh_closed s \<and> rz_winCh s = []) \<and>
     (rz_hand s = HandGone \<longrightarrow> rz_fwd s = FwdGone)"

lemma handle_events_append:
  "handle_events lib p effect (evs @ evs') s =
     (case handle_events lib p effect evs s of
        (Ok u, t) \<Rightarrow> handle_events lib p effect evs' t
      | (r, t) \<Rightarrow> (r, t))"
  by (induction lib p effect evs s rule: handle_events.induct) (auto split: prod.splits go.splits)

lemma terminal_resize_ok: "t \<noteq> None \<Longrightarrow> fst (terminal_resize lib t sz k) = Ok ()"
  by (auto simp: terminal_resize_def)

lemma resize_inv_step:
  assumes "resize_step lib p effect s l s'" and "resize_inv lib p effect start s"
  shows "resize_inv lib p effect start s'"
proof (cases l)
  case (WindowChanges win)
  with assms show ?thesis
    by (auto simp: resize_step_iff resize_inv_def handled_def on_the_way_def split: if_splits hand_pc.splits fwd_pc.splits)
next
  case WindowsClosed
  with assms show ?thesis
    by (auto simp: resize_step_iff resize_inv_def handled_def on_the_way_def cong: hand_pc.case_cong split: if_splits)
next
  case FwdTakes
  with assms show ?thesis
    by (auto simp: resize_step_iff resize_inv_def handled_def on_the_way_def split: fwd_pc.splits list.splits hand_pc.splits)
next
  case FwdCloses
  with assms show ?thesis
    by (auto simp: resize_step_iff resize_inv_def handled_def on_the_way_def cong: hand_pc.case_cong split: if_splits)
next
  case HandleStarts
  with assms show ?thesis
    by (auto simp: resize_step_iff resize_inv_def handled_def on_the_way_def split: if_splits)
next
  case HandsOver
  with assms show ?thesis
    by (auto simp: resize_step_iff resize_inv_def handled_def on_the_way_def split: if_splits fwd_pc.splits)
next
  case Resizes
  with assms(1) obtain sz where h: "rz_hand s = HandResize sz"
    by (auto simp: resize_step_iff split: hand_pc.splits)
  from assms(2) have "p_pty p \<noteq> None" by (simp add: resize_inv_def)
  from terminal_resize_ok [OF this, of lib sz "rz_os s"] obtain k where
    k: "terminal_resize lib (p_pty p) sz (rz_os s) = (Ok (), k)" by (metis prod.collapse)
  with Resizes h assms show ?thesis
    by (cases start; cases effect)
      (auto simp: resize_step_iff resize_inv_def handled_def on_the_way_def handle_with_def handle_events_append)
next
  case Reports
  then obtain sz f where h: "rz_hand s = HandEffect sz" "effect = Some f"
    using assms(1) by (auto simp: resize_step_iff split: hand_pc.splits option.splits)
  with Reports assms show ?thesis
    by (cases start) (auto simp: resize_step_iff resize_inv_def handled_def on_the_way_def handle_with_def handle_events_append)
next
  case HandEnds
  with assms show ?thesis
    by (auto simp: resize_step_iff resize_inv_def handled_def on_the_way_def split: if_splits)
qed

interpretation resizing: step_invariant "resize_step lib p effect" "resize_inv lib p effect start" for lib p effect start
  by unfold_locales (rule resize_inv_step)

lemma resize_inv_init: "p_pty p \<noteq> None \<Longrightarrow> resize_inv lib p effect (k, x) (resize_init k x)"
  by (simp add: resize_inv_def resize_init_def handled_def on_the_way_def handle_with_def)

lemmas resize_reachable = resizing.run_inv [OF _ resize_inv_init]

section \<open>How long the goroutines run\<close>

text \<open>The actions that the two goroutines have left, once the windows are closed.\<close>

definition own_action :: "resize_label \<Rightarrow> bool" where
  "own_action l \<longleftrightarrow> l \<in> {FwdTakes, FwdCloses, HandsOver, Resizes, Reports, HandEnds}"

definition actions_left :: "('m, 'e) resize_sys \<Rightarrow> nat" where
  "actions_left s =
     4 * length (rz_winCh s) + (case rz_fwd s of FwdRange \<Rightarrow> 1 | FwdSend sz \<Rightarrow> 4 | FwdGone \<Rightarrow> 0) +
     (case rz_hand s of HandResize sz \<Rightarrow> 3 | HandEffect sz \<Rightarrow> 2 | HandGone \<Rightarrow> 0 | _ \<Rightarrow> 1)"

definition windows_closed :: "'m tty_lib \<Rightarrow> 'm pair \<Rightarrow> (win_size \<Rightarrow> 'e \<Rightarrow> 'e) option \<Rightarrow> 'm os \<times> 'e \<Rightarrow> ('m, 'e) resize_sys \<Rightarrow> bool" where
  "windows_closed lib p effect start s \<longleftrightarrow> resize_inv lib p effect start s \<and> rz_winCh_closed s"

lemma closed_step: "resize_step lib p effect s l s' \<Longrightarrow> rz_winCh_closed s \<Longrightarrow> rz_winCh_closed s' \<and> rz_requests s' = rz_requests s"
  by (cases l) (auto simp: resize_step_iff split: if_splits fwd_pc.splits hand_pc.splits list.splits option.splits
      prod.splits go.splits)

lemma actions_decrease:
  assumes "resize_step lib p effect s l s'" and "windows_closed lib p effect start s"
  shows "actions_left s' + (if own_action l then 1 else 0) \<le> actions_left s"
proof -
  from assms(2) have "resize_inv lib p effect start s" by (simp add: windows_closed_def)
  from resize_inv_step [OF assms(1) this] have "\<not> rz_panic s'" by (simp add: resize_inv_def)
  with assms show ?thesis
    by (cases l) (auto simp: resize_step_iff actions_left_def own_action_def windows_closed_def
        split: if_splits fwd_pc.splits hand_pc.splits list.splits option.splits prod.splits go.splits)
qed

interpretation resizes: step_bound "resize_step lib p effect" "windows_closed lib p effect start" own_action actions_left
  for lib p effect start
proof
  show "windows_closed lib p effect start s'" if "resize_step lib p effect s l s'" "windows_closed lib p effect start s" for s l s'
    using that resize_inv_step closed_step unfolding windows_closed_def by blast
qed (rule actions_decrease)

text \<open>One of the actions is possible until both goroutines are gone.\<close>

lemma resize_progress:
  assumes "windows_closed lib p effect start s" and "rz_hand s \<noteq> HandIdle"
  shows "(\<exists>l s'. own_action l \<and> resize_step lib p effect s l s') \<or> (rz_fwd s = FwdGone \<and> rz_hand s = HandGone)"
proof -
  from assms(1) have i: "\<not> rz_panic s" "p_pty p \<noteq> None" "rz_chan_closed s \<longleftrightarrow> rz_fwd s = FwdGone" "rz_winCh_closed s"
    "handled lib p effect start s" by (simp_all add: windows_closed_def resize_inv_def)
  have go: ?thesis if "own_action l" "Some s' \<in> {client_next l s, forward_next l s, handle_next lib p effect l s}" for l s'
    using that i(1) unfolding resize_step_iff by blast
  show ?thesis
  proof (cases "rz_hand s")
    case (HandResize sz)
    obtain k where "terminal_resize lib (p_pty p) sz (rz_os s) = (Ok (), k)"
      using terminal_resize_ok [OF i(2), of lib sz "rz_os s"] by (metis prod.collapse)
    with HandResize show ?thesis
      by (cases effect) (intro go [of Resizes]; simp add: own_action_def)+
  next
    case (HandEffect sz)
    with i(5) obtain f where "effect = Some f" by (auto simp: handled_def)
    with HandEffect show ?thesis by (intro go [of Reports]) (auto simp: own_action_def)
  next
    case HandRange
    show ?thesis
    proof (cases "rz_fwd s")
      case FwdRange
      show ?thesis
      proof (cases "rz_winCh s")
        case Nil
        with FwdRange i show ?thesis by (intro go [of FwdCloses]) (auto simp: own_action_def)
      next
        case (Cons win ws)
        with FwdRange show ?thesis by (intro go [of FwdTakes]) (auto simp: own_action_def)
      qed
    next
      case (FwdSend sz)
      with HandRange show ?thesis by (intro go [of HandsOver]) (auto simp: own_action_def)
    next
      case FwdGone
      with HandRange i(3) show ?thesis by (intro go [of HandEnds]) (auto simp: own_action_def)
    qed
  next
    case HandGone
    with assms(1) show ?thesis by (simp add: windows_closed_def resize_inv_def)
  qed (use assms(2) in simp)
qed

section \<open>Properties\<close>

text \<open>A schedule for the examples: two windows, the second of which is too large for 16 bits.\<close>

definition resize_schedule :: "resize_label list" where
  "resize_schedule =
     [WindowChanges (80, 24), FwdTakes, HandleStarts, HandsOver, WindowChanges (65537, 40), Resizes, FwdTakes, WindowsClosed,
      Reports, HandsOver, FwdCloses, Resizes]"

definition toy_pair :: "nat pair" where
  "toy_pair = \<lparr>p_pty = Some \<lparr>t_file = Some 3, t_fd = 3, isTerminal = True, t_state = None\<rparr>, p_tty = None\<rparr>"

abbreviation toy_resizes :: "resize_label list \<Rightarrow> (nat, win_size list) resize_sys option" where
  "toy_resizes ls \<equiv> run_next (resize_next toy_tty toy_pair (Some (\<lambda>sz x. x @ [sz]))) ls (resize_init toy_os [])"

lemma toy_resizes_exec:
  "map_option (\<lambda>s. (rz_hand s, rz_fwd s, map (map_prod uint uint \<circ> (\<lambda>z. (Width z, Height z))) (rz_effect s),
       map_option (\<lambda>z. (uint (Width z), uint (Height z))) (os_size (rz_os s) 3))) (toy_resizes resize_schedule) =
     Some (HandEffect (to_size (65537, 40)), FwdGone, [(80, 24)], Some (1, 40))"
  "map_option (\<lambda>s. (rz_hand s, rz_winCh_closed s, actions_left s)) (toy_resizes (take 8 resize_schedule)) =
     Some (HandEffect (to_size (80, 24)), True, 6)"
  "map_option rz_hand (toy_resizes [WindowChanges (80, 24), FwdTakes]) = Some HandIdle"
  by code_simp+

lemma resize_exec_run: "run_next (resize_next lib p effect) ls s = Some s' \<Longrightarrow> run_path (resize_step lib p effect) s ls s'"
  unfolding resize_step_def by (rule run_next_path)

text \<open>
  C16.  The window sizes of a client reach the terminal and the effect in order, none lost and none
  twice, with width and height reduced to 16 bits: at any time, what has been handled and what is
  on its way are together what the client has asked for, and what the two goroutines have done is
  what \<open>HandleWith\<close> does with the sizes that have been handled, one after the other.
\<close>

theorem resize_applies_requests:
  assumes "run_path (resize_step lib p effect) (resize_init k x) ls s" and "p_pty p \<noteq> None"
  shows "\<not> rz_panic s \<and>
    map (\<lambda>z. (uint (Width z), uint (Height z))) (rz_done s @ on_the_way s) =
      map (\<lambda>(w, h). (w mod 65536, h mod 65536)) (rz_requests s) \<and>
    ((\<exists>sz. rz_hand s = HandEffect sz) \<or>
     handle_with lib p (Some (rz_done s)) effect (k, x) = (Ok (), rz_os s, rz_effect s))"
proof -
  from resize_reachable [OF assms] have i: "\<not> rz_panic s" "rz_done s @ on_the_way s = map to_size (rz_requests s)"
      "(\<exists>sz. rz_hand s = HandEffect sz) \<or> handle_with lib p (Some (rz_done s)) effect (k, x) = (Ok (), rz_os s, rz_effect s)"
    by (auto simp: resize_inv_def handled_def split: hand_pc.splits)
  have "map (\<lambda>z. (uint (Width z), uint (Height z))) (map to_size ws) = map (\<lambda>(w, h). (w mod 65536, h mod 65536)) ws" for ws
    by (simp add: to_size_def uint_word_of_int split_beta)
  with i show ?thesis by simp
qed

theorem resize_applies_requests_witness:
  "\<exists>s. toy_resizes (resize_schedule @ [Reports]) = Some s \<and> rz_hand s = HandRange \<and>
     map (\<lambda>z. (uint (Width z), uint (Height z))) (rz_done s @ on_the_way s) = [(80, 24), (1, 40)]"
proof -
  have "map_option (\<lambda>s. (rz_hand s, rz_requests s)) (toy_resizes (resize_schedule @ [Reports])) =
      Some (HandRange, [(80, 24), (65537, 40)])"
    by code_simp
  then obtain s where s: "toy_resizes (resize_schedule @ [Reports]) = Some s" "rz_hand s = HandRange"
      "rz_requests s = [(80, 24), (65537, 40)]"
    by auto
  from resize_applies_requests [OF resize_exec_run [OF s(1)]] s show ?thesis by (simp add: toy_pair_def)
qed

text \<open>The goroutine that handles the sizes is not stopped.\<close>

lemma hand_started: "resize_step lib p effect s l s' \<Longrightarrow> rz_hand s \<noteq> HandIdle \<Longrightarrow> rz_hand s' \<noteq> HandIdle"
  by (cases l) (auto simp: resize_step_iff split: if_splits fwd_pc.splits hand_pc.splits list.splits option.splits
      prod.splits go.splits)

lemma after_close:
  assumes "run_path (resize_step lib p effect) s ls s'" and "rz_winCh_closed s" and "rz_hand s \<noteq> HandIdle"
  shows "rz_winCh_closed s' \<and> rz_requests s' = rz_requests s \<and> rz_hand s' \<noteq> HandIdle"
  using assms
proof (induction rule: run_path.induct)
  case (run_cons s l s' ls s'')
  with closed_step [OF run_cons(1)] hand_started [OF run_cons(1)] show ?case by simp
qed simp



text \<open>
  When nobody handles the sizes, because the process could not be started, the goroutine of
  the session that forwards them is stuck with the first one: it never ends, not even when the
  client is gone, and nothing is resized.
\<close>

theorem unhandled_resize_blocks:
  assumes "run_path (resize_step lib p effect) (resize_init k x) ls s" and "HandleStarts \<notin> set ls" and "FwdTakes \<in> set ls"
  shows "\<exists>sz. rz_fwd s = FwdSend sz \<and> rz_done s = [] \<and> rz_os s = k"
proof -
  have keep: "rz_hand s' = HandIdle \<and> rz_done s' = rz_done s \<and> rz_os s' = rz_os s \<and>
      ((\<exists>sz. rz_fwd s = FwdSend sz) \<or> l = FwdTakes \<longrightarrow> (\<exists>sz. rz_fwd s' = FwdSend sz))"
    if "resize_step lib p effect s l s'" "l \<noteq> HandleStarts" "rz_hand s = HandIdle" for s l s'
    using that by (cases l) (auto simp: resize_step_iff split: if_splits fwd_pc.splits list.splits)
  have "rz_hand s = HandIdle \<and> rz_done s = rz_done s0 \<and> rz_os s = rz_os s0 \<and>
      ((\<exists>sz. rz_fwd s0 = FwdSend sz) \<or> FwdTakes \<in> set ls \<longrightarrow> (\<exists>sz. rz_fwd s = FwdSend sz))"
    if "run_path (resize_step lib p effect) s0 ls s" "HandleStarts \<notin> set ls" "rz_hand s0 = HandIdle" for s0 s ls
    using that
  proof (induction rule: run_path.induct)
    case (run_cons s l s' ls s'')
    with keep [OF run_cons(1)] show ?case by auto
  qed simp
  from this [OF assms(1,2)] assms(3) show ?thesis by (auto simp: resize_init_def)
qed

theorem unhandled_resize_blocks_witness:
  "\<exists>s sz. toy_resizes [WindowChanges (80, 24), FwdTakes] = Some s \<and> rz_fwd s = FwdSend sz"
proof -
  from toy_resizes_exec(3) obtain s where s: "toy_resizes [WindowChanges (80, 24), FwdTakes] = Some s" by auto
  from unhandled_resize_blocks [OF resize_exec_run [OF s]] s show ?thesis by auto
qed

end
