(* ===== verification/PairOps.thy ===== *)
theory PairOps
  imports Term
begin

text \<open>
  The operations of a \<open>Pair\<close> in any order (\<open>internal/term/pair.go\<close>): the well-formedness of its
  two terminals, which every operation keeps.
\<close>

section \<open>Operations\<close>

datatype pair_op =
    OpUse "nat option" | OpOpen bool | OpRawMode | OpRestoreMode | OpResize win_size | OpUnhangHack | OpClose

fun pair_apply :: "'m tty_lib \<Rightarrow> pair_op \<Rightarrow> 'm pair \<times> 'm os \<Rightarrow> unit go \<times> 'm pair \<times> 'm os" where
  "pair_apply lib (OpUse f) (p, k) = (Ok (), pair_use lib f p k, k)"
| "pair_apply lib (OpOpen rawMode) (p, k) = pair_open lib rawMode p k"
| "pair_apply lib OpRawMode (p, k) = (Ok (), pair_raw_mode lib p k)"
| "pair_apply lib OpRestoreMode (p, k) =
     (case pair_restore_mode lib (Some p) k of (p', k') \<Rightarrow> (Ok (), case p' of None \<Rightarrow> p | Some q \<Rightarrow> q, k'))"
| "pair_apply lib (OpResize sz) (p, k) = (case terminal_resize lib (p_pty p) sz k of (r, k') \<Rightarrow> (r, p, k'))"
| "pair_apply lib OpUnhangHack (p, k) = (Ok (), p, unhang_hack (Some p) k)"
| "pair_apply lib OpClose (p, k) =
     (case pair_close lib (Some p) k of (p', k') \<Rightarrow> (Ok (), case p' of None \<Rightarrow> p | Some q \<Rightarrow> q, k'))"

text \<open>Errors are results; a panic ends the sequence.\<close>

fun pair_ops :: "'m tty_lib \<Rightarrow> pair_op list \<Rightarrow> 'm pair \<times> 'm os \<Rightarrow> unit go \<times> 'm pair \<times> 'm os" where
  "pair_ops lib [] s = (Ok (), s)"
| "pair_ops lib (x # xs) s = (case pair_apply lib x s of (r, s') \<Rightarrow> if is_panic r then (r, s') else pair_ops lib xs s')"

section \<open>Well-formedness\<close>

text \<open>
  The descriptor and the flag are those of the terminal's own file, and only a real terminal has
  a mode to go back to.
\<close>

definition terminal_typed :: "'m tty_lib \<Rightarrow> 'm terminal \<Rightarrow> bool" where
  "terminal_typed lib t \<longleftrightarrow> (t_state t \<noteq> None \<longrightarrow> isTerminal t) \<and>
     (\<exists>k. GetFdInfo lib (t_file t) k = (t_fd t, isTerminal t))"

definition pair_typed :: "'m tty_lib \<Rightarrow> 'm pair \<Rightarrow> bool" where
  "pair_typed lib p \<longleftrightarrow> (\<forall>t \<in> set_option (p_pty p) \<union> set_option (p_tty p). terminal_typed lib t)"

lemma new_terminal_typed [simp]: "terminal_typed lib (new_terminal lib f k)"
  by (auto simp: terminal_typed_def new_terminal_def split: prod.split)

lemma raw_typed:
  "pred_option (terminal_typed lib) t \<Longrightarrow> terminal_raw_mode lib t k = (r, t', k') \<Longrightarrow>
     pred_option (terminal_typed lib) t' \<and> (t' = None \<longleftrightarrow> t = None)"
  by (cases t) (auto simp: terminal_raw_mode_def terminal_typed_def split: if_splits prod.splits go.splits)

lemma restore_typed:
  "pred_option (terminal_typed lib) t \<Longrightarrow> terminal_restore_mode lib t k = (r, t', k') \<Longrightarrow>
     pred_option (terminal_typed lib) t' \<and> (t' = None \<longleftrightarrow> t = None)"
  by (cases t) (auto simp: terminal_restore_mode_def terminal_typed_def Let_def split: option.splits prod.splits)

lemma pair_typed_parts: "pair_typed lib p \<longleftrightarrow> pred_option (terminal_typed lib) (p_pty p) \<and> pred_option (terminal_typed lib) (p_tty p)"
  by (cases "p_pty p"; cases "p_tty p") (auto simp: pair_typed_def)

lemma pair_raw_typed:
  assumes "pair_typed lib p" and "pair_raw_mode lib p k = (p', k')"
  shows "pair_typed lib p' \<and> (p_pty p' = None \<longleftrightarrow> p_pty p = None)"
  using assms by (auto simp: pair_raw_mode_def pair_typed_parts Let_def split: prod.splits dest!: raw_typed [rotated])

lemma pair_restore_typed:
  assumes "pair_typed lib p" and "pair_restore_mode lib (Some p) k = (p', k')"
  shows "\<exists>q. p' = Some q \<and> pair_typed lib q \<and> (p_pty q = None \<longleftrightarrow> p_pty p = None)"
  using assms by (auto simp: pair_restore_mode_def pair_typed_parts Let_def split: prod.splits dest!: restore_typed [rotated])

lemma pair_open_typed:
  assumes "pair_typed lib p" and "pair_open lib rawMode p k = (r, p', k')" and "open_safe lib"
  shows "\<not> is_panic r \<and> pair_typed lib p' \<and> (p_pty p' = None \<longrightarrow> p_pty p = None) \<and> (is_ok r \<longrightarrow> p_pty p' \<noteq> None)"
proof -
  have fresh: "pair_typed lib \<lparr>p_pty = Some (new_terminal lib f k1), p_tty = Some (new_terminal lib g k1)\<rparr>" for f g k1
    by (simp add: pair_typed_parts)
  have "\<not> is_panic r" using pair_open_safe [OF assms(3), of rawMode p k] assms(2) by simp
  with assms(1,2) show ?thesis
    by (auto simp: pair_open_def Let_def fresh split: prod.splits go.splits if_splits
        dest!: pair_raw_typed [OF fresh])
qed

text \<open>What a pair has been set up with.\<close>

definition pair_ready :: "'m tty_lib \<Rightarrow> 'm pair \<Rightarrow> bool" where
  "pair_ready lib p \<longleftrightarrow> pair_typed lib p \<and> p_pty p \<noteq> None"

lemma pair_apply_ready:
  assumes "pair_apply lib x (p, k) = (r, p', k')" and "pair_ready lib p" and "open_safe lib"
  shows "\<not> is_panic r \<and> pair_ready lib p'"
proof (cases x)
  case (OpUse f)
  with assms(1) show ?thesis by (auto simp: pair_use_def pair_ready_def pair_typed_parts)
next
  case (OpOpen b)
  with assms pair_open_typed [of lib p b k r p' k'] show ?thesis by (auto simp: pair_ready_def)
next
  case OpRawMode
  with assms show ?thesis by (auto simp: pair_ready_def dest: pair_raw_typed)
next
  case OpRestoreMode
  obtain q k1 where "pair_restore_mode lib (Some p) k = (q, k1)" by (metis prod.exhaust)
  with pair_restore_typed [OF _ this] OpRestoreMode assms show ?thesis by (auto simp: pair_ready_def)
next
  case (OpResize sz)
  with assms show ?thesis by (auto simp: pair_ready_def terminal_resize_def split: if_splits)
next
  case OpUnhangHack
  with assms show ?thesis by auto
next
  case OpClose
  obtain q k1 where q: "pair_restore_mode lib (Some p) k = (q, k1)" by (metis prod.exhaust)
  with pair_restore_typed [OF _ q] OpClose assms show ?thesis
    by (auto simp: pair_ready_def pair_close_def Let_def)
qed

lemma pair_ops_ready:
  "pair_ops lib xs (p, k) = (r, p', k') \<Longrightarrow> pair_ready lib p \<Longrightarrow> open_safe lib \<Longrightarrow> \<not> is_panic r \<and> pair_ready lib p'"
proof (induction xs arbitrary: p k)
  case (Cons x xs)
  obtain r1 q k1 where x: "pair_apply lib x (p, k) = (r1, q, k1)" by (metis prod.exhaust)
  from pair_apply_ready [OF x Cons.prems(2,3)] Cons.IH [of q k1] Cons.prems x show ?case by simp
qed auto

section \<open>Properties\<close>

text \<open>
  C17.  A pair stays well formed: after \<open>Use\<close>, or after an \<open>Open\<close> that succeeded, whatever the
  sequence of its methods (opening it again, a mode switched twice, use after \<open>Close\<close>), none of
  them dereferences a nil pointer, the descriptor and the flag of each terminal are those of its own
  file, and only a real terminal has a mode to be restored.
\<close>

theorem pair_stays_typed:
  assumes "x = OpUse f \<or> x = OpOpen rawMode" and "pair_apply lib x (zero_pair, k) = (Ok (), p0, k0)"
    and "open_safe lib" and "pair_ops lib xs (p0, k0) = (r, p, k')"
  shows "\<not> is_panic r \<and> p_pty p \<noteq> None \<and>
    (\<forall>t. t \<in> set_option (p_pty p) \<union> set_option (p_tty p) \<longrightarrow>
       (t_state t \<noteq> None \<longrightarrow> isTerminal t) \<and> (\<exists>k. GetFdInfo lib (t_file t) k = (t_fd t, isTerminal t)))"
proof -
  have zero: "pair_typed lib (zero_pair :: 'a pair)" by (simp add: zero_pair_def pair_typed_parts)
  from assms(1) have "pair_ready lib p0"
  proof
    assume "x = OpUse f"
    with assms(2) show ?thesis by (auto simp: pair_use_def pair_ready_def pair_typed_parts zero_pair_def)
  next
    assume "x = OpOpen rawMode"
    with assms(2) pair_open_typed [OF zero _ assms(3)] show ?thesis by (fastforce simp: pair_ready_def)
  qed
  from pair_ops_ready [OF assms(4) this assms(3)] show ?thesis
    by (simp add: pair_ready_def pair_typed_def terminal_typed_def)
qed

theorem pair_stays_typed_witness:
  "\<exists>p k'. pair_ops toy_tty [OpClose, OpRawMode, OpResize \<lparr>Width = 80, Height = 24\<rparr>, OpUnhangHack, OpOpen True, OpClose]
       (snd (pair_apply toy_tty (OpOpen True) (zero_pair, toy_os))) = (Ok (), p, k') \<and>
     p_pty p \<noteq> None \<and> (\<forall>t. t \<in> set_option (p_pty p) \<longrightarrow> isTerminal t)"
proof -
  let ?xs = "[OpClose, OpRawMode, OpResize \<lparr>Width = 80, Height = 24\<rparr>, OpUnhangHack, OpOpen True, OpClose]"
  have ok: "fst (pair_apply toy_tty (OpOpen True) (zero_pair, toy_os)) = Ok ()"
    "fst (pair_ops toy_tty ?xs (snd (pair_apply toy_tty (OpOpen True) (zero_pair, toy_os)))) = Ok ()"
    by (simp_all add: toy_os_def toy_tty_def zero_pair_def pair_open_def pair_raw_mode_def terminal_raw_mode_def
        new_terminal_def os_Pipe_def pair_close_def pair_restore_mode_def terminal_restore_mode_def terminal_close_def
        terminal_resize_def unhang_hack_def)
  obtain p0 k0 where open0: "pair_apply toy_tty (OpOpen True) (zero_pair, toy_os) = (Ok (), p0, k0)"
    using ok(1) by (metis prod.collapse)
  obtain p k' where run: "pair_ops toy_tty ?xs (p0, k0) = (Ok (), p, k')"
    using ok(2) open0 by (metis prod.collapse snd_conv)
  have safe: "open_safe toy_tty" by (simp add: open_safe_def toy_tty_def os_Pipe_def)
  note typed = pair_stays_typed [OF disjI2 [OF refl] open0 safe run]
  from typed have pty: "p_pty p \<noteq> None" by blast
  have "isTerminal t" if "t \<in> set_option (p_pty p)" for t
  proof -
    from typed that obtain k1 where "GetFdInfo toy_tty (t_file t) k1 = (t_fd t, isTerminal t)" by blast
    then show ?thesis by (simp add: toy_tty_def)
  qed
  with pty run open0 show ?thesis by simp
qed

end
