(* ===== verification/Builds.thy ===== *)
theory Builds
  imports Logging
begin

text \<open>
  The interface of the leak detector and its two builds (\<open>logging/detector.go\<close>,
  \<open>logging/detector_on.go\<close> and \<open>logging/detector_off.go\<close>): the build tag \<open>leak\<close> decides which
  implementation the program is compiled with.
\<close>

section \<open>The interface\<close>

text \<open>A sequence of calls of a detector; a panic ends the program.\<close>

fun detector_calls :: "(det_op \<Rightarrow> 'd \<Rightarrow> unit go \<times> 'd) \<Rightarrow> det_op list \<Rightarrow> 'd \<Rightarrow> unit go \<times> 'd" where
  "detector_calls f [] d = (Ok (), d)"
| "detector_calls f (x # xs) d =
     (case f x d of
        (Ok u, d') \<Rightarrow> detector_calls f xs d'
      | (r, d') \<Rightarrow> (r, d'))"

text \<open>What every implementation promises: calls that are legal for the outstanding names succeed.\<close>

locale leak_detector =
  fixes call :: "det_op \<Rightarrow> 'd \<Rightarrow> unit go \<times> 'd"
    and knows :: "'d \<Rightarrow> string set \<Rightarrow> bool"
  assumes legal: "knows d A \<Longrightarrow> spec_op x A = Some B \<Longrightarrow> \<exists>d'. call x d = (Ok (), d') \<and> knows d' B"
begin

lemma legal_calls: "knows d A \<Longrightarrow> spec_run xs A = Some B \<Longrightarrow> \<exists>d'. detector_calls call xs d = (Ok (), d') \<and> knows d' B"
proof (induction xs arbitrary: d A)
  case (Cons x xs)
  then obtain C where C: "spec_op x A = Some C" "spec_run xs C = Some B" by (auto split: option.splits)
  from legal [OF Cons.prems(1) C(1)] obtain d' where "call x d = (Ok (), d')" "knows d' C" by blast
  with Cons.IH [OF _ C(2)] show ?case by simp
qed simp

end

text \<open>An implementation that also refuses every other call notices each misuse.\<close>

locale strict_leak_detector = leak_detector +
  assumes misuse: "knows d A \<Longrightarrow> spec_op x A = None \<Longrightarrow> is_panic (fst (call x d))"
begin

lemma misused_calls: "knows d A \<Longrightarrow> spec_run xs A = None \<Longrightarrow> is_panic (fst (detector_calls call xs d))"
proof (induction xs arbitrary: d A)
  case (Cons x xs)
  show ?case
  proof (cases "spec_op x A")
    case None
    with misuse [OF Cons.prems(1)] have "is_panic (fst (call x d))" by simp
    then show ?thesis by (cases "call x d"; cases "fst (call x d)") simp_all
  next
    case (Some B)
    from legal [OF Cons.prems(1) Some] obtain d' where d': "call x d = (Ok (), d')" "knows d' B" by blast
    from Some Cons.prems(2) have "spec_run xs B = None" by simp
    with Cons.IH [OF d'(2)] d'(1) show ?thesis by simp
  qed
qed simp

end

section \<open>The two implementations\<close>

fun off_apply :: "det_op \<Rightarrow> leakdet_off \<Rightarrow> unit go \<times> leakdet_off" where
  "off_apply (DetAdd name loc) d = off_add name d"
| "off_apply (DetDone name) d = off_done name d"

interpretation detector_on: strict_leak_detector det_apply "\<lambda>d A. det_inv d \<and> outstanding d = A"
proof
  fix d A x B
  assume d: "det_inv d \<and> outstanding d = A"
  note spec = det_apply_spec [of d x]
  show "\<exists>d'. det_apply x d = (Ok (), d') \<and> det_inv d' \<and> outstanding d' = B" if "spec_op x A = Some B"
    using spec d that by auto
  show "is_panic (fst (det_apply x d))" if "spec_op x A = None"
    using spec d that by auto
qed

interpretation detector_off: leak_detector off_apply "\<lambda>d A. True"
proof
  show "\<exists>d'. off_apply x d = (Ok (), d') \<and> True" for x d
    by (cases x) (simp_all add: off_add_def off_done_def)
qed

section \<open>The build tag\<close>

definition MemoryLeakEnabled :: "bool \<Rightarrow> bool" where
  "MemoryLeakEnabled leak = leak"

text \<open>The type \<open>MemoryLeakDetector\<close> is one of the two.\<close>

datatype leak_build = BuildOn leakdet | BuildOff leakdet_off

definition NewLeakDetector :: "bool \<Rightarrow> leak_build" where
  "NewLeakDetector leak = (if MemoryLeakEnabled leak then BuildOn new_detector else BuildOff MemoryLeakDetectorOff)"

fun build_apply :: "det_op \<Rightarrow> leak_build \<Rightarrow> unit go \<times> leak_build" where
  "build_apply x (BuildOn d) = (case det_apply x d of (r, d') \<Rightarrow> (r, BuildOn d'))"
| "build_apply x (BuildOff d) = (case off_apply x d of (r, d') \<Rightarrow> (r, BuildOff d'))"

lemma build_calls_on:
  "detector_calls build_apply xs (BuildOn d) = (case detector_calls det_apply xs d of (r, d') \<Rightarrow> (r, BuildOn d'))"
  by (induction xs arbitrary: d) (auto split: prod.splits go.splits)

lemma build_calls_off: "detector_calls build_apply xs (BuildOff d) = (Ok (), BuildOff d)"
proof (induction xs)
  case (Cons x xs)
  then show ?case by (cases x) (simp_all add: off_add_def off_done_def)
qed simp

text \<open>The outstanding names that a build keeps track of, if it does.\<close>

fun build_knows :: "leak_build \<Rightarrow> string set \<Rightarrow> bool" where
  "build_knows (BuildOn d) A \<longleftrightarrow> det_inv d \<and> outstanding d = A"
| "build_knows (BuildOff d) A \<longleftrightarrow> True"

interpretation build: leak_detector build_apply build_knows
proof
  fix d A x B
  assume d: "build_knows d A" and x: "spec_op x A = Some B"
  show "\<exists>d'. build_apply x d = (Ok (), d') \<and> build_knows d' B"
  proof (cases d)
    case (BuildOn e)
    with detector_on.legal [of e A x B] d x show ?thesis by auto
  next
    case (BuildOff e)
    from detector_off.legal [OF TrueI x, of e] obtain e' where "off_apply x e = (Ok (), e')" by blast
    with BuildOff show ?thesis by simp
  qed
qed

section \<open>Properties\<close>


end
