(* ===== verification/Spec2Isabelle.thy ===== *)
theory Spec2Isabelle
  imports Commands Compose ReplDrain SystemSession DockerDrain Delivery Resize PairOps Builds
begin

text \<open>
  A verification development for proxyssh, a Go library and three programs that serve ssh
  sessions.

  \<^bold>\<open>The program.\<close>  An ssh server (of github.com/gliderlabs/ssh) is put together by
  \<open>NewServer\<close> from options and configurations.  A configuration can set the key handler that
  authenticates users, and the handler that makes a process for every session: a process in a
  Docker container (\<open>config/dockerexec\<close>), one of the host (\<open>config/osexec\<close>), or a
  read-eval-print loop (\<open>config/terminal\<close>).  A session connects the streams of the client with
  those of its process, waits for it, exits, and cleans it up; a leak detector keeps track of the
  goroutines that are under way.  The programs under \<open>cmd\<close> parse their flags, call
  \<open>NewServer\<close> and listen.

  \<^bold>\<open>The theories\<close>, with the files they model (names as in the code where Isabelle allows it):

  \<^item> \<open>Prelude\<close>: results, errors and panics of Go calls (\<open>go\<close>), \<open>strings\<close>, \<open>strconv\<close>;
    runs of step relations (\<open>run_path\<close>) and the locale \<open>step_invariant\<close>.
  \<^item> \<open>Refinement\<close>: locales for relations that refine others, for invariants that are pulled back
    along a refinement, and for quantities that bound the steps of a run.
  \<^item> \<open>Lock\<close>: \<open>internal/lock\<close>, one-time locks as state passing, work groups as steps.
  \<^item> \<open>Logging\<close>, \<open>LeakStats\<close>: \<open>logging/\<close>; the detector, what it promises as a set of
    outstanding actions, and its global statistics with all reports that are under way.
    \<open>Builds\<close>: the interface of the detector, and the builds with and without the tag \<open>leak\<close>.
  \<^item> \<open>Address\<close>, \<open>HostKey\<close>, \<open>Server\<close>: \<open>feature/\<close>; addresses and their lists, host keys on a
    file system, forwarding decisions, authorization by keys.
  \<^item> \<open>Configuration\<close>: \<open>options.go\<close>, \<open>configuration.go\<close> and \<open>ApplyHandler\<close>.
  \<^item> \<open>Flags\<close>, \<open>Commands\<close>: package \<open>flag\<close>, every \<open>RegisterFlags\<close>, \<open>internal/legal/flag.go\<close>
    and the programs under \<open>cmd\<close>.
  \<^item> \<open>AsyncIO\<close>: \<open>internal/asyncio\<close>; one call of \<open>Wait\<close> as steps, any number of calls of
    \<open>Read\<close> and \<open>Write\<close> that share the buffer pool, and copies as functions.
  \<^item> \<open>Term\<close>: \<open>internal/term\<close>; files, pipes and terminals of an operating system.  \<open>PairOps\<close>: the
    methods of a pair in any order.  \<open>Resize\<close>: window sizes on their way from the client
    (\<open>startPty\<close> in \<open>session.go\<close>) to the terminal (\<open>HandleWith\<close>).
  \<^item> \<open>Session\<close>, \<open>SessionInv\<close>: \<open>session.go\<close>; all goroutines of a session as steps, and their
    invariants.
  \<^item> \<open>Handle\<close>: \<open>handle.go\<close>, and what a session needs of a process.
  \<^item> \<open>Repl\<close>, \<open>OsExec\<close>, \<open>Docker\<close>, \<open>DockerStream\<close>, \<open>DockerExec\<close>: the three kinds of
    processes and their configurations; the goroutines of a container process are in
    \<open>DockerStream\<close>.
  \<^item> \<open>Joint\<close>: a session together with its process.  \<open>ReplLoop\<close>, \<open>ReplSession\<close>, \<open>SystemSession\<close>,
    \<open>DockerSession\<close>: the goroutines of each kind of process, one action at a time, and the properties
    of a session that runs it.  \<open>Drain\<close>: when the goroutines of both come to their end, with
    \<open>ReplDrain\<close> and \<open>DockerDrain\<close> for two of the kinds (the third is in \<open>SystemSession\<close>).
  \<^item> \<open>Delivery\<close>: the output of a process without a terminal on its way to the client
    (\<open>startRegular\<close> in \<open>session.go\<close>), and the exit that does not wait for it.
  \<^item> \<open>TestUtils\<close>, \<open>Compose\<close>: the helpers of the test suite, \<open>internal/testutils\<close> and
    \<open>internal/integrationtest\<close>.

  This theory holds the properties that span the components.

  \<^bold>\<open>How code becomes definitions.\<close>  A struct is a record, a pointer or an interface value that
  may be nil an option.  A method takes the state it works on and returns the new one; a call
  that returns an error or may panic returns a value of \<open>go\<close>, so that every error path is a
  branch.  Where goroutines interleave, each atomic action (a channel operation, an atomic
  access, a call) is a rule of an inductive step relation whose label says who acts and what the
  environment answers; beside it stands a function of the label that runs a schedule, for
  examples.  For the processes and for window sizes the function comes first, and the relation is
  its graph.  Integers have their width where it matters (ports are \<open>16 word\<close>, requested ports
  \<open>32 word\<close>).

  \<^bold>\<open>A session and its process\<close> run together in \<open>joint_step\<close>.  Each action of the process has a
  \<open>proc_event\<close>: it is inside a method that the session calls, or returns from it, or belongs to a
  goroutine of the process, and it may call the leak detector that both share.  A method's
  action is possible only when the session's goroutine is at that call (\<open>calls_now\<close>), the session
  goes on with what the method returned, a panic or a misuse of the detector crashes the server,
  and a process notices that its context is done (\<open>CtxSeen\<close>) only when the session's is.  Every
  such run is a run of the session (\<open>joint_session_run\<close>), so all that is shown of sessions holds.

  \<^bold>\<open>The interfaces\<close> are locales. \<open>step_invariant\<close> turns one preservation lemma into an invariant of
  all runs; it is interpreted for calls of \<open>Wait\<close>, for the calls that share the buffer pool, for
  sessions, and for the goroutines of a container process. \<open>one_shot\<close> and \<open>work_group\<close> are what
  clients may rely on of the locks, \<open>host_key_codec\<close> what loading a key needs of a kind of key
  (interpreted for both kinds, and for the interface value). \<open>handler_neutral\<close> is what \<open>NewServer\<close>
  needs of a configuration, interpreted for the options and the three configurations. \<open>process_impl\<close>
  is what a session needs of a process (no method panics when called in the order that a session
  keeps), interpreted for the three kinds. \<open>flags_keep\<close> says what parsing a command line keeps,
  interpreted for the programs' flags. \<open>session_process\<close> is what a process promises to the session
  it runs with (no panic in a state that a session can bring it into, calls of the detector that fit
  the names it has in it), and gives safety, the exact detector and the origin of the exit status of
  the joint relation; it is interpreted for the three kinds. \<open>draining_process\<close> extends it by what
  makes a session end (a method goes on until it returns, \<open>Wait\<close> does so after \<open>Cleanup\<close>, and then
  the goroutines of the process end, and every action without the client decreases a quantity); it
  is interpreted for the three kinds too. \<open>refinement\<close> is interpreted for the delivery of output
  and, with \<open>refined_invariant\<close>, for the joint relation over the session's; \<open>step_bound\<close> for a loop
  after its cancellation, for undisturbed sessions and for the goroutines that handle window sizes. \<open>leak_detector\<close> and \<open>strict_leak_detector\<close> are the detector's
  interface, interpreted for the enabled and the disabled one, and for what the build tag chooses.

  \<^bold>\<open>What is shown.\<close> Authorization: a session of dockersshd runs in the container whose keys let the
  user in, from the command line on. Sessions: exactly one exit with the right status, methods
  called once and in order, no goroutine forgotten by the detector, an exit after the connection is
  lost. Sessions with their processes, for each of the three kinds: no interleaving crashes the
  server, with the exceptions that are proved to (a shell that is not found, a refused attachment),
  the detector knows exactly the goroutines of both, and the exit status is traced to its origin:
  what the loop's function returned for what was read, what the command ended with, what the daemon
  reported for an execution it created. Once cancelled, a loop ends within eight actions. Nothing is
  stuck or goes on for ever: once the context is done, a session and its process do boundedly many
  more actions without the client, and they do not stop before all goroutines but the copiers have
  returned, with one exit status sent and the process cleaned up. \<open>Wait\<close> of a container process
  returns when its context is done. Input and output: \<open>Wait\<close> is truthful and returns, copies deliver
  prefixes, buffers are shared only after a timeout. Terminals and pipes: modes are restored,
  descriptors closed, pairs stay well formed, and window sizes are applied in order, all of them
  once the client is gone. Output reaches the client in order, but the exit can
  overtake it. Host keys persist and are never overwritten; forwarding is granted
  exactly as listed; the options win over configurations; addresses and options survive printing and
  parsing.

  \<^bold>\<open>Parameters\<close> stand for code that is not in the repository: cryptography and encodings of keys
  (\<open>crypto\<close>), the ssh package's tables and functions, the Docker client, \<open>os/exec\<close> and the pty
  and terminal packages, \<open>stdcopy.StdCopy\<close>, \<open>time.ParseDuration\<close>, the text of an error.  What
  is assumed of them is named: \<open>crypto_ok\<close> (encodings round trip), \<open>parse_shrinks\<close> (a parsed
  key takes at least one byte), \<open>tty_ok\<close>, \<open>open_safe\<close>, \<open>exec_safe\<close>, \<open>attach_ok\<close> (calls do not
  panic, an attachment without an error has a connection).

  \<^bold>\<open>Fuel and bounds.\<close> \<open>io_copy\<close> has fuel, one more than the number of chunks of a finite source is
  enough (\<open>copy_delivers_prefix\<close>); \<open>parse_all_keys\<close> is a partial function, and ends when the parser
  consumes its input. All other loops terminate by construction. Liveness is stated as a bound on
  the steps that are left, with the next step that is possible; the bounds are eight actions for a
  cancelled loop (the longest way from its welcome to its end), 25 for a session and 4, 17 and 23
  for a process on the host, in a container and a loop when they are undisturbed (the longest ways
  of all their goroutines), and \<open>actions_left\<close>, at most four for each size, for the handling of
  window sizes.

  \<^bold>\<open>Not modelled\<close>: \<open>internal/legal/notices.go\<close> (a generated string), the tests
  themselves, the usage texts of package \<open>flag\<close>, and the network: what \<open>ListenAndServe\<close> does
  is the ssh package's.  Time is modelled only as timers that may fire.  The copies of a session and
  of a container process end with any result in the session relations; how they copy is the
  subject of \<open>AsyncIO\<close>, and what becomes of the output that of \<open>Delivery\<close>.  Window sizes have a relation of their own, and are not steps of the
  joint relation.
\<close>

section \<open>Properties that span components\<close>

definition toy_cmd_env :: cmd_env where
  "toy_cmd_env =
     \<lparr>ce_parseDuration = (\<lambda>s. Err errSyntax), ce_notices = [], ce_platform = toy_platform,
      ce_err_text = (\<lambda>e. ''error'')\<rparr>"

text \<open>A server without host keys, for the examples: \<open>-hostkey\<close> with an empty path.\<close>

lemma toy_parse_hostkey:
  assumes "lookup_flag fs ''hostkey'' = Some hostkey_flag"
  shows "parse_flags fs [''-hostkey'', []] p = (Parsed [], put_options (\<lambda>os. os\<lparr>HostKeyPath := []\<rparr>) p)"
  using parse_flag_value [OF plain_names(4) assms, of "[]" p _ "[]"]
  by (simp add: hostkey_flag_def string_flag_def parse_flags.simps [of fs "[]"] parse_one_def)

lemma toy_serves:
  "\<exists>server w'. dockersshd toy_cmd_env toy_auth (Ok toy_docker) [toy_container] [''-hostkey'', []] (toy_world Map.empty)
     = RunServes server w'"
proof -
  have "lookup_flag (docker_flags toy_cmd_env) ''hostkey'' = Some hostkey_flag"
    by (simp add: docker_flags_def options_flags_def)
  note parse = toy_parse_hostkey [OF this]
  show ?thesis
    by (simp add: dockersshd_def init_docker parse parse_result_def Let_def run_server_def new_server_def
        apply_configuration_def docker_apply_def apply_handler_def empty_server_def options_configuration_def
        options_apply_def put_options_def with_lists_def split_beta)
qed




lemma toy_exposes:
  "\<exists>(server :: (nat, string list \<Rightarrow> nat repl go) ssh_server) w'.
     exposshed toy_cmd_env (options_args '':22'' [example_address] [] []) (toy_world Map.empty) = RunServes server w'"
proof -
  have "list_all (\<lambda>a. bracket_free (Hostname a)) ([example_address] @ [])" by (simp add: example_address_def)
  note parse = expose_args [OF this]
  show ?thesis
    by (simp add: exposshed_def init_expose parse parse_result_def Let_def run_server_def new_server_def
        apply_configuration_def repl_apply_def apply_handler_def empty_server_def options_configuration_def
        options_apply_def with_args_def split_beta)
qed


end
